(* ===== verification/Go_Prelude.thy ===== *)
theory Go_Prelude
  imports Main "HOL-Library.Word"
begin

text \<open>
  The vocabulary the components share: bytes and Go strings, the error values the code
  returns, the pieces of Go's \<open>strings\<close> and \<open>strconv\<close> packages that the source calls, 64-bit
  wrap-around, durations in nanoseconds, and buffered channels. Lemmas on them are collected
  in \<open>go_simps\<close> (rewriting) so that the component proofs can say \<open>simp add: go_simps\<close>.
\<close>

named_theorems go_simps "rewrite rules for the Go library fragment"

section \<open>Bytes, strings, errors\<close>

type_synonym byte = "8 word"
type_synonym bytes = "byte list"

text \<open>
  A Go string is a sequence of bytes, and so is an Isabelle string: the two functions below
  are the conversions \<open>[]byte(s)\<close> and \<open>string(b)\<close>.
\<close>

definition bytes_of_string :: "string \<Rightarrow> bytes" where
  "bytes_of_string s = map (\<lambda>c. word_of_nat (of_char c)) s"

definition string_of_bytes :: "bytes \<Rightarrow> string" where
  "string_of_bytes b = map (\<lambda>x. char_of (unat x)) b"

lemma length_bytes_of_string [simp]: "length (bytes_of_string s) = length s"
  by (simp add: bytes_of_string_def)

lemma length_string_of_bytes [simp]: "length (string_of_bytes b) = length b"
  by (simp add: string_of_bytes_def)

lemma char_of_byte_of_char [simp]:
  "char_of (unat (word_of_nat (of_char c) :: byte)) = c"
proof -
  have "(of_char c :: nat) < 256" by simp
  then have "unat (word_of_nat (of_char c) :: byte) = of_char c"
    by (simp add: unat_of_nat)
  then show ?thesis by simp
qed

lemma unat_byte_less [simp]: "unat (b :: byte) < 256"
  using unsigned_less [of b] by simp

lemma unat_byte_mod [simp]: "unat (b :: byte) mod 256 = unat b"
  by (simp add: mod_less)

lemma byte_of_char_of_byte [simp]: "word_of_nat (of_char (char_of (unat b) :: char)) = (b :: byte)"
  by simp

lemma string_of_bytes_of_string [simp]: "string_of_bytes (bytes_of_string s) = s"
  by (simp add: string_of_bytes_def bytes_of_string_def comp_def)

lemma bytes_of_string_of_bytes [simp]: "bytes_of_string (string_of_bytes b) = b"
  by (simp add: string_of_bytes_def bytes_of_string_def comp_def)

text \<open>
  The error values. \<open>EOF\<close> and \<open>UnexpectedEOF\<close> are those of package \<open>io\<close>; \<open>Timeout\<close>,
  \<open>ConnClosed\<close> and \<open>WriteFailed\<close> stand for what a \<open>net.Conn\<close> reports when a deadline passes, after
  \<open>Close\<close>, and when the peer no longer takes data. \<open>Msg\<close> is \<open>errors.New\<close> or \<open>fmt.Errorf\<close> without
  \<open>%w\<close>, \<open>Wrap\<close> is \<open>fmt.Errorf\<close> with one.
\<close>

datatype goerror =
    EOF
  | UnexpectedEOF
  | Timeout
  | ConnClosed
  | WriteFailed
  | RandFailed
  | Msg string
  | Wrap string goerror

section \<open>Decimal numbers: \<open>strconv.Itoa\<close> and \<open>strconv.Atoi\<close>\<close>

definition digit_char :: "nat \<Rightarrow> char" where
  "digit_char d = char_of (48 + d)"

definition char_digit :: "char \<Rightarrow> nat option" where
  "char_digit c = (let n = (of_char c :: nat) in if 48 \<le> n \<and> n \<le> 57 then Some (n - 48) else None)"

fun itoa_nat :: "nat \<Rightarrow> string" where
  "itoa_nat n = (if n < 10 then [digit_char n] else itoa_nat (n div 10) @ [digit_char (n mod 10)])"

declare itoa_nat.simps [simp del]

definition itoa :: "int \<Rightarrow> string" where
  "itoa i = (if i < 0 then CHR ''-'' # itoa_nat (nat (- i)) else itoa_nat (nat i))"

fun digits_value :: "nat \<Rightarrow> string \<Rightarrow> nat option" where
  "digits_value acc [] = Some acc"
| "digits_value acc (c # cs) =
     (case char_digit c of None \<Rightarrow> None | Some d \<Rightarrow> digits_value (10 * acc + d) cs)"

text \<open>
  \<open>strconv.Atoi\<close>: an optional sign, at least one decimal digit, nothing else, and a value that
  fits in 64 bits. \<open>None\<close> is any error (\<open>ErrSyntax\<close>, \<open>ErrRange\<close>): the callers only test for nil.
\<close>

definition atoi :: "string \<Rightarrow> int option" where
  "atoi s =
     (let neg = (case s of [] \<Rightarrow> False | c # _ \<Rightarrow> c = CHR ''-'');
          body = (case s of [] \<Rightarrow> [] | c # cs \<Rightarrow> if c = CHR ''-'' \<or> c = CHR ''+'' then cs else s)
      in if body = [] then None
         else case digits_value 0 body of
                None \<Rightarrow> None
              | Some v \<Rightarrow>
                  (if neg then (if v \<le> 2 ^ 63 then Some (- int v) else None)
                   else if v < 2 ^ 63 then Some (int v) else None))"

lemma char_digit_digit_char [simp]: "d < 10 \<Longrightarrow> char_digit (digit_char d) = Some d"
  by (simp add: char_digit_def digit_char_def Let_def)

lemma digits_value_append:
  "digits_value acc (xs @ ys) =
     (case digits_value acc xs of None \<Rightarrow> None | Some v \<Rightarrow> digits_value v ys)"
  by (induction xs arbitrary: acc) (auto split: option.splits)

lemma itoa_nat_nonempty [simp]: "itoa_nat n \<noteq> []"
  by (subst itoa_nat.simps) simp

lemma digits_value_itoa_nat: "digits_value 0 (itoa_nat n) = Some n"
proof (induction n rule: itoa_nat.induct)
  case (1 n)
  show ?case
  proof (cases "n < 10")
    case True
    then show ?thesis by (simp add: itoa_nat.simps [of n])
  next
    case False
    then have "digits_value 0 (itoa_nat (n div 10)) = Some (n div 10)"
      using "1.IH" by simp
    with False show ?thesis
      by (simp add: itoa_nat.simps [of n] digits_value_append)
  qed
qed

lemma digits_value_chars:
  "digits_value acc s = Some v \<Longrightarrow> c \<in> set s \<Longrightarrow> char_digit c \<noteq> None"
  by (induction s arbitrary: acc) (auto split: option.splits)

lemma itoa_chars: "c \<in> set (itoa i) \<Longrightarrow> c = CHR ''-'' \<or> char_digit c \<noteq> None"
  using digits_value_chars [OF digits_value_itoa_nat] by (auto simp: itoa_def split: if_splits)

lemma newline_itoa: "CHR 0x0A \<notin> set (itoa i)"
  using itoa_chars [of "CHR 0x0A" i] by (auto simp: char_digit_def)

lemma itoa_nonempty [simp]: "itoa i \<noteq> []"
  by (simp add: itoa_def)

lemma char_digit_sign [simp]: "char_digit CHR ''-'' = None" "char_digit CHR ''+'' = None"
  by (simp_all add: char_digit_def)

lemma digit_char_not_sign [simp]:
  assumes "d < 10"
  shows "digit_char d \<noteq> CHR ''-''" "digit_char d \<noteq> CHR ''+''"
proof -
  have "char_digit (digit_char d) \<noteq> None" using assms by simp
  then show "digit_char d \<noteq> CHR ''-''" "digit_char d \<noteq> CHR ''+''" by auto
qed

lemma atoi_itoa [go_simps]:
  assumes "- (2 ^ 63) \<le> i" "i < 2 ^ 63"
  shows "atoi (itoa i) = Some i"
proof (cases "i < 0")
  case True
  with assms show ?thesis
    by (simp add: atoi_def itoa_def digits_value_itoa_nat nat_le_iff)
next
  case False
  obtain c cs where c: "itoa_nat (nat i) = c # cs"
    by (cases "itoa_nat (nat i)") auto
  have "digits_value 0 (c # cs) = Some (nat i)"
    using c digits_value_itoa_nat [of "nat i"] by simp
  then have "char_digit c \<noteq> None" by (auto split: option.splits)
  then have "c \<noteq> CHR ''-''" "c \<noteq> CHR ''+''" by auto
  moreover have "nat i < 2 ^ 63" using False assms by (simp add: nat_less_iff)
  ultimately show ?thesis
    using False c digits_value_itoa_nat [of "nat i"]
    by (simp add: atoi_def itoa_def)
qed

section \<open>Package \<open>strings\<close>\<close>

definition hasPrefix :: "string \<Rightarrow> string \<Rightarrow> bool" where
  "hasPrefix s p \<longleftrightarrow> take (length p) s = p"

definition hasSuffix :: "string \<Rightarrow> string \<Rightarrow> bool" where
  "hasSuffix s p \<longleftrightarrow> length p \<le> length s \<and> drop (length s - length p) s = p"

definition trimPrefix :: "string \<Rightarrow> string \<Rightarrow> string" where
  "trimPrefix s p = (if hasPrefix s p then drop (length p) s else s)"

definition trimSuffix :: "string \<Rightarrow> string \<Rightarrow> string" where
  "trimSuffix s p = (if hasSuffix s p then take (length s - length p) s else s)"

text \<open>\<open>strings.Index\<close> for a one-byte needle; \<open>None\<close> is the result -1.\<close>

fun index_char :: "string \<Rightarrow> char \<Rightarrow> nat option" where
  "index_char [] c = None"
| "index_char (x # xs) c = (if x = c then Some 0 else map_option Suc (index_char xs c))"

text \<open>\<open>strings.Split\<close> for a one-byte separator.\<close>

fun split_char :: "string \<Rightarrow> char \<Rightarrow> string list" where
  "split_char [] c = [[]]"
| "split_char (x # xs) c =
     (if x = c then [] # split_char xs c
      else (case split_char xs c of [] \<Rightarrow> [[x]] | w # ws \<Rightarrow> (x # w) # ws))"

fun join :: "string list \<Rightarrow> string \<Rightarrow> string" where
  "join [] sep = []"
| "join [w] sep = w"
| "join (w # ws) sep = w @ sep @ join ws sep"

text \<open>\<open>strings.TrimSpace\<close> on the ASCII white space characters.\<close>

definition is_space :: "char \<Rightarrow> bool" where
  "is_space c \<longleftrightarrow> (let n = (of_char c :: nat) in n = 32 \<or> (9 \<le> n \<and> n \<le> 13))"

definition trimSpace :: "string \<Rightarrow> string" where
  "trimSpace s = rev (dropWhile is_space (rev (dropWhile is_space s)))"

lemma hasPrefix_append [go_simps]: "hasPrefix (p @ s) p"
  by (simp add: hasPrefix_def)

lemma hasPrefix_iff: "hasPrefix s p \<longleftrightarrow> (\<exists>r. s = p @ r)"
  by (metis append_eq_conv_conj append_take_drop_id hasPrefix_def)

lemma trimPrefix_append [go_simps]: "trimPrefix (p @ s) p = s"
  by (simp add: trimPrefix_def hasPrefix_append)

lemma hasSuffix_append [go_simps]: "hasSuffix (s @ p) p"
  by (simp add: hasSuffix_def)

lemma trimSuffix_append [go_simps]: "trimSuffix (s @ p) p = s"
  by (simp add: trimSuffix_def hasSuffix_append)

lemma index_char_None [go_simps]: "index_char s c = None \<longleftrightarrow> c \<notin> set s"
  by (induction s) auto

lemma index_char_append [go_simps]:
  "c \<notin> set xs \<Longrightarrow> index_char (xs @ c # ys) c = Some (length xs)"
  by (induction xs) auto

lemma index_char_SomeD:
  "index_char s c = Some i \<Longrightarrow>
     i < length s \<and> c \<notin> set (take i s) \<and> s = take i s @ c # drop (Suc i) s"
proof (induction s arbitrary: i)
  case Nil
  then show ?case by simp
next
  case (Cons x xs)
  show ?case
  proof (cases "x = c")
    case True
    with Cons.prems show ?thesis by simp
  next
    case False
    with Cons.prems obtain j where "index_char xs c = Some j" "i = Suc j" by auto
    with Cons.IH [of j] False show ?thesis by simp
  qed
qed

lemma split_char_nonempty [simp]: "split_char s c \<noteq> []"
  by (cases s) (auto split: list.splits)

lemma split_char_none [go_simps]: "c \<notin> set s \<Longrightarrow> split_char s c = [s]"
  by (induction s) auto

lemma split_char_append [go_simps]:
  "c \<notin> set w \<Longrightarrow> split_char (w @ c # s) c = w # split_char s c"
  by (induction w) auto

lemma split_char_pieces: "w \<in> set (split_char s c) \<Longrightarrow> c \<notin> set w"
  by (induction s arbitrary: w) (auto split: if_splits list.splits)

lemma split_char_join [go_simps]:
  "ws \<noteq> [] \<Longrightarrow> \<forall>w\<in>set ws. c \<notin> set w \<Longrightarrow> split_char (join ws [c]) c = ws"
  by (induction ws "[c]" rule: join.induct) (auto simp: split_char_none split_char_append)

lemma dropWhile_none: "\<forall>c\<in>set s. \<not> P c \<Longrightarrow> dropWhile P s = s"
  by (cases s) auto

lemma trimSpace_tight: "s \<noteq> [] \<Longrightarrow> \<not> is_space (hd s) \<Longrightarrow> \<not> is_space (last s) \<Longrightarrow> trimSpace s = s"
proof -
  assume "s \<noteq> []" "\<not> is_space (hd s)" "\<not> is_space (last s)"
  then have "dropWhile is_space s = s" "dropWhile is_space (rev s) = rev s"
    by (simp_all add: dropWhile_eq_self_iff hd_rev)
  then show ?thesis by (simp add: trimSpace_def)
qed

lemma is_space_itoa: "c \<in> set (itoa i) \<Longrightarrow> \<not> is_space c"
  using itoa_chars [of c i] by (auto simp: char_digit_def is_space_def Let_def split: if_splits)

lemma trimSpace_id [go_simps]: "\<forall>c\<in>set s. \<not> is_space c \<Longrightarrow> trimSpace s = s"
  by (simp add: trimSpace_def dropWhile_none)

lemma set_trimSpace: "set (trimSpace s) \<subseteq> set s"
  by (auto simp: trimSpace_def dest!: set_dropWhileD)

lemma trimSpace_idem [simp]: "trimSpace (trimSpace s) = trimSpace s"
proof -
  let ?d = "dropWhile is_space s"
  let ?e = "dropWhile is_space (rev ?d)"
  have e: "?e = [] \<or> \<not> is_space (hd ?e)" using hd_dropWhile [of is_space "rev ?d"] by auto
  have d: "?d = [] \<or> \<not> is_space (hd ?d)" using hd_dropWhile [of is_space s] by auto
  have "dropWhile is_space (rev ?e) = rev ?e"
  proof (cases "?e = []")
    case False
    have "rev ?d = takeWhile is_space (rev ?d) @ ?e" by simp
    then have "?d = rev ?e @ rev (takeWhile is_space (rev ?d))"
      by (metis rev_append rev_rev_ident)
    with False have "hd ?d = hd (rev ?e)" by (metis hd_append rev_is_Nil_conv)
    moreover have "?d \<noteq> []"
    proof
      assume "?d = []"
      then have "?e = []" by (simp only: rev.simps dropWhile.simps)
      with False show False by simp
    qed
    ultimately show ?thesis using d by (metis dropWhile_eq_self_iff)
  next
    case True
    then show ?thesis by (simp only: rev.simps dropWhile.simps)
  qed
  moreover have "dropWhile is_space ?e = ?e" using e by (auto simp: dropWhile_eq_self_iff)
  ultimately show ?thesis by (simp add: trimSpace_def)
qed

section \<open>64-bit integers and durations\<close>

text \<open>
  Go's \<open>int\<close> and \<open>time.Duration\<close> are 64-bit two's complement numbers. The model uses \<open>int\<close> and writes
  \<open>wrap64\<close> where the code computes a value that can leave the range; \<open>/\<close> and \<open>%\<close> truncate towards 0.
\<close>

definition wrap64 :: "int \<Rightarrow> int" where
  "wrap64 i = (i + 2 ^ 63) mod 2 ^ 64 - 2 ^ 63"

definition go_quot :: "int \<Rightarrow> int \<Rightarrow> int" where
  "go_quot a b = sgn a * sgn b * (\<bar>a\<bar> div \<bar>b\<bar>)"

definition go_rem :: "int \<Rightarrow> int \<Rightarrow> int" where
  "go_rem a b = sgn a * (\<bar>a\<bar> mod \<bar>b\<bar>)"

lemma wrap64_id [go_simps]: "- (2 ^ 63) \<le> i \<Longrightarrow> i < 2 ^ 63 \<Longrightarrow> wrap64 i = i"
  by (simp add: wrap64_def)

lemma wrap64_range: "- (2 ^ 63) \<le> wrap64 i \<and> wrap64 i < 2 ^ 63"
  using pos_mod_bound [of "2 ^ 64" "i + 2 ^ 63"] pos_mod_sign [of "2 ^ 64" "i + 2 ^ 63"]
  by (simp add: wrap64_def)

lemma go_quot_nonneg [go_simps]: "0 \<le> a \<Longrightarrow> 0 < b \<Longrightarrow> go_quot a b = a div b"
  by (cases "a = 0") (simp_all add: go_quot_def)

lemma go_rem_nonneg [go_simps]: "0 \<le> a \<Longrightarrow> 0 < b \<Longrightarrow> go_rem a b = a mod b"
  by (cases "a = 0") (simp_all add: go_rem_def)

abbreviation millisecond :: int where "millisecond \<equiv> 1000000"
abbreviation second :: int where "second \<equiv> 1000000000"
abbreviation minute :: int where "minute \<equiv> 60000000000"

section \<open>Buffered channels\<close>

record 'a chan =
  buf :: "'a list"
  ccap :: nat
  cclosed :: bool

definition make_chan :: "nat \<Rightarrow> 'a chan" where
  "make_chan n = \<lparr>buf = [], ccap = n, cclosed = False\<rparr>"

text \<open>
  The three outcomes of \<open>select { case ch <- x: default: }\<close>: a send on a closed channel panics, even
  when there is a default branch.
\<close>

datatype 'a send_result = Sent "'a chan" | WouldBlock | SendPanics

definition try_send :: "'a chan \<Rightarrow> 'a \<Rightarrow> 'a send_result" where
  "try_send ch x =
     (if cclosed ch then SendPanics
      else if length (buf ch) < ccap ch then Sent (ch\<lparr>buf := buf ch @ [x]\<rparr>)
      else WouldBlock)"

definition try_recv :: "'a chan \<Rightarrow> ('a \<times> 'a chan) option" where
  "try_recv ch = (case buf ch of [] \<Rightarrow> None | x # xs \<Rightarrow> Some (x, ch\<lparr>buf := xs\<rparr>))"

definition chan_ok :: "'a chan \<Rightarrow> bool" where
  "chan_ok ch \<longleftrightarrow> length (buf ch) \<le> ccap ch"

lemma chan_ok_make [simp]: "chan_ok (make_chan n)"
  by (simp add: chan_ok_def make_chan_def)

lemma chan_ok_send: "chan_ok ch \<Longrightarrow> try_send ch x = Sent ch' \<Longrightarrow> chan_ok ch'"
  by (auto simp: chan_ok_def try_send_def split: if_splits)

lemma chan_ok_recv: "chan_ok ch \<Longrightarrow> try_recv ch = Some (x, ch') \<Longrightarrow> chan_ok ch'"
  by (auto simp: chan_ok_def try_recv_def split: list.splits)

end
