(* ===== verification/Conn.thy ===== *)
theory Conn
  imports Go_Prelude
begin

text \<open>
  The part of \<open>net.Conn\<close> and package \<open>io\<close> that the source uses. A connection is one end of a
  byte stream: the bytes that will still arrive and the error that follows them, the bytes the
  other side has taken, and how many more it will take before a write fails. So every
  \<open>if err != nil\<close> of the source has inputs that take it. Deadlines are recorded, relative to the
  moment they are set; that a peer stays silent until one passes is a stream that ends in
  \<open>Timeout\<close>.

  The locale \<open>frame_codec\<close> is the contract of a message format over such a stream; the
  modules that put messages on a connection interpret it.
\<close>

section \<open>A connection end\<close>

record conn =
  rd :: bytes
  rend :: goerror
  wr :: bytes
  wcap :: "nat option"
  rdl :: "int option"
  wdl :: "int option"
  isclosed :: bool

definition fresh_conn :: "bytes \<Rightarrow> conn" where
  "fresh_conn input = \<lparr>rd = input, rend = EOF, wr = [], wcap = None, rdl = None, wdl = None, isclosed = False\<rparr>"

definition conn_close :: "conn \<Rightarrow> conn" where
  "conn_close c = c\<lparr>isclosed := True\<rparr>"

definition setDeadline :: "int option \<Rightarrow> conn \<Rightarrow> conn" where
  "setDeadline d c = c\<lparr>rdl := d, wdl := d\<rparr>"

definition setReadDeadline :: "int option \<Rightarrow> conn \<Rightarrow> conn" where
  "setReadDeadline d c = c\<lparr>rdl := d\<rparr>"

definition setWriteDeadline :: "int option \<Rightarrow> conn \<Rightarrow> conn" where
  "setWriteDeadline d c = c\<lparr>wdl := d\<rparr>"

text \<open>\<open>io.ReadFull\<close> into a buffer of \<open>n\<close> bytes: an empty buffer is full without a read.\<close>

definition readFull :: "nat \<Rightarrow> conn \<Rightarrow> conn \<times> (goerror + bytes)" where
  "readFull n c =
     (if n = 0 then (c, Inr [])
      else if isclosed c then (c, Inl ConnClosed)
      else if n \<le> length (rd c) then (c\<lparr>rd := drop n (rd c)\<rparr>, Inr (take n (rd c)))
      else (c\<lparr>rd := []\<rparr>, Inl (if rend c = EOF \<and> rd c \<noteq> [] then UnexpectedEOF else rend c)))"

text \<open>\<open>conn.Write\<close>: all of \<open>bs\<close>, or the part the peer still takes and an error.\<close>

definition conn_write :: "bytes \<Rightarrow> conn \<Rightarrow> conn \<times> goerror option" where
  "conn_write bs c =
     (if isclosed c then (c, Some ConnClosed)
      else case wcap c of
        None \<Rightarrow> (c\<lparr>wr := wr c @ bs\<rparr>, None)
      | Some k \<Rightarrow>
          if length bs \<le> k then (c\<lparr>wr := wr c @ bs, wcap := Some (k - length bs)\<rparr>, None)
          else (c\<lparr>wr := wr c @ take k bs, wcap := Some 0\<rparr>, Some WriteFailed))"

text \<open>A connection on which writes succeed, and one that has been neither closed nor cut short.\<close>

definition writable :: "conn \<Rightarrow> bool" where
  "writable c \<longleftrightarrow> \<not> isclosed c \<and> wcap c = None"

lemma readFull_0 [simp]: "readFull 0 c = (c, Inr [])"
  by (simp add: readFull_def)

lemma readFull_append [go_simps]:
  "\<not> isclosed c \<Longrightarrow> rd c = bs @ rest \<Longrightarrow> length bs = n \<Longrightarrow>
     readFull n c = (c\<lparr>rd := rest\<rparr>, Inr bs)"
  by (auto simp: readFull_def)

lemma readFull_InrD:
  "readFull n c = (c', Inr bs) \<Longrightarrow>
     length bs = n \<and> rd c = bs @ rd c' \<and> wr c' = wr c"
  by (auto simp: readFull_def split: if_splits)

lemma readFull_frame:
  "readFull n c = (c', r) \<Longrightarrow>
     wr c' = wr c \<and> rdl c' = rdl c \<and> wdl c' = wdl c \<and> isclosed c' = isclosed c \<and>
     wcap c' = wcap c \<and> rend c' = rend c"
  by (auto simp: readFull_def split: if_splits)

lemma conn_write_frame:
  "conn_write bs c = (c', e) \<Longrightarrow>
     rd c' = rd c \<and> rdl c' = rdl c \<and> wdl c' = wdl c \<and> isclosed c' = isclosed c \<and>
     rend c' = rend c \<and> (\<exists>k. wr c' = wr c @ take k bs)"
  by (cases "wcap c") (auto simp: conn_write_def split: if_splits intro: exI [of _ "length bs"] exI [of _ 0])

lemma conn_write_NoneD:
  "conn_write bs c = (c', None) \<Longrightarrow> wr c' = wr c @ bs \<and> rd c' = rd c"
  by (auto simp: conn_write_def split: if_splits option.splits)

lemma conn_write_writable [go_simps]:
  "writable c \<Longrightarrow> conn_write bs c = (c\<lparr>wr := wr c @ bs\<rparr>, None)"
  by (simp add: conn_write_def writable_def)

lemma writable_frame [go_simps]:
  "writable (c\<lparr>wr := w\<rparr>) = writable c" "writable (c\<lparr>rd := r\<rparr>) = writable c"
  "writable (c\<lparr>rdl := d\<rparr>) = writable c" "writable (c\<lparr>wdl := d\<rparr>) = writable c"
  by (simp_all add: writable_def)

lemma writable_open [go_simps]: "writable c \<Longrightarrow> \<not> isclosed c"
  by (simp add: writable_def)

lemma deadline_fields [simp]:
  "rd (setDeadline d c) = rd c" "wr (setDeadline d c) = wr c"
  "isclosed (setDeadline d c) = isclosed c" "wcap (setDeadline d c) = wcap c"
  "rend (setDeadline d c) = rend c"
  "rdl (setDeadline d c) = d" "wdl (setDeadline d c) = d"
  "writable (setDeadline d c) = writable c"
  by (simp_all add: setDeadline_def writable_def)

lemma fresh_conn_fields [simp]:
  "rd (fresh_conn i) = i" "wr (fresh_conn i) = []" "isclosed (fresh_conn i) = False"
  "wcap (fresh_conn i) = None" "writable (fresh_conn i)"
  "rdl (fresh_conn i) = None" "wdl (fresh_conn i) = None"
  by (simp_all add: fresh_conn_def writable_def)

section \<open>Message formats over a connection\<close>

text \<open>
  A codec sends a value with \<open>put\<close> and receives one with \<open>get\<close>; \<open>ok\<close> are the values it can carry
  and \<open>enc\<close> is what they look like on the wire.
\<close>

locale frame_codec =
  fixes put :: "'a \<Rightarrow> conn \<Rightarrow> conn \<times> goerror option"
    and get :: "conn \<Rightarrow> conn \<times> (goerror + 'a)"
    and ok :: "'a \<Rightarrow> bool"
    and enc :: "'a \<Rightarrow> bytes"
  assumes put_ok: "ok x \<Longrightarrow> writable c \<Longrightarrow> put x c = (c\<lparr>wr := wr c @ enc x\<rparr>, None)"
    and get_enc: "ok x \<Longrightarrow> \<not> isclosed c \<Longrightarrow> rd c = enc x @ rest \<Longrightarrow>
      get c = (c\<lparr>rd := rest\<rparr>, Inr x)"

text \<open>Sending a list of messages, and receiving a given number of them.\<close>

fun put_all :: "('a \<Rightarrow> conn \<Rightarrow> conn \<times> goerror option) \<Rightarrow> 'a list \<Rightarrow> conn \<Rightarrow> conn \<times> goerror option" where
  "put_all p [] c = (c, None)"
| "put_all p (x # xs) c = (case p x c of (c', None) \<Rightarrow> put_all p xs c' | (c', Some e) \<Rightarrow> (c', Some e))"

fun get_n :: "(conn \<Rightarrow> conn \<times> (goerror + 'a)) \<Rightarrow> nat \<Rightarrow> conn \<Rightarrow> conn \<times> (goerror + 'a list)" where
  "get_n g 0 c = (c, Inr [])"
| "get_n g (Suc n) c =
     (case g c of
        (c', Inl e) \<Rightarrow> (c', Inl e)
      | (c', Inr x) \<Rightarrow>
          (case get_n g n c' of (c'', Inl e) \<Rightarrow> (c'', Inl e) | (c'', Inr xs) \<Rightarrow> (c'', Inr (x # xs))))"

context frame_codec
begin

lemma put_all_enc:
  "list_all ok xs \<Longrightarrow> writable c \<Longrightarrow>
     put_all put xs c = (c\<lparr>wr := wr c @ concat (map enc xs)\<rparr>, None)"
  by (induction xs arbitrary: c) (auto simp: put_ok writable_frame)

lemma get_n_enc:
  "list_all ok xs \<Longrightarrow> \<not> isclosed c \<Longrightarrow> rd c = concat (map enc xs) @ rest \<Longrightarrow>
     get_n get (length xs) c = (c\<lparr>rd := rest\<rparr>, Inr xs)"
proof (induction xs arbitrary: c)
  case Nil
  then show ?case by simp
next
  case (Cons x xs)
  then have "get c = (c\<lparr>rd := concat (map enc xs) @ rest\<rparr>, Inr x)"
    by (intro get_enc) simp_all
  with Cons show ?case by simp
qed

text \<open>
  The frames one end puts on the wire are the frames the other end gets, one for one, and the
  bytes after them are left alone.
\<close>

lemma boundaries_preserved:
  assumes "list_all ok xs" "writable c" "wr c = []" "put_all put xs c = (c', e)"
    and "\<not> isclosed d" "rd d = wr c' @ rest"
  shows "e = None \<and> get_n get (length xs) d = (d\<lparr>rd := rest\<rparr>, Inr xs)"
  using assms get_n_enc [of xs d rest] put_all_enc [of xs c] by auto

end

end
