(* ===== verification/Wire.thy ===== *)
theory Wire
  imports Conn "HOL-Library.Sublist"
begin

text \<open>
  \<open>protocol.go\<close>: the wire constants, the framing helpers, and the two sides of the handshake.
  HMAC-SHA256 is the argument \<open>mac\<close> (key, message); a random draw is an argument that is \<open>None\<close> when
  the system's generator fails. The functions take the connection they work on and return it, in
  the order and with the early returns of the code.
\<close>

section \<open>Constants\<close>

definition magic :: bytes where
  "magic = bytes_of_string ''RMT1''"

definition roleControl :: byte where "roleControl = 1"
definition rolePool :: byte where "rolePool = 2"

definition ackOK :: byte where "ackOK = 1"
definition ackBusy :: byte where "ackBusy = 2"
definition ackBadAuth :: byte where "ackBadAuth = 3"

definition sigHeartbeat :: byte where "sigHeartbeat = 0x10"
definition sigNeedConn :: byte where "sigNeedConn = 0x11"
definition sigClose :: byte where "sigClose = 0x12"
definition sigPong :: byte where "sigPong = 0x13"

definition handshakeTimeout :: int where "handshakeTimeout = 10 * second"
definition maxTargetLen :: nat where "maxTargetLen = 512"

lemmas wire_consts =
  roleControl_def rolePool_def ackOK_def ackBusy_def ackBadAuth_def
  sigHeartbeat_def sigNeedConn_def sigClose_def sigPong_def

lemma length_magic [simp]: "length magic = 4"
  by (simp add: magic_def)

section \<open>Framing helpers\<close>

definition putUint16 :: "16 word \<Rightarrow> bytes" where
  "putUint16 v = [ucast (drop_bit 8 v), ucast v]"

definition getUint16 :: "bytes \<Rightarrow> 16 word" where
  "getUint16 b = (case b of [hi, lo] \<Rightarrow> or (push_bit 8 (ucast hi)) (ucast lo) | _ \<Rightarrow> 0)"

definition writeString :: "string \<Rightarrow> conn \<Rightarrow> conn \<times> goerror option" where
  "writeString s c =
     (if length s > maxTargetLen
      then (c, Some (Msg (''string too long: '' @ itoa (int (length s)) @ '' bytes'')))
      else case conn_write (putUint16 (word_of_nat (length s))) c of
        (c1, Some e) \<Rightarrow> (c1, Some e)
      | (c1, None) \<Rightarrow> conn_write (bytes_of_string s) c1)"

definition readString :: "conn \<Rightarrow> conn \<times> (goerror + string)" where
  "readString c =
     (case readFull 2 c of
        (c1, Inl e) \<Rightarrow> (c1, Inl e)
      | (c1, Inr hdr) \<Rightarrow>
          (let n = getUint16 hdr in
           if unat n > maxTargetLen
           then (c1, Inl (Msg (''string too long: '' @ itoa (uint n) @ '' bytes'')))
           else case readFull (unat n) c1 of
             (c2, Inl e) \<Rightarrow> (c2, Inl e)
           | (c2, Inr b) \<Rightarrow> (c2, Inr (string_of_bytes b))))"

definition writeDatagram :: "bytes \<Rightarrow> conn \<Rightarrow> conn \<times> goerror option" where
  "writeDatagram p c =
     (if length p > 65535
      then (c, Some (Msg (''datagram too large: '' @ itoa (int (length p)) @ '' bytes'')))
      else case conn_write (putUint16 (word_of_nat (length p))) c of
        (c1, Some e) \<Rightarrow> (c1, Some e)
      | (c1, None) \<Rightarrow> conn_write p c1)"

text \<open>\<open>buflen\<close> is the length of the caller's buffer; the result is the part of it that was filled.\<close>

definition readDatagram :: "nat \<Rightarrow> conn \<Rightarrow> conn \<times> (goerror + bytes)" where
  "readDatagram buflen c =
     (case readFull 2 c of
        (c1, Inl e) \<Rightarrow> (c1, Inl e)
      | (c1, Inr hdr) \<Rightarrow>
          (let n = unat (getUint16 hdr) in
           if n > buflen
           then (c1, Inl (Msg (''datagram too large for buffer: '' @ itoa (int n) @ '' bytes'')))
           else readFull n c1))"

definition readByte :: "conn \<Rightarrow> conn \<times> (goerror + byte)" where
  "readByte c =
     (case readFull 1 c of
        (c1, Inl e) \<Rightarrow> (c1, Inl e)
      | (c1, Inr b) \<Rightarrow> (c1, Inr (hd b)))"

definition writeByte :: "byte \<Rightarrow> conn \<Rightarrow> conn \<times> goerror option" where
  "writeByte b c = conn_write [b] c"

section \<open>Authentication\<close>

type_synonym mac = "bytes \<Rightarrow> bytes \<Rightarrow> bytes"

definition hmacTag :: "mac \<Rightarrow> string \<Rightarrow> bytes \<Rightarrow> bytes" where
  "hmacTag mac token challenge = mac (bytes_of_string token) challenge"

text \<open>\<open>crypto/subtle.ConstantTimeCompare\<close>: 1 when the slices have equal length and contents.\<close>

definition constantTimeCompare :: "bytes \<Rightarrow> bytes \<Rightarrow> int" where
  "constantTimeCompare x y = (if x = y then 1 else 0)"

text \<open>\<open>rnd\<close> is what the system's generator delivers; \<open>None\<close> is its error.\<close>

definition randomBytes :: "bytes option \<Rightarrow> goerror + bytes" where
  "randomBytes rnd = (case rnd of None \<Rightarrow> Inl RandFailed | Some b \<Rightarrow> Inr b)"

record admitted =
  arole :: byte
  aepoch :: "bytes option"

section \<open>The server side of the handshake\<close>

definition serverHandshake_body ::
    "mac \<Rightarrow> bytes option \<Rightarrow> string \<Rightarrow> bytes option \<Rightarrow> conn \<Rightarrow> conn \<times> (goerror + admitted)" where
  "serverHandshake_body mac rnd token currentEpoch c =
     (case readFull 5 c of
        (c1, Inl e) \<Rightarrow> (c1, Inl (Wrap ''read header'' e))
      | (c1, Inr hdr) \<Rightarrow>
          if take 4 hdr \<noteq> magic then (c1, Inl (Msg ''bad magic''))
          else (let role = hdr ! 4 in
            if role \<noteq> roleControl \<and> role \<noteq> rolePool
            then (c1, Inl (Msg (''unknown role '' @ itoa (uint role))))
            else case randomBytes rnd of
              Inl e \<Rightarrow> (c1, Inl e)
            | Inr challenge \<Rightarrow>
                (case conn_write challenge c1 of
                   (c2, Some e) \<Rightarrow> (c2, Inl e)
                 | (c2, None) \<Rightarrow>
                     (case readFull 32 c2 of
                        (c3, Inl e) \<Rightarrow> (c3, Inl (Wrap ''read auth tag'' e))
                      | (c3, Inr tag) \<Rightarrow>
                          if constantTimeCompare tag (hmacTag mac token challenge) \<noteq> 1
                          then (fst (writeByte ackBadAuth c3), Inl (Msg ''auth failed''))
                          else if role = rolePool then
                            (case readFull 8 c3 of
                               (c4, Inl e) \<Rightarrow> (c4, Inl (Wrap ''read epoch'' e))
                             | (c4, Inr epoch) \<Rightarrow>
                                 if (case currentEpoch of None \<Rightarrow> True
                                     | Some want \<Rightarrow> constantTimeCompare epoch want \<noteq> 1)
                                 then (fst (writeByte ackBadAuth c4),
                                       Inl (Msg ''stale or foreign pool epoch''))
                                 else (c4, Inr \<lparr>arole = role, aepoch = Some epoch\<rparr>))
                          else (c3, Inr \<lparr>arole = role, aepoch = None\<rparr>)))))"

text \<open>The deadline is set before the exchange and cleared by a \<open>defer\<close>, on every path.\<close>

definition serverHandshake ::
    "mac \<Rightarrow> bytes option \<Rightarrow> string \<Rightarrow> bytes option \<Rightarrow> conn \<Rightarrow> conn \<times> (goerror + admitted)" where
  "serverHandshake mac rnd token currentEpoch c =
     (case serverHandshake_body mac rnd token currentEpoch (setDeadline (Some handshakeTimeout) c) of
        (c', r) \<Rightarrow> (setDeadline None c', r))"

section \<open>The client side of the handshake\<close>

definition writeHeader :: "byte \<Rightarrow> conn \<Rightarrow> conn \<times> goerror option" where
  "writeHeader role c = conn_write (take 4 magic @ [role]) c"

definition clientHandshakeControl_body ::
    "mac \<Rightarrow> string \<Rightarrow> conn \<Rightarrow> conn \<times> (goerror + bytes)" where
  "clientHandshakeControl_body mac token c =
     (case writeHeader roleControl c of
        (c1, Some e) \<Rightarrow> (c1, Inl e)
      | (c1, None) \<Rightarrow>
          (case readFull 16 c1 of
             (c2, Inl e) \<Rightarrow> (c2, Inl (Wrap ''read challenge'' e))
           | (c2, Inr challenge) \<Rightarrow>
               (case conn_write (hmacTag mac token challenge) c2 of
                  (c3, Some e) \<Rightarrow> (c3, Inl e)
                | (c3, None) \<Rightarrow>
                    (case readByte c3 of
                       (c4, Inl e) \<Rightarrow> (c4, Inl (Wrap ''read ack'' e))
                     | (c4, Inr ack) \<Rightarrow>
                         if ack = ackOK then
                           (case readFull 8 c4 of
                              (c5, Inl e) \<Rightarrow> (c5, Inl (Wrap ''read epoch'' e))
                            | (c5, Inr epoch) \<Rightarrow> (c5, Inr epoch))
                         else if ack = ackBusy then
                           (c4, Inl (Msg ''server already has an active control channel''))
                         else if ack = ackBadAuth then
                           (c4, Inl (Msg ''token rejected by server''))
                         else (c4, Inl (Msg (''unexpected ack '' @ itoa (uint ack))))))))"

definition clientHandshakeControl ::
    "mac \<Rightarrow> string \<Rightarrow> conn \<Rightarrow> conn \<times> (goerror + bytes)" where
  "clientHandshakeControl mac token c =
     (case clientHandshakeControl_body mac token (setDeadline (Some handshakeTimeout) c) of
        (c', r) \<Rightarrow> (setDeadline None c', r))"

definition clientHandshakePool_body ::
    "mac \<Rightarrow> string \<Rightarrow> bytes \<Rightarrow> conn \<Rightarrow> conn \<times> goerror option" where
  "clientHandshakePool_body mac token epoch c =
     (case writeHeader rolePool c of
        (c1, Some e) \<Rightarrow> (c1, Some e)
      | (c1, None) \<Rightarrow>
          (case readFull 16 c1 of
             (c2, Inl e) \<Rightarrow> (c2, Some (Wrap ''read challenge'' e))
           | (c2, Inr challenge) \<Rightarrow>
               (case conn_write (hmacTag mac token challenge) c2 of
                  (c3, Some e) \<Rightarrow> (c3, Some e)
                | (c3, None) \<Rightarrow>
                    (case conn_write epoch c3 of
                       (c4, Some e) \<Rightarrow> (c4, Some e)
                     | (c4, None) \<Rightarrow>
                         (case readByte c4 of
                            (c5, Inl e) \<Rightarrow> (c5, Some (Wrap ''read ack'' e))
                          | (c5, Inr ack) \<Rightarrow>
                              if ack \<noteq> ackOK
                              then (c5, Some (Msg (''pool connection refused (code '' @ itoa (uint ack) @ '')'')))
                              else (c5, None))))))"

definition clientHandshakePool ::
    "mac \<Rightarrow> string \<Rightarrow> bytes \<Rightarrow> conn \<Rightarrow> conn \<times> goerror option" where
  "clientHandshakePool mac token epoch c =
     (case clientHandshakePool_body mac token epoch (setDeadline (Some handshakeTimeout) c) of
        (c', r) \<Rightarrow> (setDeadline None c', r))"

section \<open>The server's acknowledgements\<close>

definition serverAckControl :: "bytes \<Rightarrow> conn \<Rightarrow> conn \<times> goerror option" where
  "serverAckControl epoch c =
     (case writeByte ackOK c of
        (c1, Some e) \<Rightarrow> (c1, Some e)
      | (c1, None) \<Rightarrow> conn_write epoch c1)"

definition serverRefuse :: "byte \<Rightarrow> conn \<Rightarrow> conn" where
  "serverRefuse code c = fst (writeByte code (setWriteDeadline (Some (2 * second)) c))"

definition serverAckPool :: "conn \<Rightarrow> conn \<times> goerror option" where
  "serverAckPool c = writeByte ackOK c"

section \<open>Framing: round trips\<close>

lemma getUint16_putUint16 [simp]: "getUint16 (putUint16 v) = v"
  by (simp add: getUint16_def putUint16_def) (rule bit_word_eqI, auto simp: bit_simps)

lemma length_putUint16 [simp]: "length (putUint16 v) = 2"
  by (simp add: putUint16_def)

lemma unat_uint16 [simp]: "n \<le> 65535 \<Longrightarrow> unat (word_of_nat n :: 16 word) = n"
  by (simp add: unat_of_nat)

definition prefixed :: "bytes \<Rightarrow> bytes" where
  "prefixed p = putUint16 (word_of_nat (length p)) @ p"

lemma writeString_ok:
  "length s \<le> maxTargetLen \<Longrightarrow> writable c \<Longrightarrow>
     writeString s c = (c\<lparr>wr := wr c @ prefixed (bytes_of_string s)\<rparr>, None)"
  by (simp add: writeString_def prefixed_def go_simps)

lemma writeDatagram_ok:
  "length p \<le> 65535 \<Longrightarrow> writable c \<Longrightarrow> writeDatagram p c = (c\<lparr>wr := wr c @ prefixed p\<rparr>, None)"
  by (simp add: writeDatagram_def prefixed_def go_simps)

lemma readString_ok:
  assumes "length s \<le> maxTargetLen" "\<not> isclosed c" "rd c = prefixed (bytes_of_string s) @ rest"
  shows "readString c = (c\<lparr>rd := rest\<rparr>, Inr s)"
proof -
  have n: "unat (word_of_nat (length s) :: 16 word) = length s"
    using assms(1) by (simp add: maxTargetLen_def)
  from assms show ?thesis
    by (simp add: readString_def prefixed_def n readFull_append Let_def)
qed

lemma readDatagram_ok:
  assumes "length p \<le> buflen" "length p \<le> 65535" "\<not> isclosed c" "rd c = prefixed p @ rest"
  shows "readDatagram buflen c = (c\<lparr>rd := rest\<rparr>, Inr p)"
  using assms by (simp add: readDatagram_def prefixed_def readFull_append Let_def)

interpretation target_codec: frame_codec writeString readString
    "\<lambda>s. length s \<le> maxTargetLen" "\<lambda>s. prefixed (bytes_of_string s)"
  by unfold_locales (simp_all add: writeString_ok readString_ok)

text \<open>65507 is \<open>maxUDPDatagram\<close>, the size of the buffer every caller of \<open>readDatagram\<close> passes.\<close>

interpretation datagram_codec: frame_codec writeDatagram "readDatagram 65507"
    "\<lambda>p. length p \<le> 65507" prefixed
  by unfold_locales (simp_all add: writeDatagram_ok readDatagram_ok)

text \<open>
  Property C7. Targets announced with \<open>writeString\<close> one after another on a connection are read
  back by \<open>readString\<close> one for one, and not a byte of what follows is consumed.
\<close>
theorem target_framing:
  assumes "list_all (\<lambda>s. length s \<le> maxTargetLen) ts" "writable c" "wr c = []"
    and "put_all writeString ts c = (c', e)" "\<not> isclosed d" "rd d = wr c' @ rest"
  shows "e = None \<and> get_n readString (length ts) d = (d\<lparr>rd := rest\<rparr>, Inr ts)"
  by (rule target_codec.boundaries_preserved [OF assms])

theorem target_framing_witness:
  "snd (get_n readString 2 (fresh_conn (wr (fst (put_all writeString [''127.0.0.1:80'', ''udp:h:53''] (fresh_conn [])))))) =
     Inr [''127.0.0.1:80'', ''udp:h:53'']"
  using target_framing [of "[''127.0.0.1:80'', ''udp:h:53'']" "fresh_conn []"
      "fst (put_all writeString [''127.0.0.1:80'', ''udp:h:53''] (fresh_conn []))"
      "snd (put_all writeString [''127.0.0.1:80'', ''udp:h:53''] (fresh_conn []))"
      "fresh_conn (wr (fst (put_all writeString [''127.0.0.1:80'', ''udp:h:53''] (fresh_conn []))))" "[]"]
  by (simp add: maxTargetLen_def numeral_2_eq_2)

text \<open>
  Datagrams relayed over a byte stream keep their boundaries: any sequence of
  packets of at most 65507 bytes, empty ones included, is received as the same sequence.
\<close>
theorem datagram_framing:
  assumes "list_all (\<lambda>p. length p \<le> 65507) ps" "writable c" "wr c = []"
    and "put_all writeDatagram ps c = (c', e)" "\<not> isclosed d" "rd d = wr c' @ rest"
  shows "e = None \<and> get_n (readDatagram 65507) (length ps) d = (d\<lparr>rd := rest\<rparr>, Inr ps)"
  by (rule datagram_codec.boundaries_preserved [OF assms])

theorem datagram_framing_witness:
  "snd (get_n (readDatagram 65507) 3 (fresh_conn (wr (fst (put_all writeDatagram [[1, 2], [], [3]] (fresh_conn [])))))) =
     Inr [[1, 2], [], [3]]"
  using datagram_framing [of "[[1, 2], [], [3]]" "fresh_conn []"
      "fst (put_all writeDatagram [[1, 2], [], [3]] (fresh_conn []))"
      "snd (put_all writeDatagram [[1, 2], [], [3]] (fresh_conn []))"
      "fresh_conn (wr (fst (put_all writeDatagram [[1, 2], [], [3]] (fresh_conn []))))" "[]"]
  by (simp add: numeral_3_eq_3)

section \<open>The handshake\<close>

lemma header_split:
  assumes "length hdr = 5"
  shows "hdr = take 4 hdr @ [hdr ! 4]"
proof -
  have "hdr ! 4 # drop (Suc 4) hdr = drop 4 hdr"
    using assms by (intro Cons_nth_drop_Suc) simp
  with assms have "drop 4 hdr = [hdr ! 4]" by simp
  then show ?thesis by (metis append_take_drop_id)
qed

lemma roles_distinct [simp]: "roleControl \<noteq> rolePool" "rolePool \<noteq> roleControl"
  by (simp_all add: roleControl_def rolePool_def)

lemma constantTimeCompare_1 [simp]: "constantTimeCompare x y = 1 \<longleftrightarrow> x = y"
  by (simp add: constantTimeCompare_def)

lemma writeByte_ok [go_simps]: "writable c \<Longrightarrow> writeByte b c = (c\<lparr>wr := wr c @ [b]\<rparr>, None)"
  by (simp add: writeByte_def go_simps)

lemma readByte_ok [go_simps]:
  "\<not> isclosed c \<Longrightarrow> rd c = b # rest \<Longrightarrow> readByte c = (c\<lparr>rd := rest\<rparr>, Inr b)"
  using readFull_append [of c "[b]" rest 1] by (simp add: readByte_def)

lemma serverHandshake_body_admits:
  assumes "serverHandshake_body mac rnd token cur c = (c', Inr adm)"
  shows "\<exists>challenge. rnd = Some challenge \<and> (arole adm = roleControl \<or> arole adm = rolePool) \<and>
    wr c' = wr c @ challenge \<and>
    rd c = magic @ [arole adm] @ hmacTag mac token challenge @
             (case aepoch adm of None \<Rightarrow> [] | Some e \<Rightarrow> e) @ rd c' \<and>
    (arole adm = rolePool \<longrightarrow> aepoch adm \<noteq> None \<and> aepoch adm = cur) \<and>
    (arole adm = roleControl \<longrightarrow> aepoch adm = None)"
  using assms
  by (auto simp: serverHandshake_body_def Let_def randomBytes_def
      split: prod.splits sum.splits if_splits option.splits
      dest!: readFull_InrD conn_write_NoneD dest: header_split)

text \<open>What a refused peer gets to see: at most the challenge and one byte.\<close>

lemma conn_write_prefix: "conn_write bs c = (c', e) \<Longrightarrow> prefix (wr c') (wr c @ bs)"
  using conn_write_frame [of bs c c' e] by (auto simp: take_is_prefix)

lemma writeByte_prefix: "prefix (wr (fst (writeByte b c))) (wr c @ [b])"
  using conn_write_prefix [of "[b]" c] by (cases "writeByte b c") (auto simp: writeByte_def)

lemma serverHandshake_body_refusal:
  assumes "serverHandshake_body mac rnd token cur c = (c', Inl e)"
  shows "prefix (wr c') (wr c @ (case rnd of None \<Rightarrow> [] | Some ch \<Rightarrow> ch @ [ackBadAuth]))"
proof -
  obtain c1 r1 where h: "readFull 5 c = (c1, r1)" by force
  then have w1: "wr c1 = wr c" by (auto dest: readFull_frame)
  show ?thesis
  proof (cases "\<exists>hdr ch. r1 = Inr hdr \<and> take 4 hdr = magic \<and>
      (hdr ! 4 = roleControl \<or> hdr ! 4 = rolePool) \<and> rnd = Some ch")
    case False
    with assms h w1 show ?thesis
      by (auto simp: serverHandshake_body_def Let_def randomBytes_def
          split: sum.splits if_splits option.splits)
  next
    case True
    then obtain hdr ch where hdr: "r1 = Inr hdr" "take 4 hdr = magic"
        "hdr ! 4 = roleControl \<or> hdr ! 4 = rolePool" and ch: "rnd = Some ch" by auto
    obtain c2 e2 where w: "conn_write ch c1 = (c2, e2)" by force
    show ?thesis
    proof (cases e2)
      case (Some e')
      with assms h hdr ch w have "c' = c2"
        by (auto simp: serverHandshake_body_def Let_def randomBytes_def)
      then have "prefix (wr c') (wr c @ ch)" using conn_write_prefix [OF w] w1 by simp
      then show ?thesis using ch by (metis append_assoc option.case(2) prefix_prefix)
    next
      case None
      then have w2: "wr c2 = wr c @ ch" using w w1 by (auto dest: conn_write_NoneD)
      obtain c3 r3 where t: "readFull 32 c2 = (c3, r3)" by force
      then have w3: "wr c3 = wr c @ ch" using w2 by (auto dest: readFull_frame)
      obtain c4 r4 where p: "readFull 8 c3 = (c4, r4)" by force
      then have w4: "wr c4 = wr c @ ch" using w3 by (auto dest: readFull_frame)
      have "c' = c3 \<or> c' = c4 \<or> c' = fst (writeByte ackBadAuth c3) \<or> c' = fst (writeByte ackBadAuth c4)"
        using assms h hdr ch w None t p
        by (auto simp: serverHandshake_body_def Let_def randomBytes_def
            split: sum.splits if_splits option.splits)
      then show ?thesis
        using ch w3 w4 writeByte_prefix [of ackBadAuth c3] writeByte_prefix [of ackBadAuth c4] by auto
    qed
  qed
qed

lemma serverHandshake_split:
  "serverHandshake mac rnd token cur c = (c', r) \<longleftrightarrow>
     (\<exists>d. serverHandshake_body mac rnd token cur (setDeadline (Some handshakeTimeout) c) = (d, r) \<and>
          c' = setDeadline None d)"
  by (auto simp: serverHandshake_def split: prod.splits)

text \<open>
  Property C1. The server admits a connection only if the bytes it received are the magic, a
  known role, the HMAC of this connection's own challenge under the token and, for a pool
  connection, the epoch of the control channel in force. It has then sent exactly the challenge.
\<close>
theorem server_admits_only_authenticated:
  assumes "serverHandshake mac rnd token cur c = (c', Inr adm)"
  shows "\<exists>challenge. rnd = Some challenge \<and> (arole adm = roleControl \<or> arole adm = rolePool) \<and>
    wr c' = wr c @ challenge \<and>
    rd c = magic @ [arole adm] @ hmacTag mac token challenge @
             (case aepoch adm of None \<Rightarrow> [] | Some e \<Rightarrow> e) @ rd c' \<and>
    (arole adm = rolePool \<longrightarrow> aepoch adm \<noteq> None \<and> aepoch adm = cur) \<and>
    (arole adm = roleControl \<longrightarrow> aepoch adm = None)"
  using assms serverHandshake_body_admits by (fastforce simp: serverHandshake_split)

definition toy_mac :: mac where
  "toy_mac k m = take 32 (k @ m @ replicate 32 0)"

lemma toy_mac_length [simp]: "length (toy_mac k m) = 32"
  by (simp add: toy_mac_def)

text \<open>A pool connection's bytes, as the witnesses below feed them to the server.\<close>

definition sample_hello :: "byte \<Rightarrow> bytes \<Rightarrow> bytes" where
  "sample_hello role rest = magic @ [role] @ hmacTag toy_mac ''secret'' (replicate 16 7) @ rest"

lemma sample_pool_admitted:
  "serverHandshake toy_mac (Some (replicate 16 7)) ''secret'' (Some (replicate 8 9))
     (fresh_conn (sample_hello rolePool (replicate 8 9))) =
   (setDeadline None ((fresh_conn [])\<lparr>wr := replicate 16 7\<rparr>),
    Inr \<lparr>arole = rolePool, aepoch = Some (replicate 8 9)\<rparr>)"
proof -
  let ?t = "hmacTag toy_mac ''secret'' (replicate 16 7)"
  have [simp]: "length ?t = 32" by (simp add: hmacTag_def)
  show ?thesis
    by (simp add: serverHandshake_def serverHandshake_body_def sample_hello_def fresh_conn_def
        setDeadline_def readFull_def conn_write_def randomBytes_def Let_def nth_append)
qed

theorem server_admits_only_authenticated_witness:
  "\<exists>challenge. Some (replicate 16 7) = Some challenge \<and>
     sample_hello rolePool (replicate 8 9) =
       magic @ [rolePool] @ hmacTag toy_mac ''secret'' challenge @ replicate 8 9"
  using server_admits_only_authenticated [OF sample_pool_admitted] by auto



section \<open>Both sides of the handshake together\<close>

text \<open>
  The two ends run against each other: each one's input is what the other one wrote. The server's
  answer after the handshake is the caller's (\<open>serverAckControl\<close>, \<open>serverAckPool\<close>).
\<close>

lemma clientHandshakeControl_ok:
  assumes "writable c" "length ch = 16" "rd c = ch @ ack # rest"
  shows "clientHandshakeControl_body mac token c =
    (let c1 = c\<lparr>wr := wr c @ magic @ [roleControl] @ hmacTag mac token ch, rd := rest\<rparr> in
     if ack = ackOK then
       (case readFull 8 c1 of
          (c5, Inl e) \<Rightarrow> (c5, Inl (Wrap ''read epoch'' e))
        | (c5, Inr epoch) \<Rightarrow> (c5, Inr epoch))
     else if ack = ackBusy then (c1, Inl (Msg ''server already has an active control channel''))
     else if ack = ackBadAuth then (c1, Inl (Msg ''token rejected by server''))
     else (c1, Inl (Msg (''unexpected ack '' @ itoa (uint ack)))))"
  using assms
  by (simp add: clientHandshakeControl_body_def writeHeader_def readByte_ok
      conn_write_writable writable_frame writable_open readFull_append Let_def)

lemma clientHandshakePool_ok:
  assumes "writable c" "length ch = 16" "rd c = ch @ ack # rest"
  shows "clientHandshakePool_body mac token epoch c =
    (c\<lparr>wr := wr c @ magic @ [rolePool] @ hmacTag mac token ch @ epoch, rd := rest\<rparr>,
     if ack \<noteq> ackOK
     then Some (Msg (''pool connection refused (code '' @ itoa (uint ack) @ '')''))
     else None)"
  using assms
  by (simp add: clientHandshakePool_body_def writeHeader_def readByte_ok
      conn_write_writable writable_frame writable_open readFull_append Let_def)

lemma serverHandshake_body_steps:
  assumes "readFull 5 c = (c1, Inr hdr)" "take 4 hdr = magic" "hdr ! 4 = role"
    and "role = roleControl \<or> role = rolePool"
    and "conn_write ch c1 = (c2, None)" "readFull 32 c2 = (c3, Inr tag)"
    and "readFull 8 c3 = (c4, r4)"
  shows "serverHandshake_body mac (Some ch) token cur c =
      (if tag \<noteq> hmacTag mac token ch
       then (fst (writeByte ackBadAuth c3), Inl (Msg ''auth failed''))
       else if role = rolePool then
         (case r4 of
            Inl e \<Rightarrow> (c4, Inl (Wrap ''read epoch'' e))
          | Inr epoch \<Rightarrow>
              if cur \<noteq> Some epoch
              then (fst (writeByte ackBadAuth c4), Inl (Msg ''stale or foreign pool epoch''))
              else (c4, Inr \<lparr>arole = role, aepoch = Some epoch\<rparr>))
       else (c3, Inr \<lparr>arole = role, aepoch = None\<rparr>))"
  using assms
  by (cases cur; cases r4) (auto simp: serverHandshake_body_def randomBytes_def Let_def constantTimeCompare_def)

lemma serverHandshake_run:
  assumes "writable c" "length tag = 32" "role = roleControl \<or> role = rolePool"
    and "rd c = magic @ [role] @ tag @ rest"
  shows "serverHandshake_body mac (Some ch) token cur c =
    (let c1 = c\<lparr>wr := wr c @ ch, rd := rest\<rparr> in
     if tag \<noteq> hmacTag mac token ch
     then (c1\<lparr>wr := wr c @ ch @ [ackBadAuth]\<rparr>, Inl (Msg ''auth failed''))
     else if role = rolePool then
       (case readFull 8 c1 of
          (c4, Inl e) \<Rightarrow> (c4, Inl (Wrap ''read epoch'' e))
        | (c4, Inr epoch) \<Rightarrow>
            if cur \<noteq> Some epoch
            then (c4\<lparr>wr := wr c @ ch @ [ackBadAuth]\<rparr>, Inl (Msg ''stale or foreign pool epoch''))
            else (c4, Inr \<lparr>arole = role, aepoch = Some epoch\<rparr>))
     else (c1, Inr \<lparr>arole = role, aepoch = None\<rparr>))"
proof -
  let ?c1 = "c\<lparr>rd := tag @ rest\<rparr>" and ?c2 = "c\<lparr>wr := wr c @ ch, rd := tag @ rest\<rparr>"
    and ?c3 = "c\<lparr>wr := wr c @ ch, rd := rest\<rparr>"
  have 1: "readFull 5 c = (?c1, Inr (magic @ [role]))"
    using assms by (intro readFull_append) (simp_all add: writable_open)
  have 2: "conn_write ch ?c1 = (?c2, None)"
    using assms(1) by (simp add: go_simps)
  have w: "writable ?c2" "writable ?c3" using assms(1) by (simp_all add: writable_frame)
  have 3: "readFull 32 ?c2 = (?c3, Inr tag)"
    using assms w readFull_append [of ?c2 tag rest 32] by (simp add: writable_open)
  obtain c4 r4 where 4: "readFull 8 ?c3 = (c4, r4)" by force
  then have w4: "writable c4" "wr c4 = wr c @ ch"
    using w(2) readFull_frame [OF 4] by (auto simp: writable_def)
  have hd: "take 4 (magic @ [role]) = magic" "(magic @ [role]) ! 4 = role"
    by (simp_all add: nth_append)
  show ?thesis
    unfolding serverHandshake_body_steps [OF 1 hd assms(3) 2 3 4] Let_def 4
    using w(2) w4 by (cases r4) (simp_all add: writeByte_ok)
qed

text \<open>
  Property C2. Control handshake, both ends: whatever the two tokens are, the client ends with the
  epoch the server issued exactly when the HMACs of the challenge under the two tokens agree;
  otherwise the server answers \<open>ackBadAuth\<close>, admits nothing, and the client learns that the token
  was rejected. The client's input in each case is what the server wrote.
\<close>
theorem control_handshake_agreement:
  assumes mac: "\<And>k m. length (mac k m) = 32"
    and len: "length ch = 16" "length ep = 8"
    and client: "clientHandshakeControl mac tkc (fresh_conn cin) = (c', res)"
    and server: "serverHandshake mac (Some ch) tks cur (fresh_conn (wr c')) = (s', adm)"
    and input: "cin = (case adm of Inr a \<Rightarrow> wr (fst (serverAckControl ep s')) | Inl e \<Rightarrow> wr s')"
    and start: "prefix ch cin" "length ch < length cin"
  shows "(if hmacTag mac tkc ch = hmacTag mac tks ch
          then res = Inr ep \<and> adm = Inr \<lparr>arole = roleControl, aepoch = None\<rparr> \<and> rd s' = [] \<and> rd c' = []
          else res = Inl (Msg ''token rejected by server'') \<and> adm = Inl (Msg ''auth failed''))"
proof -
  obtain ack rest where cin: "cin = ch @ ack # rest"
    using start by (auto simp: prefix_def neq_Nil_conv)
  let ?c = "setDeadline (Some handshakeTimeout) (fresh_conn cin)"
  have C: "writable ?c" "rd ?c = ch @ ack # rest" by (simp_all add: cin)
  note run = clientHandshakeControl_ok [where mac = mac and token = tkc, OF C(1) len(1) C(2)]
  have wrc: "wr c' = magic @ [roleControl] @ hmacTag mac tkc ch"
    using client run
    by (auto simp: clientHandshakeControl_def Let_def split: prod.splits sum.splits if_splits
        dest: readFull_frame)
  let ?s = "setDeadline (Some handshakeTimeout) (fresh_conn (wr c'))"
  have S: "writable ?s" "rd ?s = magic @ [roleControl] @ hmacTag mac tkc ch @ []"
    by (simp_all add: wrc)
  have tag: "length (hmacTag mac tkc ch) = 32" by (simp add: hmacTag_def mac)
  note srun = serverHandshake_run [where mac = mac and token = tks and ch = ch and cur = cur,
      OF S(1) tag _ S(2), simplified]
  show ?thesis
  proof (cases "hmacTag mac tkc ch = hmacTag mac tks ch")
    case True
    then have adm: "adm = Inr \<lparr>arole = roleControl, aepoch = None\<rparr>" "wr s' = ch" "rd s' = []" "writable s'"
      using server srun by (auto simp: serverHandshake_def Let_def writable_def)
    then have "cin = ch @ ackOK # ep"
      using input by (simp add: serverAckControl_def go_simps)
    then have "ack = ackOK" "rest = ep" using cin by auto
    moreover have "readFull 8 (d\<lparr>wr := x, rd := ep\<rparr>) = (d\<lparr>wr := x, rd := []\<rparr>, Inr ep)"
      if "writable d" for d :: conn and x
      using that len readFull_append [of "d\<lparr>wr := x, rd := ep\<rparr>" ep "[]" 8] by (simp add: writable_open)
    ultimately have "res = Inr ep" "rd c' = []"
      using client run C(1) by (auto simp: clientHandshakeControl_def Let_def)
    with adm True show ?thesis by simp
  next
    case False
    then have adm: "adm = Inl (Msg ''auth failed'')" "wr s' = ch @ [ackBadAuth]"
      using server srun by (auto simp: serverHandshake_def Let_def)
    then have "ack = ackBadAuth" using input cin by simp
    then have "res = Inl (Msg ''token rejected by server'')"
      using client run by (auto simp: clientHandshakeControl_def Let_def wire_consts)
    with adm False show ?thesis by simp
  qed
qed

lemma sample_control_run:
  assumes "length ep = 8" "length ch = 16"
  shows "clientHandshakeControl toy_mac tk (fresh_conn (ch @ ackOK # ep)) =
      (setDeadline None ((fresh_conn [])\<lparr>wr := magic @ [roleControl] @ hmacTag toy_mac tk ch\<rparr>), Inr ep)"
    and "serverHandshake toy_mac (Some ch) tk cur
           (fresh_conn (magic @ [roleControl] @ hmacTag toy_mac tk ch)) =
      (setDeadline None ((fresh_conn [])\<lparr>wr := ch\<rparr>), Inr \<lparr>arole = roleControl, aepoch = None\<rparr>)"
proof -
  let ?c = "setDeadline (Some handshakeTimeout) (fresh_conn (ch @ ackOK # ep))"
  have "readFull 8 (?c\<lparr>wr := w, rd := ep\<rparr>) = (?c\<lparr>wr := w, rd := []\<rparr>, Inr ep)" for w
    using assms readFull_append [of "?c\<lparr>wr := w, rd := ep\<rparr>" ep "[]" 8] by simp
  then show "clientHandshakeControl toy_mac tk (fresh_conn (ch @ ackOK # ep)) =
      (setDeadline None ((fresh_conn [])\<lparr>wr := magic @ [roleControl] @ hmacTag toy_mac tk ch\<rparr>), Inr ep)"
    using clientHandshakeControl_ok [of ?c ch ackOK ep toy_mac tk] assms
    by (simp add: clientHandshakeControl_def setDeadline_def fresh_conn_def Let_def writable_def)
  let ?s = "setDeadline (Some handshakeTimeout) (fresh_conn (magic @ [roleControl] @ hmacTag toy_mac tk ch))"
  have "length (hmacTag toy_mac tk ch) = 32" by (simp add: hmacTag_def)
  then show "serverHandshake toy_mac (Some ch) tk cur
           (fresh_conn (magic @ [roleControl] @ hmacTag toy_mac tk ch)) =
      (setDeadline None ((fresh_conn [])\<lparr>wr := ch\<rparr>), Inr \<lparr>arole = roleControl, aepoch = None\<rparr>)"
    using serverHandshake_run [of ?s "hmacTag toy_mac tk ch" roleControl "[]" toy_mac ch tk cur]
    by (simp add: serverHandshake_def setDeadline_def fresh_conn_def Let_def writable_def)
qed

theorem control_handshake_agreement_witness:
  "snd (clientHandshakeControl toy_mac ''secret''
     (fresh_conn (replicate 16 7 @ ackOK # replicate 8 9))) = Inr (replicate 8 9)"
proof -
  let ?ch = "replicate 16 (7 :: byte)" and ?ep = "replicate 8 (9 :: byte)"
  note run = sample_control_run [of ?ep ?ch "''secret''"]
  have server: "serverHandshake toy_mac (Some ?ch) ''secret'' None
      (fresh_conn (wr (setDeadline None ((fresh_conn [])\<lparr>wr := magic @ [roleControl] @ hmacTag toy_mac ''secret'' ?ch\<rparr>)))) =
      (setDeadline None ((fresh_conn [])\<lparr>wr := ?ch\<rparr>), Inr \<lparr>arole = roleControl, aepoch = None\<rparr>)"
    using run(2) [of None] by simp
  have "Inr ?ep = (Inr ?ep :: goerror + bytes) \<and>
      (Inr \<lparr>arole = roleControl, aepoch = None\<rparr> :: goerror + admitted) = Inr \<lparr>arole = roleControl, aepoch = None\<rparr> \<and>
      rd (setDeadline None ((fresh_conn [])\<lparr>wr := ?ch\<rparr>)) = [] \<and>
      rd (setDeadline None ((fresh_conn [])\<lparr>wr := magic @ [roleControl] @ hmacTag toy_mac ''secret'' ?ch\<rparr>)) = []"
    using control_handshake_agreement [of toy_mac ?ch ?ep "''secret''" "?ch @ ackOK # ?ep" _ _ "''secret''" None,
        OF _ _ _ run(1) server]
    by (simp add: serverAckControl_def go_simps)
  with run(1) show ?thesis by simp
qed

text \<open>
  Property C3. Pool handshake, both ends: the client's handshake succeeds exactly when the server
  admits the connection, and that is exactly when the tokens' HMACs agree and the epoch presented
  is the one of the control channel in force. A pool connection of an ended generation, or made
  while there is no control channel, is refused.
\<close>
theorem pool_handshake_agreement:
  assumes mac: "\<And>k m. length (mac k m) = 32"
    and len: "length ch = 16" "length epoch = 8"
    and client: "clientHandshakePool mac tkc epoch (fresh_conn cin) = (c', res)"
    and server: "serverHandshake mac (Some ch) tks cur (fresh_conn (wr c')) = (s', adm)"
    and input: "cin = (case adm of Inr a \<Rightarrow> wr (fst (serverAckPool s')) | Inl e \<Rightarrow> wr s')"
    and start: "prefix ch cin" "length ch < length cin"
  shows "(res = None \<longleftrightarrow> hmacTag mac tkc ch = hmacTag mac tks ch \<and> cur = Some epoch) \<and>
    (res = None \<longleftrightarrow> adm = Inr \<lparr>arole = rolePool, aepoch = Some epoch\<rparr>)"
proof -
  obtain ack rest where cin: "cin = ch @ ack # rest"
    using start by (auto simp: prefix_def neq_Nil_conv)
  let ?c = "setDeadline (Some handshakeTimeout) (fresh_conn cin)"
  have C: "writable ?c" "rd ?c = ch @ ack # rest" by (simp_all add: cin)
  note run = clientHandshakePool_ok [where mac = mac and token = tkc and epoch = epoch, OF C(1) len(1) C(2)]
  have res: "res = None \<longleftrightarrow> ack = ackOK"
    and wrc: "wr c' = magic @ [rolePool] @ hmacTag mac tkc ch @ epoch"
    using client run by (auto simp: clientHandshakePool_def split: if_splits)
  let ?s = "setDeadline (Some handshakeTimeout) (fresh_conn (wr c'))"
  have S: "writable ?s" "rd ?s = magic @ [rolePool] @ hmacTag mac tkc ch @ epoch"
    by (simp_all add: wrc)
  have tag: "length (hmacTag mac tkc ch) = 32" by (simp add: hmacTag_def mac)
  have ep: "readFull 8 (?s\<lparr>wr := x, rd := epoch\<rparr>) = (?s\<lparr>wr := x, rd := []\<rparr>, Inr epoch)" for x
    using len readFull_append [of "?s\<lparr>wr := x, rd := epoch\<rparr>" epoch "[]" 8] by simp
  note srun = serverHandshake_run [where mac = mac and token = tks and ch = ch and cur = cur,
      OF S(1) tag _ S(2), unfolded Let_def, unfolded ep, simplified]
  let ?ok = "hmacTag mac tkc ch = hmacTag mac tks ch \<and> cur = Some epoch"
  have "if ?ok then adm = Inr \<lparr>arole = rolePool, aepoch = Some epoch\<rparr> \<and> wr s' = ch \<and> writable s'
        else isl adm \<and> wr s' = ch @ [ackBadAuth]"
    using server srun by (auto simp: serverHandshake_def writable_def split: if_splits)
  then have "if ?ok then adm = Inr \<lparr>arole = rolePool, aepoch = Some epoch\<rparr> \<and> cin = ch @ [ackOK]
        else isl adm \<and> cin = ch @ [ackBadAuth]"
    using input by (cases adm) (auto simp: serverAckPool_def go_simps split: if_splits)
  then show ?thesis
    using res cin by (auto simp: wire_consts split: if_splits)
qed

lemma sample_pool_client:
  "clientHandshakePool toy_mac ''secret'' (replicate 8 9) (fresh_conn (replicate 16 7 @ [ackOK])) =
     (setDeadline None ((fresh_conn [])\<lparr>wr := sample_hello rolePool (replicate 8 9)\<rparr>), None)"
  using clientHandshakePool_ok [of "setDeadline (Some handshakeTimeout) (fresh_conn (replicate 16 7 @ [ackOK]))"
      "replicate 16 7" ackOK "[]" toy_mac "''secret''" "replicate 8 9"]
  by (simp add: clientHandshakePool_def setDeadline_def fresh_conn_def writable_def sample_hello_def)

theorem pool_handshake_agreement_witness:
  "snd (serverHandshake toy_mac (Some (replicate 16 7)) ''secret'' (Some (replicate 8 9))
      (fresh_conn (sample_hello rolePool (replicate 8 9)))) =
   Inr \<lparr>arole = rolePool, aepoch = Some (replicate 8 9)\<rparr>"
proof -
  have server: "serverHandshake toy_mac (Some (replicate 16 7)) ''secret'' (Some (replicate 8 9))
      (fresh_conn (wr (setDeadline None ((fresh_conn [])\<lparr>wr := sample_hello rolePool (replicate 8 9)\<rparr>)))) =
      (setDeadline None ((fresh_conn [])\<lparr>wr := replicate 16 7\<rparr>),
       Inr \<lparr>arole = rolePool, aepoch = Some (replicate 8 9)\<rparr>)"
    using sample_pool_admitted by simp
  have "Inr \<lparr>arole = rolePool, aepoch = Some (replicate 8 9)\<rparr> =
      (Inr \<lparr>arole = rolePool, aepoch = Some (replicate 8 9)\<rparr> :: goerror + admitted)"
    using pool_handshake_agreement [of toy_mac "replicate 16 7" "replicate 8 9" "''secret''"
        "replicate 16 7 @ [ackOK]" _ None "''secret''" "Some (replicate 8 9)", OF _ _ _ sample_pool_client server]
    by (simp add: serverAckPool_def go_simps)
  then show ?thesis using sample_pool_admitted by simp
qed

end
