(* ===== verification/Record_Layer.thy ===== *)
theory Record_Layer
  imports Wire
begin

text \<open>
  The two disguises that put a message layer under the byte stream: \<open>noise.go\<close> (encrypted,
  length-prefixed records) and the \<open>wsConn\<close> of \<open>wss.go\<close> (WebSocket messages). The cipher and the
  handshake state of the Noise library, the HKDF and the WebSocket library are not part of the
  repository: they are arguments of the definitions here, and what is relied on is stated as
  hypotheses. The locale \<open>byte_source\<close> is what the rest of the program needs of a connection it
  reads with \<open>io.ReadFull\<close>; both connections interpret it.
\<close>

section \<open>\<open>io.ReadFull\<close> over an arbitrary reader\<close>

text \<open>
  \<open>read n s\<close> is one call of \<open>Read\<close> with a buffer of \<open>n\<close> bytes. The loop of \<open>io.ReadFull\<close> need not end
  (a reader may deliver nothing, without an error, for ever), hence \<open>option\<close>.
\<close>

partial_function (option) io_ReadFull ::
    "(nat \<Rightarrow> 's \<Rightarrow> 's \<times> (goerror + bytes)) \<Rightarrow> nat \<Rightarrow> bytes \<Rightarrow> 's \<Rightarrow> ('s \<times> (goerror + bytes)) option" where
  "io_ReadFull read n acc s =
     (if n = 0 then Some (s, Inr acc)
      else case read n s of
        (s', Inl e) \<Rightarrow> Some (s', Inl (if e = EOF \<and> acc \<noteq> [] then UnexpectedEOF else e))
      | (s', Inr out) \<Rightarrow> io_ReadFull read (n - length out) (acc @ out) s')"

text \<open>
  In state \<open>s\<close> a byte source holds \<open>bs\<close>: as long as that is not empty, a read with a non-empty buffer delivers
  a non-empty piece from the front of it.
\<close>

locale byte_source =
  fixes read :: "nat \<Rightarrow> 's \<Rightarrow> 's \<times> (goerror + bytes)"
    and holds :: "'s \<Rightarrow> bytes \<Rightarrow> bool"
  assumes read_progress: "holds s bs \<Longrightarrow> bs \<noteq> [] \<Longrightarrow> 0 < n \<Longrightarrow>
      \<exists>s' out bs'. read n s = (s', Inr out) \<and> out \<noteq> [] \<and> length out \<le> n \<and>
        bs = out @ bs' \<and> holds s' bs'"
begin

lemma ReadFull_acc:
  "holds s bs \<Longrightarrow> n \<le> length bs \<Longrightarrow>
     \<exists>s'. io_ReadFull read n acc s = Some (s', Inr (acc @ take n bs)) \<and> holds s' (drop n bs)"
proof (induction n arbitrary: acc s bs rule: less_induct)
  case (less n)
  show ?case
  proof (cases "n = 0")
    case True
    with less.prems show ?thesis by (subst io_ReadFull.simps) simp
  next
    case False
    with less.prems have "bs \<noteq> []" "0 < n" by auto
    then obtain s1 out bs1 where r: "read n s = (s1, Inr out)" "out \<noteq> []" "length out \<le> n"
        "bs = out @ bs1" "holds s1 bs1"
      using read_progress less.prems(1) by blast
    have "n - length out < n" "n - length out \<le> length bs1"
      using r less.prems(2) False by auto
    then obtain s' where "io_ReadFull read (n - length out) (acc @ out) s1 =
        Some (s', Inr ((acc @ out) @ take (n - length out) bs1))" "holds s' (drop (n - length out) bs1)"
      using less.IH r(5) by blast
    with False r(1,3,4) show ?thesis by (subst io_ReadFull.simps) simp
  qed
qed

text \<open>
  So \<open>io.ReadFull\<close> returns, with exactly the next \<open>n\<close> bytes, however the layer below cuts them up.
\<close>

lemma ReadFull_exact:
  assumes "holds s bs" "n \<le> length bs"
  shows "\<exists>s'. io_ReadFull read n [] s = Some (s', Inr (take n bs)) \<and> holds s' (drop n bs)"
  using ReadFull_acc [OF assms, of "[]"] by simp

end

section \<open>Noise: frames and records\<close>

definition noiseMaxRecord :: nat where "noiseMaxRecord = 65535 - 16"
definition noiseHandshakeTimeout :: int where "noiseHandshakeTimeout = 15 * second"

lemma noiseMaxRecord_pos [simp]: "0 < noiseMaxRecord"
  by (simp add: noiseMaxRecord_def)

definition writeFrame :: "bytes \<Rightarrow> conn \<Rightarrow> conn \<times> goerror option" where
  "writeFrame msg c =
     (case conn_write (putUint16 (word_of_nat (length msg))) c of
        (c1, Some e) \<Rightarrow> (c1, Some e)
      | (c1, None) \<Rightarrow> conn_write msg c1)"

definition readFrame :: "conn \<Rightarrow> conn \<times> (goerror + bytes)" where
  "readFrame c =
     (case readFull 2 c of
        (c1, Inl e) \<Rightarrow> (c1, Inl e)
      | (c1, Inr hdr) \<Rightarrow> readFull (unat (getUint16 hdr)) c1)"

interpretation frame: frame_codec writeFrame readFrame "\<lambda>m. length m \<le> 65535" prefixed
  by unfold_locales
    (simp_all add: writeFrame_def readFrame_def prefixed_def go_simps readFull_append)

text \<open>A cipher state \<open>'k\<close> with its \<open>Encrypt\<close> or \<open>Decrypt\<close> method; the state is the nonce counter.\<close>

type_synonym 'k cipher = "'k \<Rightarrow> bytes \<Rightarrow> 'k \<times> (goerror + bytes)"

record 'k noiseConn =
  nconn :: conn
  nsend :: 'k
  nrecv :: 'k
  npending :: bytes

function noiseConn_Write_loop ::
    "'k cipher \<Rightarrow> nat \<Rightarrow> bytes \<Rightarrow> 'k noiseConn \<Rightarrow> 'k noiseConn \<times> nat \<times> goerror option" where
  "noiseConn_Write_loop encrypt sent p c =
     (if p = [] then (c, sent, None)
      else let chunk = take noiseMaxRecord p in
        (case encrypt (nsend c) chunk of
           (k, Inl e) \<Rightarrow> (c\<lparr>nsend := k\<rparr>, sent, Some (Wrap ''noise: encrypt'' e))
         | (k, Inr enc) \<Rightarrow>
             (case writeFrame enc (nconn c) of
                (raw, Some e) \<Rightarrow> (c\<lparr>nsend := k, nconn := raw\<rparr>, sent, Some e)
              | (raw, None) \<Rightarrow>
                  noiseConn_Write_loop encrypt (sent + length chunk) (drop (length chunk) p)
                    (c\<lparr>nsend := k, nconn := raw\<rparr>))))"
  by pat_completeness auto
termination
  by (relation "measure (\<lambda>(e, t, p, c). length p)") (auto simp: Let_def)

declare noiseConn_Write_loop.simps [simp del]

definition noiseConn_Write ::
    "'k cipher \<Rightarrow> bytes \<Rightarrow> 'k noiseConn \<Rightarrow> 'k noiseConn \<times> nat \<times> goerror option" where
  "noiseConn_Write encrypt p c = noiseConn_Write_loop encrypt 0 p c"

definition noiseConn_Read ::
    "'k cipher \<Rightarrow> nat \<Rightarrow> 'k noiseConn \<Rightarrow> 'k noiseConn \<times> (goerror + bytes)" where
  "noiseConn_Read decrypt n c =
     (let deliver = (\<lambda>c. (c\<lparr>npending := drop n (npending c)\<rparr>, Inr (take n (npending c)))) in
      if npending c = [] then
        (case readFrame (nconn c) of
           (raw, Inl e) \<Rightarrow> (c\<lparr>nconn := raw\<rparr>, Inl e)
         | (raw, Inr frame) \<Rightarrow>
             (case decrypt (nrecv c) frame of
                (k, Inl e) \<Rightarrow> (c\<lparr>nconn := raw, nrecv := k\<rparr>,
                               Inl (Wrap ''noise: record failed to authenticate'' e))
              | (k, Inr plain) \<Rightarrow> deliver (c\<lparr>nconn := raw, nrecv := k, npending := plain\<rparr>)))
      else deliver c)"

section \<open>Noise: the handshake\<close>

text \<open>
  What \<open>noiseHandshake\<close> uses of the Noise library's handshake state \<open>'h\<close>: building it (role and
  pre-shared key), writing and reading a message. The last message of the pattern also returns
  the two cipher states; before that they are nil.
\<close>

record ('h, 'k) noise_lib =
  newHandshakeState :: "bool \<Rightarrow> bytes \<Rightarrow> goerror + 'h"
  hsWriteMessage :: "'h \<Rightarrow> 'h \<times> (goerror + bytes \<times> ('k \<times> 'k) option)"
  hsReadMessage :: "'h \<Rightarrow> bytes \<Rightarrow> 'h \<times> (goerror + bytes \<times> ('k \<times> 'k) option)"

definition noiseHKDFInfo :: string where
  "noiseHKDFInfo = ''rmtunnel-noise-psk-v1''"

text \<open>\<open>hkdf secret info n\<close> is the first \<open>n\<close> bytes of HKDF-SHA256 without a salt.\<close>

definition derivePSK :: "(bytes \<Rightarrow> bytes \<Rightarrow> nat \<Rightarrow> bytes) \<Rightarrow> string \<Rightarrow> bytes" where
  "derivePSK hkdf token = hkdf (bytes_of_string token) (bytes_of_string noiseHKDFInfo) 32"

definition noiseHandshake_initiator ::
    "('h, 'k) noise_lib \<Rightarrow> 'h \<Rightarrow> conn \<Rightarrow> conn \<times> (goerror + ('k \<times> 'k) option)" where
  "noiseHandshake_initiator lib hs raw =
     (case hsWriteMessage lib hs of
        (h1, Inl e) \<Rightarrow> (raw, Inl (Wrap ''noise: build message 1'' e))
      | (h1, Inr (msg, _)) \<Rightarrow>
          (case writeFrame msg raw of
             (raw1, Some e) \<Rightarrow> (raw1, Inl e)
           | (raw1, None) \<Rightarrow>
               (case readFrame raw1 of
                  (raw2, Inl e) \<Rightarrow> (raw2, Inl e)
                | (raw2, Inr inp) \<Rightarrow>
                    (case hsReadMessage lib h1 inp of
                       (h2, Inl e) \<Rightarrow> (raw2, Inl (Wrap ''noise: handshake rejected'' e))
                     | (h2, Inr (_, cs)) \<Rightarrow> (raw2, Inr cs)))))"

definition noiseHandshake_responder ::
    "('h, 'k) noise_lib \<Rightarrow> 'h \<Rightarrow> conn \<Rightarrow> conn \<times> (goerror + ('k \<times> 'k) option)" where
  "noiseHandshake_responder lib hs raw =
     (case readFrame raw of
        (raw1, Inl e) \<Rightarrow> (raw1, Inl e)
      | (raw1, Inr inp) \<Rightarrow>
          (case hsReadMessage lib hs inp of
             (h1, Inl e) \<Rightarrow> (raw1, Inl (Wrap ''noise: handshake rejected'' e))
           | (h1, Inr _) \<Rightarrow>
               (case hsWriteMessage lib h1 of
                  (h2, Inl e) \<Rightarrow> (raw1, Inl (Wrap ''noise: build message 2'' e))
                | (h2, Inr (msg, cs)) \<Rightarrow>
                    (case writeFrame msg raw1 of
                       (raw2, Some e) \<Rightarrow> (raw2, Inl e)
                     | (raw2, None) \<Rightarrow> (raw2, Inr (map_option (\<lambda>(cs0, cs1). (cs1, cs0)) cs))))))"

text \<open>
  Both branches end in the pair (send, recv); the deadline is cleared on every path after it was
  set.
\<close>

definition noiseHandshake ::
    "(bytes \<Rightarrow> bytes \<Rightarrow> nat \<Rightarrow> bytes) \<Rightarrow> ('h, 'k) noise_lib \<Rightarrow> string \<Rightarrow> bool \<Rightarrow> conn \<Rightarrow>
     conn \<times> (goerror + 'k noiseConn)" where
  "noiseHandshake hkdf lib token initiator raw =
     (case newHandshakeState lib initiator (derivePSK hkdf token) of
        Inl e \<Rightarrow> (raw, Inl (Wrap ''noise: init'' e))
      | Inr hs \<Rightarrow>
          (let raw0 = setDeadline (Some noiseHandshakeTimeout) raw in
           case (if initiator then noiseHandshake_initiator lib hs raw0
                 else noiseHandshake_responder lib hs raw0) of
             (raw', Inl e) \<Rightarrow> (setDeadline None raw', Inl e)
           | (raw', Inr None) \<Rightarrow>
               (setDeadline None raw', Inl (Msg ''noise: handshake did not complete''))
           | (raw', Inr (Some (send, recv))) \<Rightarrow>
               (setDeadline None raw',
                Inr \<lparr>nconn = setDeadline None raw', nsend = send, nrecv = recv, npending = []\<rparr>)))"

definition wrapNoiseClient ::
    "(bytes \<Rightarrow> bytes \<Rightarrow> nat \<Rightarrow> bytes) \<Rightarrow> ('h, 'k) noise_lib \<Rightarrow> string \<Rightarrow> conn \<Rightarrow> conn \<times> (goerror + 'k noiseConn)" where
  "wrapNoiseClient hkdf lib token raw = noiseHandshake hkdf lib token True raw"

definition wrapNoiseServer ::
    "(bytes \<Rightarrow> bytes \<Rightarrow> nat \<Rightarrow> bytes) \<Rightarrow> ('h, 'k) noise_lib \<Rightarrow> string \<Rightarrow> conn \<Rightarrow> conn \<times> (goerror + 'k noiseConn)" where
  "wrapNoiseServer hkdf lib token raw = noiseHandshake hkdf lib token False raw"

section \<open>WebSocket messages as a byte stream\<close>

text \<open>
  The WebSocket connection: the messages that will arrive (type and payload) and the error after
  them, the messages sent, and whether sending still works. \<open>2\<close> is \<open>websocket.BinaryMessage\<close>.
\<close>

record wsConn =
  wsin :: "(int \<times> bytes) list"
  wsin_err :: goerror
  wsout :: "(int \<times> bytes) list"
  wsout_err :: "goerror option"
  wspending :: bytes

definition binaryMessage :: int where "binaryMessage = 2"

fun ws_fill :: "(int \<times> bytes) list \<Rightarrow> (bytes \<times> (int \<times> bytes) list) option" where
  "ws_fill [] = None"
| "ws_fill ((mt, data) # ms) =
     (if mt \<noteq> binaryMessage then ws_fill ms
      else if data = [] then ws_fill ms
      else Some (data, ms))"

definition wsConn_Read :: "nat \<Rightarrow> wsConn \<Rightarrow> wsConn \<times> (goerror + bytes)" where
  "wsConn_Read n c =
     (let deliver = (\<lambda>c. (c\<lparr>wspending := drop n (wspending c)\<rparr>, Inr (take n (wspending c)))) in
      if wspending c = [] then
        (case ws_fill (wsin c) of
           None \<Rightarrow> (c\<lparr>wsin := []\<rparr>, Inl (wsin_err c))
         | Some (data, ms) \<Rightarrow> deliver (c\<lparr>wsin := ms, wspending := data\<rparr>))
      else deliver c)"

definition wsConn_Write :: "bytes \<Rightarrow> wsConn \<Rightarrow> wsConn \<times> nat \<times> goerror option" where
  "wsConn_Write p c =
     (case wsout_err c of
        Some e \<Rightarrow> (c, 0, Some e)
      | None \<Rightarrow> (c\<lparr>wsout := wsout c @ [(binaryMessage, p)]\<rparr>, length p, None))"

section \<open>The record layer carries a byte stream\<close>

text \<open>The plaintexts a receiving cipher state makes of a list of records.\<close>

fun decrypts :: "'k cipher \<Rightarrow> 'k \<Rightarrow> bytes list \<Rightarrow> bytes list \<Rightarrow> bool" where
  "decrypts d k [] [] \<longleftrightarrow> True"
| "decrypts d k (c # cs) (m # ms) \<longleftrightarrow> (case d k c of (k', Inr m') \<Rightarrow> m' = m \<and> decrypts d k' cs ms | _ \<Rightarrow> False)"
| "decrypts d k _ _ \<longleftrightarrow> False"

definition noise_holds :: "'k cipher \<Rightarrow> 'k noiseConn \<Rightarrow> bytes \<Rightarrow> bool" where
  "noise_holds d c bs \<longleftrightarrow>
     (\<exists>cs ms. \<not> isclosed (nconn c) \<and> rd (nconn c) = concat (map prefixed cs) \<and>
        list_all (\<lambda>f. length f \<le> 65535) cs \<and> decrypts d (nrecv c) cs ms \<and> [] \<notin> set ms \<and>
        bs = npending c @ concat ms)"

lemma noise_holds_pending:
  assumes "noise_holds d c bs"
  shows "\<exists>bs'. bs = take n (npending c) @ bs' \<and> noise_holds d (c\<lparr>npending := drop n (npending c)\<rparr>) bs'"
proof -
  from assms obtain cs ms where h: "\<not> isclosed (nconn c)" "rd (nconn c) = concat (map prefixed cs)"
      "list_all (\<lambda>f. length f \<le> 65535) cs" "decrypts d (nrecv c) cs ms" "[] \<notin> set ms"
      "bs = npending c @ concat ms" by (auto simp: noise_holds_def)
  have "noise_holds d (c\<lparr>npending := drop n (npending c)\<rparr>) (drop n (npending c) @ concat ms)"
    using h unfolding noise_holds_def by fastforce
  moreover have "bs = take n (npending c) @ drop n (npending c) @ concat ms"
    using h(6) by simp
  ultimately show ?thesis by blast
qed

lemma noise_Read_progress:
  assumes "noise_holds d c bs" "bs \<noteq> []" "0 < n"
  shows "\<exists>c' out bs'. noiseConn_Read d n c = (c', Inr out) \<and> out \<noteq> [] \<and> length out \<le> n \<and>
    bs = out @ bs' \<and> noise_holds d c' bs'"
proof (cases "npending c = []")
  case False
  with assms noise_holds_pending [of d c bs n] show ?thesis
    by (auto simp: noiseConn_Read_def)
next
  case True
  from assms(1) obtain cs ms where h: "\<not> isclosed (nconn c)" "rd (nconn c) = concat (map prefixed cs)"
      "list_all (\<lambda>f. length f \<le> 65535) cs" "decrypts d (nrecv c) cs ms" "[] \<notin> set ms" "bs = concat ms"
    using True by (auto simp: noise_holds_def)
  with assms(2) obtain m ms' where ms: "ms = m # ms'" by (cases ms) auto
  with h(4) obtain f cs' k' where cs: "cs = f # cs'" "d (nrecv c) f = (k', Inr m)" "decrypts d k' cs' ms'"
    by (cases cs) (auto split: prod.splits sum.splits)
  let ?raw = "(nconn c)\<lparr>rd := concat (map prefixed cs')\<rparr>"
  let ?c = "c\<lparr>nconn := ?raw, nrecv := k', npending := m\<rparr>"
  have "readFrame (nconn c) = (?raw, Inr f)"
    using h cs by (intro frame.get_enc) simp_all
  then have r: "noiseConn_Read d n c = (?c\<lparr>npending := drop n m\<rparr>, Inr (take n m))"
    using True cs(2) by (simp add: noiseConn_Read_def)
  have "noise_holds d ?c bs" "m \<noteq> []"
    using h cs ms by (auto simp: noise_holds_def)
  with r noise_holds_pending [of d ?c bs n] assms(3) show ?thesis by auto
qed

interpretation noise_source: byte_source "noiseConn_Read d" "noise_holds d" for d :: "'k cipher"
  by unfold_locales (rule noise_Read_progress)

text \<open>
  What is relied on of the ciphers, as \<open>sealed e d R\<close>: while \<open>R (Suc n) s r\<close> holds of the sender's and
  the receiver's state (the two are in step and there are nonces left for \<open>n + 1\<close> messages), a
  plaintext that fits a record is encrypted to 16 bytes more and decrypts to itself.
\<close>

definition sealed :: "'k cipher \<Rightarrow> 'k cipher \<Rightarrow> (nat \<Rightarrow> 'k \<Rightarrow> 'k \<Rightarrow> bool) \<Rightarrow> bool" where
  "sealed e d R \<longleftrightarrow> (\<forall>n s r m. R (Suc n) s r \<longrightarrow> length m \<le> noiseMaxRecord \<longrightarrow>
     (\<exists>s' r' c. e s m = (s', Inr c) \<and> length c = length m + 16 \<and> d r c = (r', Inr m) \<and> R n s' r'))"

text \<open>The number of records \<open>Write\<close> makes of \<open>p\<close>.\<close>

definition n_records :: "bytes \<Rightarrow> nat" where
  "n_records p = (length p + (noiseMaxRecord - 1)) div noiseMaxRecord"

lemma n_records_step:
  assumes "p \<noteq> []"
  shows "n_records p = Suc (n_records (drop (length (take noiseMaxRecord p)) p))"
proof (cases "length p \<le> noiseMaxRecord")
  case True
  moreover have "(length p + (noiseMaxRecord - 1)) div noiseMaxRecord = 1"
    using assms True by (intro div_nat_eqI) (auto simp: Suc_le_eq noiseMaxRecord_def)
  ultimately show ?thesis by (simp add: n_records_def noiseMaxRecord_def)
next
  case False
  then have "(length p + 65518) div 65519 = Suc ((length p + 65518 - 65519) div 65519)"
    by (intro le_div_geq) (simp_all add: noiseMaxRecord_def)
  moreover have "length p - 65519 + 65518 = length p + 65518 - 65519"
    using False by (simp add: noiseMaxRecord_def)
  ultimately show ?thesis
    using False by (simp add: n_records_def noiseMaxRecord_def min_def)
qed

lemma Write_loop_stream:
  assumes "sealed e d R"
  shows "R (n_records p + n) (nsend c) r \<Longrightarrow> writable (nconn c) \<Longrightarrow>
    \<exists>c' cs ms r'. noiseConn_Write_loop e sent p c = (c', sent + length p, None) \<and>
      wr (nconn c') = wr (nconn c) @ concat (map prefixed cs) \<and> writable (nconn c') \<and>
      list_all (\<lambda>f. length f \<le> 65535) cs \<and> length cs = n_records p \<and>
      (\<forall>cs2 ms2. decrypts d r' cs2 ms2 \<longrightarrow> decrypts d r (cs @ cs2) (ms @ ms2)) \<and>
      [] \<notin> set ms \<and> concat ms = p \<and> R n (nsend c') r'"
proof (induction "length p" arbitrary: p c r sent rule: less_induct)
  case less
  show ?case
  proof (cases "p = []")
    case True
    with less.prems show ?thesis
      by (subst noiseConn_Write_loop.simps)
        (auto simp: n_records_def noiseMaxRecord_def intro!: exI [of _ "[]"] exI [of _ r])
  next
    case False
    let ?m = "take noiseMaxRecord p" and ?p = "drop (length (take noiseMaxRecord p)) p"
    have "R (Suc (n_records ?p + n)) (nsend c) r"
      using less.prems(1) n_records_step [OF False] by simp
    then obtain s1 r1 f where f: "e (nsend c) ?m = (s1, Inr f)" "length f = length ?m + 16"
        "d r f = (r1, Inr ?m)" "R (n_records ?p + n) s1 r1"
      using assms unfolding sealed_def by (metis length_take min.cobounded2)
    have lf: "length f \<le> 65535" using f(2) by (simp add: noiseMaxRecord_def)
    let ?raw = "(nconn c)\<lparr>wr := wr (nconn c) @ prefixed f\<rparr>"
    let ?c = "c\<lparr>nsend := s1, nconn := ?raw\<rparr>"
    have w: "writeFrame f (nconn c) = (?raw, None)"
      using lf less.prems(2) by (rule frame.put_ok)
    have "length ?p < length p" using False by simp
    from less.hyps [OF this, of ?c r1 "sent + length ?m"] f(4) less.prems(2)
    obtain c' cs ms r' where ih:
        "noiseConn_Write_loop e (sent + length ?m) ?p ?c = (c', (sent + length ?m) + length ?p, None)"
        "wr (nconn c') = wr (nconn ?c) @ concat (map prefixed cs)" "writable (nconn c')"
        "list_all (\<lambda>f. length f \<le> 65535) cs" "length cs = n_records ?p"
        "\<forall>cs2 ms2. decrypts d r' cs2 ms2 \<longrightarrow> decrypts d r1 (cs @ cs2) (ms @ ms2)"
        "[] \<notin> set ms" "concat ms = ?p" "R n (nsend c') r'"
      by (auto simp: writable_frame)
    have loop: "noiseConn_Write_loop e sent p c = (c', sent + length p, None)"
      using False f(1) w ih(1) by (subst noiseConn_Write_loop.simps) (simp add: Let_def)
    have "?m \<noteq> []" using False noiseMaxRecord_pos by (cases p; cases noiseMaxRecord) auto
    moreover have "?m @ ?p = p" by (simp add: min_def)
    ultimately show ?thesis
      using loop ih lf f(3) n_records_step [OF False]
      by (intro exI [of _ c'] exI [of _ "f # cs"] exI [of _ "?m # ms"] exI [of _ r']) auto
  qed
qed

text \<open>Several calls of \<open>Write\<close>, one after another.\<close>

fun noise_Write_all :: "'k cipher \<Rightarrow> bytes list \<Rightarrow> 'k noiseConn \<Rightarrow> 'k noiseConn \<times> (nat \<times> goerror option) list" where
  "noise_Write_all e [] c = (c, [])"
| "noise_Write_all e (p # ps) c =
     (case noiseConn_Write e p c of
        (c', n, err) \<Rightarrow> (case noise_Write_all e ps c' of (c'', rs) \<Rightarrow> (c'', (n, err) # rs)))"

lemma noise_Write_all_stream:
  assumes "sealed e d R"
  shows "R (sum_list (map n_records ps)) (nsend c) r \<Longrightarrow> writable (nconn c) \<Longrightarrow>
    \<exists>c' cs ms. noise_Write_all e ps c = (c', map (\<lambda>p. (length p, None)) ps) \<and>
      wr (nconn c') = wr (nconn c) @ concat (map prefixed cs) \<and>
      list_all (\<lambda>f. length f \<le> 65535) cs \<and> decrypts d r cs ms \<and> [] \<notin> set ms \<and> concat ms = concat ps"
proof (induction ps arbitrary: c r)
  case Nil
  show ?case by (auto intro!: exI [of _ "[]"])
next
  case (Cons p ps)
  from Cons.prems Write_loop_stream [OF assms, of p "sum_list (map n_records ps)" c r 0]
  obtain c1 cs1 ms1 r1 where 1: "noiseConn_Write_loop e 0 p c = (c1, length p, None)"
      "wr (nconn c1) = wr (nconn c) @ concat (map prefixed cs1)" "writable (nconn c1)"
      "list_all (\<lambda>f. length f \<le> 65535) cs1"
      "\<And>cs2 ms2. decrypts d r1 cs2 ms2 \<Longrightarrow> decrypts d r (cs1 @ cs2) (ms1 @ ms2)"
      "[] \<notin> set ms1" "concat ms1 = p" "R (sum_list (map n_records ps)) (nsend c1) r1"
    by auto
  from Cons.IH [OF 1(8,3)] obtain c' cs ms where 2:
      "noise_Write_all e ps c1 = (c', map (\<lambda>p. (length p, None)) ps)"
      "wr (nconn c') = wr (nconn c1) @ concat (map prefixed cs)"
      "list_all (\<lambda>f. length f \<le> 65535) cs" "decrypts d r1 cs ms" "[] \<notin> set ms" "concat ms = concat ps"
    by auto
  have "noise_Write_all e (p # ps) c = (c', map (\<lambda>p. (length p, None)) (p # ps))"
    using 1(1) 2(1) by (simp add: noiseConn_Write_def)
  with 1 2 show ?case
    by (intro exI [of _ c'] exI [of _ "cs1 @ cs"] exI [of _ "ms1 @ ms"]) auto
qed

text \<open>
  Property C6. The encrypted record layer carries the byte stream it is given: after any sequence
  of writes of any sizes (a write larger than a record is split, an empty one sends nothing), every
  write reports its full length, and the reader's \<open>io.ReadFull\<close> of any \<open>k\<close> of the bytes returns
  exactly the first \<open>k\<close> of them; the rest can be read afterwards.
\<close>
theorem noise_stream:
  assumes "sealed e d R" "R (sum_list (map n_records ps)) (nsend c) (nrecv c2)"
    and "writable (nconn c)" "wr (nconn c) = []"
    and "noise_Write_all e ps c = (c', results)"
    and "\<not> isclosed (nconn c2)" "rd (nconn c2) = wr (nconn c')" "npending c2 = []"
    and "k \<le> length (concat ps)"
  shows "results = map (\<lambda>p. (length p, None)) ps \<and>
    (\<exists>c3. io_ReadFull (noiseConn_Read d) k [] c2 = Some (c3, Inr (take k (concat ps))) \<and>
       noise_holds d c3 (drop k (concat ps)))"
proof -
  from noise_Write_all_stream [OF assms(1-3)] assms(4,5)
  obtain cs ms where w: "results = map (\<lambda>p. (length p, None)) ps"
      "wr (nconn c') = concat (map prefixed cs)" "list_all (\<lambda>f. length f \<le> 65535) cs"
      "decrypts d (nrecv c2) cs ms" "[] \<notin> set ms" "concat ms = concat ps" by auto
  have "noise_holds d c2 (concat ps)"
    unfolding noise_holds_def using w assms(6-8) by (intro exI [of _ cs] exI [of _ ms]) simp
  from noise_source.ReadFull_exact [OF this assms(9)] w(1) show ?thesis by auto
qed

text \<open>A cipher whose state counts messages, to run the definitions on.\<close>

definition counting_encrypt :: "nat cipher" where
  "counting_encrypt k m = (Suc k, Inr (m @ replicate 16 (word_of_nat k)))"

definition counting_decrypt :: "nat cipher" where
  "counting_decrypt k f =
     (if drop (length f - 16) f = replicate 16 (word_of_nat k) then (Suc k, Inr (take (length f - 16) f))
      else (k, Inl (Msg ''authentication failed'')))"

lemma counting_sealed: "sealed counting_encrypt counting_decrypt (\<lambda>n s r. s = r)"
  by (auto simp: sealed_def counting_encrypt_def counting_decrypt_def)

theorem noise_stream_witness:
  "\<exists>c3. io_ReadFull (noiseConn_Read counting_decrypt) 4 []
       \<lparr>nconn = fresh_conn (wr (nconn (fst (noise_Write_all counting_encrypt [[1, 2, 3], [], [4, 5]]
          \<lparr>nconn = fresh_conn [], nsend = 0, nrecv = 0, npending = []\<rparr>)))),
        nsend = 0, nrecv = 0, npending = []\<rparr> = Some (c3, Inr [1, 2, 3, 4])"
proof -
  let ?w = "\<lparr>nconn = fresh_conn [], nsend = 0, nrecv = 0, npending = []\<rparr> :: nat noiseConn"
  let ?r = "noise_Write_all counting_encrypt [[1, 2, 3], [], [4, 5]] ?w"
  show ?thesis
    using noise_stream [of counting_encrypt counting_decrypt "\<lambda>n s r. s = r" "[[1, 2, 3], [], [4, 5]]" ?w
        "\<lparr>nconn = fresh_conn (wr (nconn (fst ?r))), nsend = 0, nrecv = 0, npending = []\<rparr>" "fst ?r" "snd ?r" 4]
    by (auto simp: counting_sealed)
qed

end
