(* ===== verification/Config.thy ===== *)
theory Config
  imports Conn
begin

text \<open>
  The configuration of \<open>config.go\<close>, the KCP presets of \<open>kcpdisguise.go\<close> and the multiplexer settings of
  \<open>mux.go\<close>. The records have the fields of the Go structs, a \<open>Duration\<close> is its nanoseconds. The TOML
  decoder is an argument of \<open>LoadConfig\<close>. \<open>valid_config\<close> is what a configuration that passed \<open>validate\<close>
  satisfies; the theorems below show that \<open>validate\<close> accepts exactly those.
\<close>

section \<open>The configuration records\<close>

record PortMap =
  Listen :: string
  Target :: string
  UDP :: bool

record DisguiseConfig =
  DType :: string
  Enabled :: bool
  ListenAddr :: string
  ServerAddr :: string
  BackupAddrs :: "string list"
  Domain :: string
  Path :: string
  CertFile :: string
  KeyFile :: string
  DecoyRoot :: string
  Insecure :: bool
  KCPPreset :: string
  KCPMTU :: int
  KCPInterval :: int
  KCPResend :: int
  KCPNoDelay :: int
  KCPNoCongestion :: int
  KCPSndWnd :: int
  KCPRcvWnd :: int
  KCPAckNoDelay :: bool
  KCPDataShards :: int
  KCPParityShards :: int

record Config =
  Role :: string
  Direction :: string
  Mode :: string
  Token :: string
  Heartbeat :: int
  RetryMin :: int
  RetryMax :: int
  Nodelay :: bool
  KeepAlive :: int
  RecvBuf :: int
  SendBuf :: int
  DialTimeout :: int
  BufferSize :: int
  MSS :: int
  ReusePort :: bool
  DebugPprofAddr :: string
  MinIdle :: int
  MaxIdle :: int
  IdleGrace :: int
  MaxStreamsPerSession :: int
  MuxFrameSize :: int
  MuxRecvBuffer :: int
  MuxStreamBuffer :: int
  MuxKeepAlive :: int
  Disguise :: "DisguiseConfig list"
  Ports :: "PortMap list"

text \<open>A struct whose fields all have Go's zero value.\<close>

definition zero_disguise :: DisguiseConfig where
  "zero_disguise = \<lparr>DType = [], Enabled = False, ListenAddr = [], ServerAddr = [], BackupAddrs = [],
     Domain = [], Path = [], CertFile = [], KeyFile = [], DecoyRoot = [], Insecure = False,
     KCPPreset = [], KCPMTU = 0, KCPInterval = 0, KCPResend = 0, KCPNoDelay = 0,
     KCPNoCongestion = 0, KCPSndWnd = 0, KCPRcvWnd = 0, KCPAckNoDelay = False,
     KCPDataShards = 0, KCPParityShards = 0\<rparr>"

definition defaultConfig :: Config where
  "defaultConfig = \<lparr>Role = [], Direction = ''reverse'', Mode = ''tcpmux'', Token = [],
     Heartbeat = 5 * second, RetryMin = 1 * second, RetryMax = 30 * second, Nodelay = True,
     KeepAlive = 15 * second, RecvBuf = 256 * 1024, SendBuf = 256 * 1024, DialTimeout = 8 * second,
     BufferSize = 32 * 1024, MSS = 0, ReusePort = False, DebugPprofAddr = [],
     MinIdle = 4, MaxIdle = 16, IdleGrace = 20 * second, MaxStreamsPerSession = 64,
     MuxFrameSize = 32 * 1024, MuxRecvBuffer = 4 * 1024 * 1024, MuxStreamBuffer = 1 * 1024 * 1024,
     MuxKeepAlive = 10 * second, Disguise = [], Ports = []\<rparr>"

definition dialsOut :: "Config \<Rightarrow> bool" where
  "dialsOut c \<longleftrightarrow> ((Role c = ''server'') = (Direction c = ''direct''))"

section \<open>KCP presets\<close>

definition kcpPresets :: "string list" where
  "kcpPresets = [''balance'', ''turbo'', ''aggressive'', ''throughput'', ''custom'']"

definition validKCPPreset :: "string \<Rightarrow> bool" where
  "validKCPPreset name = list_ex (\<lambda>p. p = name \<and> p \<noteq> ''custom'') kcpPresets"

definition applyKCPPreset :: "DisguiseConfig \<Rightarrow> DisguiseConfig" where
  "applyKCPPreset d =
     (let d = d\<lparr>KCPMTU := 1250, KCPInterval := 10, KCPResend := 2, KCPNoDelay := 1,
                KCPNoCongestion := 1, KCPAckNoDelay := True\<rparr> in
      if KCPPreset d = ''balance'' then
        d\<lparr>KCPSndWnd := 512, KCPRcvWnd := 512, KCPDataShards := 10, KCPParityShards := 2\<rparr>
      else if KCPPreset d = ''turbo'' then
        d\<lparr>KCPSndWnd := 1024, KCPRcvWnd := 1024, KCPDataShards := 10, KCPParityShards := 3\<rparr>
      else if KCPPreset d = ''aggressive'' then
        d\<lparr>KCPSndWnd := 2048, KCPRcvWnd := 2048, KCPDataShards := 10, KCPParityShards := 4\<rparr>
      else if KCPPreset d = ''throughput'' then
        d\<lparr>KCPInterval := 20, KCPAckNoDelay := False,
          KCPSndWnd := 4096, KCPRcvWnd := 4096, KCPDataShards := 10, KCPParityShards := 1\<rparr>
      else d)"

text \<open>
  The calls \<open>applyKCPTuning\<close> makes on a KCP session, in order, as data.
\<close>

datatype kcp_call =
    SetNoDelay int int int int
  | SetWindowSize int int
  | SetMtu int
  | SetStreamMode bool
  | SetWriteDelay bool
  | SetACKNoDelay bool
  | SetDSCP int
  | SetReadBuffer int
  | SetWriteBuffer int

definition applyKCPTuning :: "DisguiseConfig \<Rightarrow> Config \<Rightarrow> kcp_call list" where
  "applyKCPTuning d cfg =
     [SetNoDelay (KCPNoDelay d) (KCPInterval d) (KCPResend d) (KCPNoCongestion d),
      SetWindowSize (KCPSndWnd d) (KCPRcvWnd d),
      SetMtu (KCPMTU d),
      SetStreamMode True, SetWriteDelay False, SetACKNoDelay (KCPAckNoDelay d), SetDSCP 46]
     @ (if RecvBuf cfg > 0 then [SetReadBuffer (RecvBuf cfg)] else [])
     @ (if SendBuf cfg > 0 then [SetWriteBuffer (SendBuf cfg)] else [])"

section \<open>Multiplexer settings\<close>

record mux_config =
  Version :: int
  KeepAliveInterval :: int
  KeepAliveTimeout :: int
  MaxFrameSize :: int
  MaxReceiveBuffer :: int
  MaxStreamBuffer :: int

text \<open>\<open>dflt\<close> is \<open>smux.DefaultConfig()\<close>; the keep-alive timeout is computed in 64 bits.\<close>

definition muxConfig :: "mux_config \<Rightarrow> Config \<Rightarrow> mux_config" where
  "muxConfig dflt cfg =
     dflt\<lparr>Version := 2, KeepAliveInterval := MuxKeepAlive cfg,
          KeepAliveTimeout := wrap64 (3 * MuxKeepAlive cfg), MaxFrameSize := MuxFrameSize cfg,
          MaxReceiveBuffer := MuxRecvBuffer cfg, MaxStreamBuffer := MuxStreamBuffer cfg\<rparr>"

section \<open>Validation\<close>

datatype config_error =
    BadMode string
  | BadDirection string
  | UdpNeedsReverse
  | EmptyToken
  | BadFrameSize int
  | BadPreset nat string
  | NoParity nat
  | BadType nat string
  | NoServerAddr nat string
  | NoListenAddr nat string
  | NoDisguise
  | NoPorts
  | MinIdleTooSmall
  | MaxIdleTooSmall

text \<open>The \<open>switch d.Type\<close> of the loop: the error, or the entry with its defaults filled in.\<close>

definition validate_type :: "nat \<Rightarrow> DisguiseConfig \<Rightarrow> config_error + DisguiseConfig" where
  "validate_type i d =
     (if DType d = ''plain'' \<or> DType d = ''noise'' then Inr d
      else if DType d = ''wss'' then Inr (if Path d = [] then d\<lparr>Path := ''/ws''\<rparr> else d)
      else if DType d = ''kcp'' then
        (if KCPPreset d \<noteq> [] \<and> KCPPreset d \<noteq> ''custom'' \<and> \<not> validKCPPreset (KCPPreset d)
         then Inl (BadPreset i (KCPPreset d))
         else if (KCPPreset d = [] \<or> KCPPreset d = ''custom'') \<and> KCPDataShards d > 0 \<and> KCPParityShards d = 0
         then Inl (NoParity i)
         else Inr d)
      else if DType d = ''quic'' then Inr d
      else Inl (BadType i (DType d)))"

definition validate_entry :: "bool \<Rightarrow> nat \<Rightarrow> DisguiseConfig \<Rightarrow> DisguiseConfig \<times> config_error option" where
  "validate_entry out i d =
     (case validate_type i d of
        Inl e \<Rightarrow> (d, Some e)
      | Inr d' \<Rightarrow>
          (d', if out then (if ServerAddr d' = [] then Some (NoServerAddr i (DType d')) else None)
               else (if ListenAddr d' = [] then Some (NoListenAddr i (DType d')) else None)))"

text \<open>
  The loop over \<open>c.Disguise\<close>, from index \<open>i\<close> with \<open>n\<close> enabled entries seen: the entries with the
  changes made in place, and the error or the number of enabled entries.
\<close>

fun validate_disguises ::
    "bool \<Rightarrow> nat \<Rightarrow> nat \<Rightarrow> DisguiseConfig list \<Rightarrow> DisguiseConfig list \<times> (config_error + nat)" where
  "validate_disguises out i n [] = ([], Inr n)"
| "validate_disguises out i n (d # ds) =
     (if \<not> Enabled d then
        (case validate_disguises out (Suc i) n ds of (ds', r) \<Rightarrow> (d # ds', r))
      else
        (case validate_entry out i d of
           (d', Some e) \<Rightarrow> (d' # ds, Inl e)
         | (d', None) \<Rightarrow>
             (case validate_disguises out (Suc i) (Suc n) ds of (ds', r) \<Rightarrow> (d' # ds', r))))"

definition validate :: "Config \<Rightarrow> Config \<times> config_error option" where
  "validate c =
     (if Mode c \<noteq> ''tcp'' \<and> Mode c \<noteq> ''tcpmux'' \<and> Mode c \<noteq> ''udp'' then (c, Some (BadMode (Mode c)))
      else if Direction c \<noteq> ''reverse'' \<and> Direction c \<noteq> ''direct'' then
        (c, Some (BadDirection (Direction c)))
      else if Mode c = ''udp'' \<and> Direction c \<noteq> ''reverse'' then (c, Some UdpNeedsReverse)
      else if Token c = [] then (c, Some EmptyToken)
      else if Mode c = ''tcpmux'' \<and> (MuxFrameSize c \<le> 0 \<or> MuxFrameSize c > 65535) then
        (c, Some (BadFrameSize (MuxFrameSize c)))
      else (case validate_disguises (dialsOut c) 0 0 (Disguise c) of
          (ds, Inl e) \<Rightarrow> (c\<lparr>Disguise := ds\<rparr>, Some e)
        | (ds, Inr nEnabled) \<Rightarrow>
            (c\<lparr>Disguise := ds\<rparr>,
             if nEnabled = 0 then Some NoDisguise
             else if Role c = ''server'' \<and> Ports c = [] then Some NoPorts
             else if MinIdle c < 1 then Some MinIdleTooSmall
             else if MaxIdle c < MinIdle c then Some MaxIdleTooSmall
             else None)))"

datatype load_error =
    DecodeFailed goerror
  | UnknownKeys "string list"
  | Invalid config_error

text \<open>
  \<open>decode\<close> is \<open>toml.DecodeFile\<close> on the given path: it starts from the configuration it is given and
  returns the result and the keys it could not place.
\<close>

definition LoadConfig ::
    "(string \<Rightarrow> Config \<Rightarrow> goerror + (Config \<times> string list)) \<Rightarrow> string \<Rightarrow> string \<Rightarrow> load_error + Config" where
  "LoadConfig decode path role =
     (case decode path (defaultConfig\<lparr>Role := role\<rparr>) of
        Inl e \<Rightarrow> Inl (DecodeFailed e)
      | Inr (cfg, undecoded) \<Rightarrow>
          if undecoded \<noteq> [] then Inl (UnknownKeys undecoded)
          else (case validate cfg of
                  (cfg', Some e) \<Rightarrow> Inl (Invalid e)
                | (cfg', None) \<Rightarrow> Inr cfg'))"

section \<open>What \<open>validate\<close> accepts\<close>

definition valid_disguise :: "bool \<Rightarrow> DisguiseConfig \<Rightarrow> bool" where
  "valid_disguise out d \<longleftrightarrow>
     DType d \<in> {''plain'', ''noise'', ''wss'', ''kcp'', ''quic''} \<and>
     (DType d = ''kcp'' \<longrightarrow>
        KCPPreset d \<in> {[], ''custom'', ''balance'', ''turbo'', ''aggressive'', ''throughput''} \<and>
        (KCPPreset d \<in> {[], ''custom''} \<and> KCPDataShards d > 0 \<longrightarrow> KCPParityShards d \<noteq> 0)) \<and>
     (if out then ServerAddr d \<noteq> [] else ListenAddr d \<noteq> [])"

definition valid_config :: "Config \<Rightarrow> bool" where
  "valid_config c \<longleftrightarrow>
     Mode c \<in> {''tcp'', ''tcpmux'', ''udp''} \<and> Direction c \<in> {''reverse'', ''direct''} \<and>
     (Mode c = ''udp'' \<longrightarrow> Direction c = ''reverse'') \<and> Token c \<noteq> [] \<and>
     (Mode c = ''tcpmux'' \<longrightarrow> 0 < MuxFrameSize c \<and> MuxFrameSize c < 2 ^ 16) \<and>
     (\<exists>d \<in> set (Disguise c). Enabled d) \<and>
     (\<forall>d \<in> set (Disguise c). Enabled d \<longrightarrow> valid_disguise (dialsOut c) d) \<and>
     (Role c = ''server'' \<longrightarrow> Ports c \<noteq> []) \<and> 1 \<le> MinIdle c \<and> MinIdle c \<le> MaxIdle c"

text \<open>The one field \<open>validate\<close> fills in.\<close>

definition default_path :: "DisguiseConfig \<Rightarrow> DisguiseConfig" where
  "default_path d = (if Enabled d \<and> DType d = ''wss'' \<and> Path d = [] then d\<lparr>Path := ''/ws''\<rparr> else d)"

lemma validKCPPreset_iff:
  "validKCPPreset p \<longleftrightarrow> p \<in> {''balance'', ''turbo'', ''aggressive'', ''throughput''}"
  by (auto simp: validKCPPreset_def kcpPresets_def)

lemma validate_entry_ok:
  assumes "Enabled d"
  shows "snd (validate_entry out i d) = None \<longleftrightarrow> valid_disguise out d"
    and "valid_disguise out d \<Longrightarrow> validate_entry out i d = (default_path d, None)"
  using assms
  by (auto simp: validate_entry_def validate_type_def valid_disguise_def default_path_def validKCPPreset_iff)

lemma validate_disguises_ok:
  "list_all (\<lambda>d. Enabled d \<longrightarrow> valid_disguise out d) ds \<Longrightarrow>
     validate_disguises out i n ds = (map default_path ds, Inr (n + length (filter Enabled ds)))"
proof (induction ds arbitrary: i n)
  case (Cons d ds)
  show ?case
  proof (cases "Enabled d")
    case True
    with Cons show ?thesis by (simp add: validate_entry_ok(2))
  next
    case False
    with Cons show ?thesis by (simp add: default_path_def)
  qed
qed simp

lemma validate_disguises_InrD:
  "validate_disguises out i n ds = (ds', Inr k) \<Longrightarrow> list_all (\<lambda>d. Enabled d \<longrightarrow> valid_disguise out d) ds"
proof (induction ds arbitrary: i n ds')
  case (Cons d ds)
  show ?case
  proof (cases "Enabled d")
    case True
    obtain d' r where e: "validate_entry out i d = (d', r)" by fastforce
    with Cons.prems True obtain ds'' where "r = None" "validate_disguises out (Suc i) (Suc n) ds = (ds'', Inr k)"
      by (auto split: option.splits prod.splits)
    with Cons.IH e True validate_entry_ok(1) [of d out i] show ?thesis by auto
  next
    case False
    with Cons show ?thesis by (auto split: prod.splits)
  qed
qed simp

lemma default_path_fields [simp]:
  "Enabled (default_path d) = Enabled d" "DType (default_path d) = DType d"
  "ServerAddr (default_path d) = ServerAddr d" "ListenAddr (default_path d) = ListenAddr d"
  "valid_disguise out (default_path d) = valid_disguise out d"
  "default_path (default_path d) = default_path d"
  by (simp_all add: default_path_def valid_disguise_def)

lemma map_default_path_idem [simp]: "map default_path (map default_path ds) = map default_path ds"
  by simp

lemma filter_nonempty_iff: "0 < length (filter P xs) \<longleftrightarrow> (\<exists>x\<in>set xs. P x)"
  by (induction xs) auto

lemma validate_None_iff:
  "validate c = (c', None) \<longleftrightarrow> valid_config c \<and> c' = c\<lparr>Disguise := map default_path (Disguise c)\<rparr>"
proof (cases "list_all (\<lambda>d. Enabled d \<longrightarrow> valid_disguise (dialsOut c) d) (Disguise c)")
  case True
  then have "validate_disguises (dialsOut c) 0 0 (Disguise c) =
      (map default_path (Disguise c), Inr (length (filter Enabled (Disguise c))))"
    by (simp add: validate_disguises_ok)
  with True show ?thesis
    by (auto simp: validate_def valid_config_def list_all_iff filter_empty_conv)
next
  case False
  then have "\<not> valid_config c" by (auto simp: valid_config_def list_all_iff)
  moreover have "snd (validate c) \<noteq> None"
    using False validate_disguises_InrD [of "dialsOut c" 0 0 "Disguise c"]
    by (auto simp: validate_def split: prod.splits sum.splits)
  ultimately show ?thesis by auto
qed

lemma valid_config_default_path [simp]:
  "valid_config (c\<lparr>Disguise := map default_path (Disguise c)\<rparr>) = valid_config c"
  by (simp add: valid_config_def dialsOut_def)

section \<open>Properties\<close>

text \<open>
  Property C23. \<open>validate\<close> accepts exactly the configurations that satisfy \<open>valid_config\<close> (mode and
  direction known and compatible, a token, a multiplexer frame that fits its 16-bit length, an
  enabled entry, and every enabled entry of a known type with the address its side needs); all it
  changes is the default path of enabled wss entries, and what it accepted it accepts again
  unchanged.
\<close>
theorem validate_accepts_exactly:
  "(snd (validate c) = None \<longleftrightarrow> valid_config c) \<and>
   (\<forall>c'. validate c = (c', None) \<longrightarrow>
      c' = c\<lparr>Disguise := map default_path (Disguise c)\<rparr> \<and> valid_config c' \<and> validate c' = (c', None))"
proof -
  have "snd (validate c) = None \<longleftrightarrow> (\<exists>c'. validate c = (c', None))"
    by (cases "validate c") auto
  then show ?thesis by (auto simp: validate_None_iff)
qed

definition sample_disguise :: DisguiseConfig where
  "sample_disguise = zero_disguise\<lparr>DType := ''wss'', Enabled := True, ServerAddr := ''a:443'', ListenAddr := '':443''\<rparr>"

definition sample_config :: "string \<Rightarrow> Config" where
  "sample_config role = defaultConfig\<lparr>Role := role, Token := ''secret'', Disguise := [sample_disguise],
     Ports := [\<lparr>Listen = '':80'', Target = ''127.0.0.1:80'', UDP = False\<rparr>]\<rparr>"

lemma sample_config_valid: "valid_config (sample_config role)"
  by (simp add: sample_config_def sample_disguise_def defaultConfig_def zero_disguise_def
      valid_config_def valid_disguise_def)

theorem validate_accepts_exactly_witness:
  "validate ((sample_config ''server'')\<lparr>Disguise := [sample_disguise\<lparr>Path := ''/ws''\<rparr>]\<rparr>) =
     ((sample_config ''server'')\<lparr>Disguise := [sample_disguise\<lparr>Path := ''/ws''\<rparr>]\<rparr>, None)"
proof -
  let ?c' = "(sample_config ''server'')\<lparr>Disguise := [sample_disguise\<lparr>Path := ''/ws''\<rparr>]\<rparr>"
  have "snd (validate (sample_config ''server'')) = None"
    using validate_accepts_exactly [of "sample_config ''server''"] sample_config_valid by blast
  moreover have "fst (validate (sample_config ''server'')) = ?c'"
    by (simp add: validate_def validate_entry_def validate_type_def sample_config_def sample_disguise_def
      defaultConfig_def zero_disguise_def dialsOut_def)
  ultimately have "validate (sample_config ''server'') = (?c', None)"
    by (metis prod.collapse)
  with validate_accepts_exactly [of "sample_config ''server''"] show ?thesis by blast
qed

text \<open>
  When the two ends load configurations with the same \<open>direction\<close>, exactly one of them
  dials out, and each has, for every enabled entry, the address it needs for that. The decoder
  is assumed to leave the role alone (the field is tagged \<open>toml:"-"\<close>).
\<close>
theorem loaded_ends_complement:
  assumes "LoadConfig dec1 p1 ''server'' = Inr s" "LoadConfig dec2 p2 ''client'' = Inr c"
    and "\<And>p r cfg u. dec1 p (defaultConfig\<lparr>Role := r\<rparr>) = Inr (cfg, u) \<Longrightarrow> Role cfg = r"
    and "\<And>p r cfg u. dec2 p (defaultConfig\<lparr>Role := r\<rparr>) = Inr (cfg, u) \<Longrightarrow> Role cfg = r"
    and "Direction s = Direction c"
  shows "dialsOut s = (\<not> dialsOut c) \<and>
    (\<forall>x \<in> {s, c}. \<forall>d \<in> set (Disguise x). Enabled d \<longrightarrow>
       (if dialsOut x then ServerAddr d \<noteq> [] else ListenAddr d \<noteq> [])) \<and>
    (\<exists>d \<in> set (Disguise s). Enabled d) \<and> (\<exists>d \<in> set (Disguise c). Enabled d) \<and> Ports s \<noteq> []"
proof -
  have load: "valid_config x \<and> Role x = r"
    if "LoadConfig dec p r = Inr x"
      and "\<forall>p r cfg u. dec p (defaultConfig\<lparr>Role := r\<rparr>) = Inr (cfg, u) \<longrightarrow> Role cfg = r" for dec p r x
  proof -
    from that(1) obtain cfg where "dec p (defaultConfig\<lparr>Role := r\<rparr>) = Inr (cfg, [])" "validate cfg = (x, None)"
      by (auto simp: LoadConfig_def split: sum.splits prod.splits if_splits option.splits)
    with that(2) show ?thesis by (auto simp: validate_None_iff)
  qed
  have "valid_config s" "Role s = ''server''" "valid_config c" "Role c = ''client''"
    using load [OF assms(1)] load [OF assms(2)] assms(3,4) by blast+
  then show ?thesis
    using assms(5) by (auto simp: valid_config_def valid_disguise_def dialsOut_def)
qed

theorem loaded_ends_complement_witness:
  "\<exists>s c. LoadConfig (\<lambda>p cfg. Inr (sample_config (Role cfg), [])) [] ''server'' = Inr s \<and>
     LoadConfig (\<lambda>p cfg. Inr (sample_config (Role cfg), [])) [] ''client'' = Inr c \<and>
     dialsOut s = (\<not> dialsOut c)"
proof -
  let ?dec = "\<lambda>(p :: string) cfg. Inr (sample_config (Role cfg), []) :: goerror + (Config \<times> string list)"
  have v: "validate (sample_config r) = ((sample_config r)\<lparr>Disguise := map default_path (Disguise (sample_config r))\<rparr>, None)" for r
    using sample_config_valid [of r] by (simp add: validate_None_iff)
  have role: "Role (sample_config r) = r" "Role (c\<lparr>Role := r\<rparr>) = r" for r c
    by (simp_all add: sample_config_def)
  have load: "LoadConfig ?dec [] r = Inr ((sample_config r)\<lparr>Disguise := map default_path (Disguise (sample_config r))\<rparr>)" for r
    by (simp add: LoadConfig_def v role)
  let ?s = "(sample_config ''server'')\<lparr>Disguise := map default_path (Disguise (sample_config ''server''))\<rparr>"
  let ?c = "(sample_config ''client'')\<lparr>Disguise := map default_path (Disguise (sample_config ''client''))\<rparr>"
  have dir: "Direction ?s = Direction ?c" by (simp add: sample_config_def)
  have dec: "Role cfg = r" if "?dec p (defaultConfig\<lparr>Role := r\<rparr>) = Inr (cfg, u)" for p r cfg u
    using that by (simp only: role sum.inject prod.inject) (metis role(1))
  have "dialsOut ?s = (\<not> dialsOut ?c)"
    by (rule conjunct1, rule loaded_ends_complement [OF load load dec dec dir])
  with load [of "''server''"] load [of "''client''"] show ?thesis by blast
qed

text \<open>
  The KCP presets: \<open>validKCPPreset\<close> accepts the four named ones, and each of them makes
  a complete entry: both windows equal and positive, forward error correction with parity, and an
  entry of type kcp with the preset is accepted by \<open>validate\<close>; \<open>custom\<close> and the empty preset
  leave the windows and the error correction as they were.
\<close>
theorem kcp_presets_complete:
  "(validKCPPreset (KCPPreset d) \<longrightarrow>
      KCPSndWnd (applyKCPPreset d) = KCPRcvWnd (applyKCPPreset d) \<and>
      512 \<le> KCPSndWnd (applyKCPPreset d) \<and> KCPDataShards (applyKCPPreset d) = 10 \<and>
      0 < KCPParityShards (applyKCPPreset d) \<and>
      KCPNoDelay (applyKCPPreset d) = 1 \<and> 10 \<le> KCPInterval (applyKCPPreset d) \<and>
      validate_type i ((applyKCPPreset d)\<lparr>DType := ''kcp''\<rparr>) = Inr ((applyKCPPreset d)\<lparr>DType := ''kcp''\<rparr>)) \<and>
   (\<not> validKCPPreset (KCPPreset d) \<longrightarrow>
      KCPSndWnd (applyKCPPreset d) = KCPSndWnd d \<and> KCPRcvWnd (applyKCPPreset d) = KCPRcvWnd d \<and>
      KCPDataShards (applyKCPPreset d) = KCPDataShards d \<and> KCPParityShards (applyKCPPreset d) = KCPParityShards d) \<and>
   applyKCPPreset (applyKCPPreset d) = applyKCPPreset d"
proof (cases "validKCPPreset (KCPPreset d)")
  case True
  then consider "KCPPreset d = ''balance''" | "KCPPreset d = ''turbo''"
    | "KCPPreset d = ''aggressive''" | "KCPPreset d = ''throughput''"
    by (auto simp: validKCPPreset_iff)
  then show ?thesis
    using True by cases (simp_all add: applyKCPPreset_def validate_type_def)
next
  case False
  then have "applyKCPPreset d' = d'\<lparr>KCPMTU := 1250, KCPInterval := 10, KCPResend := 2, KCPNoDelay := 1,
      KCPNoCongestion := 1, KCPAckNoDelay := True\<rparr>" if "KCPPreset d' = KCPPreset d" for d'
    using that by (simp add: applyKCPPreset_def validKCPPreset_iff)
  then show ?thesis using False by simp
qed

theorem kcp_presets_complete_witness:
  "0 < KCPParityShards (applyKCPPreset (zero_disguise\<lparr>KCPPreset := ''turbo''\<rparr>))"
  using kcp_presets_complete [of "zero_disguise\<lparr>KCPPreset := ''turbo''\<rparr>"]
  by (simp add: validKCPPreset_iff)

text \<open>
  The comment on \<open>KCPPreset\<close> says the preset fills the fields; loading does not do it: a kcp entry
  written by hand with only a preset keeps zero windows and no error correction.
\<close>
lemma preset_not_filled_at_load:
  assumes "validate c = (c', None)" "d \<in> set (Disguise c)" "Enabled d" "DType d = ''kcp''"
  shows "d \<in> set (Disguise c')"
proof -
  have "default_path d = d" using assms(4) by (simp add: default_path_def)
  then have "d \<in> default_path ` set (Disguise c)" using assms(2) by (metis imageI)
  then show ?thesis using assms(1) by (simp add: validate_None_iff)
qed

end
