(* ===== verification/Failover.thy ===== *)
theory Failover
  imports Config
begin

text \<open>
  Client-side failover: the profiles of \<open>profiles.go\<close> (which transport, and which of its addresses,
  to try next) and the \<open>backoff\<close> and \<open>notifier\<close> of \<open>util.go\<close>. A \<open>time.Time\<close> is the nanoseconds since
  Go's zero time, which is 0.
\<close>

section \<open>Profiles\<close>

definition shortLivedThreshold :: int where "shortLivedThreshold = 20 * second"
definition degradedRTTMs :: int where "degradedRTTMs = 4000"
definition degradedStreak :: int where "degradedStreak = 3"

record profileState =
  pcfg :: DisguiseConfig
  failCount :: int
  cooldownUntil :: int
  addrIdx :: int

definition profile_addr :: "profileState \<Rightarrow> string" where
  "profile_addr p =
     (if addrIdx p = 0 \<or> addrIdx p - 1 \<ge> int (length (BackupAddrs (pcfg p)))
      then ServerAddr (pcfg p)
      else BackupAddrs (pcfg p) ! nat (addrIdx p - 1))"

definition profile_label :: "profileState \<Rightarrow> string" where
  "profile_label p = DType (pcfg p) @ '' '' @ profile_addr p"

definition rotateAddr :: "profileState \<Rightarrow> profileState" where
  "rotateAddr p =
     (if BackupAddrs (pcfg p) = [] then p
      else p\<lparr>addrIdx := go_rem (addrIdx p + 1) (int (length (BackupAddrs (pcfg p))) + 1)\<rparr>)"

text \<open>\<open>dialProfile\<close> dials a copy of the entry with the current address in it.\<close>

definition dialProfile :: "(Config \<Rightarrow> DisguiseConfig \<Rightarrow> 'r) \<Rightarrow> Config \<Rightarrow> profileState \<Rightarrow> 'r" where
  "dialProfile dialDisguise cfg p = dialDisguise cfg ((pcfg p)\<lparr>ServerAddr := profile_addr p\<rparr>)"

definition buildProfiles :: "Config \<Rightarrow> profileState list" where
  "buildProfiles cfg =
     map (\<lambda>d. \<lparr>pcfg = d, failCount = 0, cooldownUntil = 0, addrIdx = 0\<rparr>) (filter Enabled (Disguise cfg))"

text \<open>
  The index of the profile \<open>pickProfile\<close> returns: profiles are shared by pointer, so the caller's later
  \<open>onFailure\<close> is an update at this index. \<open>None\<close> is the panic on an empty list.
\<close>

fun first_available :: "int \<Rightarrow> profileState list \<Rightarrow> nat option" where
  "first_available now [] = None"
| "first_available now (p # ps) =
     (if now > cooldownUntil p then Some 0 else map_option Suc (first_available now ps))"

definition pickProfile :: "int \<Rightarrow> profileState list \<Rightarrow> nat option" where
  "pickProfile now ps =
     (case first_available now ps of Some i \<Rightarrow> Some i | None \<Rightarrow> if ps = [] then None else Some 0)"

definition onFailure :: "int \<Rightarrow> bool \<Rightarrow> profileState \<Rightarrow> profileState" where
  "onFailure now escalate p =
     (let n = wrap64 (if escalate then failCount p + 3 else failCount p + 1);
          d0 = wrap64 (n * (5 * second));
          d = (if d0 > 3 * minute then 3 * minute else d0)
      in p\<lparr>failCount := n, cooldownUntil := now + d\<rparr>)"

definition onSuccess :: "profileState \<Rightarrow> profileState" where
  "onSuccess p = p\<lparr>failCount := 0, cooldownUntil := 0\<rparr>"

section \<open>Backoff\<close>

record backoff =
  bmin :: int
  bmax :: int
  bcur :: int

definition newBackoff :: "int \<Rightarrow> int \<Rightarrow> backoff" where
  "newBackoff lo hi =
     (let lo = (if lo \<le> 0 then second else lo);
          hi = (if hi < lo then lo else hi)
      in \<lparr>bmin = lo, bmax = hi, bcur = lo\<rparr>)"

text \<open>\<open>wait\<close>: the time slept (unless the context ends first), and the next delay.\<close>

definition backoff_wait :: "backoff \<Rightarrow> int \<times> backoff" where
  "backoff_wait b =
     (let c = wrap64 (bcur b * 2) in (bcur b, b\<lparr>bcur := (if c > bmax b then bmax b else c)\<rparr>))"

definition backoff_reset :: "backoff \<Rightarrow> backoff" where
  "backoff_reset b = b\<lparr>bcur := bmin b\<rparr>"

fun backoff_waits :: "nat \<Rightarrow> backoff \<Rightarrow> int list" where
  "backoff_waits 0 b = []"
| "backoff_waits (Suc n) b = (case backoff_wait b of (d, b') \<Rightarrow> d # backoff_waits n b')"

section \<open>Notifier\<close>

text \<open>
  The channels a notifier has handed out are numbered; the current one is open, those it replaced are
  closed.
\<close>

record notifier =
  ncur :: nat
  nclosed :: "nat set"

definition newNotifier :: notifier where
  "newNotifier = \<lparr>ncur = 0, nclosed = {}\<rparr>"

definition notifier_wait :: "notifier \<Rightarrow> nat" where
  "notifier_wait n = ncur n"

definition notifier_broadcast :: "notifier \<Rightarrow> notifier" where
  "notifier_broadcast n = n\<lparr>nclosed := insert (ncur n) (nclosed n), ncur := Suc (ncur n)\<rparr>"

definition notifier_ok :: "notifier \<Rightarrow> bool" where
  "notifier_ok n \<longleftrightarrow> nclosed n = {..<ncur n}"

lemma notifier_ok_new [simp]: "notifier_ok newNotifier"
  by (simp add: notifier_ok_def newNotifier_def)

lemma notifier_ok_broadcast [simp]: "notifier_ok n \<Longrightarrow> notifier_ok (notifier_broadcast n)"
  by (simp add: notifier_ok_def notifier_broadcast_def lessThan_Suc)

text \<open>
  A broadcast wakes whoever took the channel before it, and nobody who takes it after.
\<close>

lemma notifier_no_lost_wakeup:
  assumes "notifier_ok n"
  shows "notifier_wait n \<notin> nclosed n" "notifier_wait n \<in> nclosed (notifier_broadcast n)"
    "notifier_wait (notifier_broadcast n) \<notin> nclosed (notifier_broadcast n)"
  using assms by (simp_all add: notifier_ok_def notifier_broadcast_def notifier_wait_def)

section \<open>Lemmas\<close>

lemma first_available_Some:
  "first_available now ps = Some i \<longleftrightarrow>
     i < length ps \<and> now > cooldownUntil (ps ! i) \<and> (\<forall>j<i. \<not> now > cooldownUntil (ps ! j))"
proof (induction ps arbitrary: i)
  case (Cons p ps)
  then show ?case by (cases i) (auto simp: nth_Cons less_Suc_eq_0_disj split: nat.splits)
qed simp

lemma first_available_None:
  "first_available now ps = None \<longleftrightarrow> (\<forall>p\<in>set ps. \<not> now > cooldownUntil p)"
  by (induction ps) auto

lemma profile_frames [simp]:
  "pcfg (onFailure now e p) = pcfg p" "addrIdx (onFailure now e p) = addrIdx p"
  "pcfg (onSuccess p) = pcfg p" "addrIdx (onSuccess p) = addrIdx p"
  "pcfg (rotateAddr p) = pcfg p" "failCount (rotateAddr p) = failCount p"
  "cooldownUntil (rotateAddr p) = cooldownUntil p"
  by (simp_all add: onFailure_def onSuccess_def rotateAddr_def Let_def)

lemma pcfg_rotations [simp]: "pcfg ((rotateAddr ^^ k) p) = pcfg p"
  by (induction k) simp_all

lemma rotateAddr_step:
  assumes "addrIdx q = int (k mod Suc (length (BackupAddrs (pcfg q))))"
  shows "addrIdx (rotateAddr q) = int (Suc k mod Suc (length (BackupAddrs (pcfg q))))"
proof (cases "BackupAddrs (pcfg q) = []")
  case True
  with assms show ?thesis by (simp add: rotateAddr_def)
next
  case False
  let ?m = "Suc (length (BackupAddrs (pcfg q)))"
  have "go_rem (int (k mod ?m) + 1) (int (length (BackupAddrs (pcfg q))) + 1) = int ((k mod ?m + 1) mod ?m)"
    by (subst go_rem_nonneg) (simp_all add: zmod_int add.commute)
  also have "(k mod ?m + 1) mod ?m = Suc k mod ?m" by (simp add: mod_Suc_eq)
  finally show ?thesis using assms False by (simp add: rotateAddr_def)
qed

lemma addrIdx_rotations:
  assumes "addrIdx p = 0"
  shows "addrIdx ((rotateAddr ^^ k) p) = int (k mod Suc (length (BackupAddrs (pcfg p))))"
proof (induction k)
  case (Suc k)
  then show ?case using rotateAddr_step [of "(rotateAddr ^^ k) p" k] by simp
qed (simp add: assms)

lemma onFailure_bounds:
  assumes "0 \<le> failCount p" "failCount p < 10 ^ 9"
  shows "failCount (onFailure now e p) = failCount p + (if e then 3 else 1)"
    "cooldownUntil (onFailure now e p) =
       now + min (3 * minute) ((failCount p + (if e then 3 else 1)) * (5 * second))"
  using assms by (simp_all add: onFailure_def Let_def go_simps min_def)

section \<open>Properties\<close>

text \<open>
  The client tries the profiles in their configured order: \<open>pickProfile\<close> returns the
  first one that is not cooling down, and the most preferred one when all of them are.
\<close>
theorem pickProfile_most_preferred:
  assumes "ps \<noteq> []"
  shows "\<exists>i. pickProfile now ps = Some i \<and> i < length ps \<and>
    (if \<exists>p\<in>set ps. now > cooldownUntil p
     then now > cooldownUntil (ps ! i) \<and> (\<forall>j<i. now \<le> cooldownUntil (ps ! j))
     else i = 0)"
proof (cases "first_available now ps")
  case None
  then have "\<not> (\<exists>p\<in>set ps. now > cooldownUntil p)" by (simp add: first_available_None)
  with None assms show ?thesis by (simp add: pickProfile_def)
next
  case (Some i)
  then have "\<exists>p\<in>set ps. now > cooldownUntil p"
    by (metis first_available_None option.distinct(1))
  moreover have "i < length ps \<and> now > cooldownUntil (ps ! i) \<and> (\<forall>j<i. now \<le> cooldownUntil (ps ! j))"
    using Some by (simp add: first_available_Some not_less)
  moreover have "pickProfile now ps = Some i" using Some by (simp add: pickProfile_def)
  ultimately show ?thesis by (intro exI [of _ i]) simp
qed

definition sample_profiles :: "profileState list" where
  "sample_profiles =
     [\<lparr>pcfg = zero_disguise, failCount = 1, cooldownUntil = 100, addrIdx = 0\<rparr>,
      \<lparr>pcfg = zero_disguise\<lparr>ServerAddr := ''a'', BackupAddrs := [''b'', ''c'']\<rparr>, failCount = 0,
       cooldownUntil = 0, addrIdx = 0\<rparr>]"

theorem pickProfile_most_preferred_witness:
  "pickProfile 50 sample_profiles = Some 1"
proof -
  from pickProfile_most_preferred [of sample_profiles 50]
  obtain i where "pickProfile 50 sample_profiles = Some i" "i < 2" "cooldownUntil (sample_profiles ! i) < 50"
    by (auto simp: sample_profiles_def)
  then show ?thesis by (cases i) (auto simp: sample_profiles_def)
qed

text \<open>
  Rotation goes round the addresses of a profile, primary first and then the backups in
  their order: after \<open>k\<close> failures the profile presents address number \<open>k\<close> modulo their number, and that
  is the address \<open>dialProfile\<close> puts into the entry it dials.
\<close>
theorem rotation_visits_every_address:
  assumes "addrIdx p = 0"
  shows "profile_addr ((rotateAddr ^^ k) p) =
      (ServerAddr (pcfg p) # BackupAddrs (pcfg p)) ! (k mod Suc (length (BackupAddrs (pcfg p)))) \<and>
    dialProfile (\<lambda>cfg d. d) cfg ((rotateAddr ^^ k) p) =
      (pcfg p)\<lparr>ServerAddr := (ServerAddr (pcfg p) # BackupAddrs (pcfg p)) !
        (k mod Suc (length (BackupAddrs (pcfg p))))\<rparr>"
proof -
  let ?i = "k mod Suc (length (BackupAddrs (pcfg p)))"
  have "?i \<le> length (BackupAddrs (pcfg p))" using mod_less_divisor [of "Suc (length (BackupAddrs (pcfg p)))" k] by linarith
  then have "profile_addr ((rotateAddr ^^ k) p) = (ServerAddr (pcfg p) # BackupAddrs (pcfg p)) ! ?i"
    by (cases ?i) (simp_all add: profile_addr_def addrIdx_rotations [OF assms])
  then show ?thesis by (simp add: dialProfile_def)
qed

theorem rotation_visits_every_address_witness:
  "map (\<lambda>k. profile_addr ((rotateAddr ^^ k) (sample_profiles ! 1))) [0, 1, 2, 3] = [''a'', ''b'', ''c'', ''a'']"
  using rotation_visits_every_address [of "sample_profiles ! 1" 0]
    rotation_visits_every_address [of "sample_profiles ! 1" 1]
    rotation_visits_every_address [of "sample_profiles ! 1" 2]
    rotation_visits_every_address [of "sample_profiles ! 1" 3]
  by (simp add: sample_profiles_def)

text \<open>The failures of one profile, oldest first, each with its time and whether it was escalated.\<close>

definition after_failures :: "(int \<times> bool) list \<Rightarrow> profileState \<Rightarrow> profileState" where
  "after_failures es p = fold (\<lambda>(t, e). onFailure t e) es p"

lemma after_failures_count:
  "0 \<le> failCount p \<Longrightarrow> failCount p + 3 * int (length es) < 10 ^ 9 \<Longrightarrow>
     failCount (after_failures es p) = failCount p + (\<Sum>(t, e)\<leftarrow>es. if e then 3 else 1) \<and>
     failCount (after_failures es p) \<le> failCount p + 3 * int (length es) \<and>
     failCount p \<le> failCount (after_failures es p)"
proof (induction es arbitrary: p)
  case (Cons x es)
  obtain t e where x: "x = (t, e)" by fastforce
  have f: "failCount (onFailure t e p) = failCount p + (if e then 3 else 1)"
    using Cons.prems by (intro onFailure_bounds) simp_all
  with Cons.prems have "0 \<le> failCount (onFailure t e p)"
    "failCount (onFailure t e p) + 3 * int (length es) < 10 ^ 9" by (auto split: if_splits)
  with Cons.IH [of "onFailure t e p"] show ?case
    using f by (simp add: after_failures_def x)
qed (simp add: after_failures_def)

text \<open>
  A profile whose last failure was at \<open>t\<close> is left alone for \<open>5\<close> seconds per point of its
  failure count (a short-lived connection counts three), never more than three minutes, and is
  available again right after; one success clears the record.
\<close>
theorem cooldown_after_failures:
  assumes "failCount p = 0" "length es < 10 ^ 8"
  shows "let q = after_failures (es @ [(t, e)]) p;
             w = min (3 * minute) (5 * second * (\<Sum>(t, e)\<leftarrow>es @ [(t, e)]. if e then 3 else 1))
         in cooldownUntil q = t + w \<and> 5 * second \<le> w \<and> w \<le> 3 * minute \<and>
            first_available (t + w) [q] = None \<and> first_available (t + w + 1) [q] = Some 0 \<and>
            first_available 1 [onSuccess q] = Some 0 \<and> failCount (onSuccess q) = 0"
proof -
  let ?p = "after_failures es p" and ?s = "\<Sum>(t, e)\<leftarrow>es. if e then 3 else (1 :: int)"
  let ?w = "min (3 * minute) (5 * second * (\<Sum>(t, e)\<leftarrow>es @ [(t, e)]. if e then 3 else 1))"
  let ?q = "after_failures (es @ [(t, e)]) p"
  have n: "failCount ?p = ?s" "0 \<le> ?s" "failCount ?p < 10 ^ 9"
    using after_failures_count [of p es] assms by auto
  have q: "?q = onFailure t e ?p" by (simp add: after_failures_def)
  have c: "cooldownUntil ?q = t + ?w"
    unfolding q using n by (subst onFailure_bounds) (simp_all add: algebra_simps)
  have "5 * second \<le> ?w" "?w \<le> 3 * minute" using n(2) by auto
  with c show ?thesis
    unfolding Let_def by (simp add: onSuccess_def del: sum_list_append)
qed

theorem cooldown_after_failures_witness:
  "cooldownUntil (after_failures [(10, True), (20, False)] (sample_profiles ! 1)) = 20 + 20 * second"
  using cooldown_after_failures [of "sample_profiles ! 1" "[(10, True)]" 20 False]
  by (simp add: sample_profiles_def Let_def)

lemma backoff_waits_nth:
  assumes "0 < bcur b" "bcur b \<le> bmax b" "bmax b < 2 ^ 62"
  shows "i < n \<Longrightarrow> backoff_waits n b ! i = min (bmax b) (bcur b * 2 ^ i)"
  using assms
proof (induction n arbitrary: b i)
  case (Suc n)
  let ?b = "b\<lparr>bcur := min (bmax b) (bcur b * 2)\<rparr>"
  have w: "backoff_wait b = (bcur b, ?b)"
    using Suc.prems by (simp add: backoff_wait_def Let_def go_simps min_def)
  show ?case
  proof (cases i)
    case 0
    with w Suc.prems show ?thesis by simp
  next
    case (Suc j)
    have "backoff_waits n ?b ! j = min (bmax b) (min (bmax b) (bcur b * 2) * 2 ^ j)"
      using Suc.IH [of j ?b] Suc.prems \<open>i = Suc j\<close> by simp
    also have "\<dots> = min (bmax b) (bcur b * 2 ^ i)"
    proof (cases "bcur b * 2 \<le> bmax b")
      case False
      then have "bmax b \<le> bcur b * 2" by simp
      moreover have "bmax b * 1 \<le> bmax b * 2 ^ j" "bcur b * 2 * 1 \<le> bcur b * 2 * 2 ^ j"
        using Suc.prems by (intro mult_left_mono; simp)+
      ultimately show ?thesis using \<open>i = Suc j\<close> by (simp add: min_def)
    qed (simp add: \<open>i = Suc j\<close> min_def)
    finally show ?thesis using w Suc by simp
  qed
qed simp

text \<open>
  Reconnect delays double from \<open>retry_min\<close> up to \<open>retry_max\<close> and stay there: the \<open>i\<close>-th
  delay since the last reset is \<open>min hi (lo * 2^i)\<close>, whatever was configured (a minimum that is not
  positive is one second, a maximum below the minimum is the minimum).
\<close>
theorem backoff_doubles:
  assumes "lo < 2 ^ 62" "hi < 2 ^ 62" "i < n"
  shows "let b = newBackoff lo hi; lo' = (if lo \<le> 0 then second else lo); hi' = max hi lo'
         in backoff_waits n b ! i = min hi' (lo' * 2 ^ i) \<and>
            lo' \<le> backoff_waits n b ! i \<and> backoff_waits n b ! i \<le> hi' \<and>
            backoff_reset (snd (backoff_wait b)) = b"
proof -
  let ?b = "newBackoff lo hi" and ?lo = "if lo \<le> 0 then second else lo"
  let ?hi = "max hi ?lo"
  have b: "bmin ?b = ?lo" "bmax ?b = ?hi" "bcur ?b = ?lo"
    by (simp_all add: newBackoff_def Let_def max_def)
  have pos: "0 < ?lo" "?lo \<le> ?hi" "?hi < 2 ^ 62" using assms by auto
  have "backoff_waits n ?b ! i = min ?hi (?lo * 2 ^ i)"
    using backoff_waits_nth [of ?b i n] assms(3) pos unfolding b by blast
  moreover have "?lo * 1 \<le> ?lo * 2 ^ i" using pos by (intro mult_left_mono) simp_all
  moreover have "backoff_reset (snd (backoff_wait ?b)) = ?b"
    by (simp add: backoff_reset_def backoff_wait_def newBackoff_def Let_def)
  ultimately show ?thesis
    unfolding Let_def using pos by (intro conjI) (simp_all only: min_le_iff_disj min.bounded_iff, simp_all)
qed

theorem backoff_doubles_witness:
  "backoff_waits 6 (newBackoff second (10 * second)) ! 5 = 10 * second"
  using backoff_doubles [of second "10 * second" 5 6] by (simp add: Let_def)

end
