(* ===== verification/Disguises.thy ===== *)
theory Disguises
  imports Failover
begin

text \<open>
  Opening and accepting tunnel connections: \<open>disguise.go\<close> (the dispatch on the disguise type, and the
  accept loop that completes the Noise handshake) and \<open>dial.go\<close> (the socket options). A connection is an
  element of a type \<open>'c\<close>; dialers, listeners and the Noise wrapper are arguments.
\<close>

section \<open>Socket options\<close>

datatype tcp_call =
    TSetNoDelay bool
  | TSetKeepAlive bool
  | TSetKeepAlivePeriod int
  | TSetReadBuffer int
  | TSetWriteBuffer int
  | TSetMSS int

text \<open>The calls on the socket, in order; none when the connection is not a \<open>*net.TCPConn\<close>.\<close>

definition tuneConn :: "bool \<Rightarrow> bool \<Rightarrow> int \<Rightarrow> int \<Rightarrow> int \<Rightarrow> tcp_call list" where
  "tuneConn is_tcp nodelay keepAlive rcvBuf sndBuf =
     (if \<not> is_tcp then []
      else [TSetNoDelay nodelay]
        @ (if keepAlive > 0 then [TSetKeepAlive True, TSetKeepAlivePeriod keepAlive] else [TSetKeepAlive False])
        @ (if rcvBuf > 0 then [TSetReadBuffer rcvBuf] else [])
        @ (if sndBuf > 0 then [TSetWriteBuffer sndBuf] else []))"

definition tuneTunnelConn :: "bool \<Rightarrow> Config \<Rightarrow> tcp_call list" where
  "tuneTunnelConn is_tcp cfg =
     tuneConn is_tcp (Nodelay cfg) (KeepAlive cfg) (RecvBuf cfg) (SendBuf cfg)
     @ (if is_tcp \<and> MSS cfg > 0 then [TSetMSS (MSS cfg)] else [])"

text \<open>\<open>dialLocal\<close>: the backend connection and the options it gets.\<close>

definition dialLocal :: "(int \<Rightarrow> string \<Rightarrow> goerror + 'c) \<Rightarrow> Config \<Rightarrow> string \<Rightarrow> goerror + 'c \<times> tcp_call list" where
  "dialLocal dialTCP cfg target =
     (case dialTCP (DialTimeout cfg) target of
        Inl e \<Rightarrow> Inl e
      | Inr conn \<Rightarrow> Inr (conn, tuneConn True True (KeepAlive cfg) (RecvBuf cfg) (SendBuf cfg)))"

section \<open>Dialing\<close>

text \<open>
  The four ways to connect. \<open>wrapClient token c\<close> is \<open>wrapNoiseClient\<close>. The result of a dial is the
  connections it closed and the connection or the error it returns.
\<close>

record 'c dialers =
  netDial :: "int \<Rightarrow> string \<Rightarrow> goerror + 'c"
  wssDial :: "Config \<Rightarrow> DisguiseConfig \<Rightarrow> int \<Rightarrow> goerror + 'c"
  dialKCP :: "Config \<Rightarrow> DisguiseConfig \<Rightarrow> goerror + 'c"
  dialQUIC :: "Config \<Rightarrow> DisguiseConfig \<Rightarrow> goerror + 'c"
  wrapClient :: "string \<Rightarrow> 'c \<Rightarrow> goerror + 'c"

definition unknown_disguise :: "string \<Rightarrow> goerror" where
  "unknown_disguise t = Msg (''unknown disguise type '' @ t)"

definition dialDisguise :: "'c dialers \<Rightarrow> Config \<Rightarrow> DisguiseConfig \<Rightarrow> 'c list \<times> (goerror + 'c)" where
  "dialDisguise D cfg d =
     (if DType d = ''wss'' then ([], wssDial D cfg d (DialTimeout cfg))
      else if DType d = ''kcp'' then ([], dialKCP D cfg d)
      else if DType d = ''quic'' then ([], dialQUIC D cfg d)
      else if DType d = ''plain'' \<or> DType d = ''noise'' then
        (case netDial D (DialTimeout cfg) (ServerAddr d) of
           Inl e \<Rightarrow> ([], Inl e)
         | Inr conn \<Rightarrow>
             if DType d \<noteq> ''noise'' then ([], Inr conn)
             else (case wrapClient D (Token cfg) conn of
                     Inl e \<Rightarrow> ([conn], Inl e)
                   | Inr wrapped \<Rightarrow> ([], Inr wrapped)))
      else ([], Inl (unknown_disguise (DType d))))"

section \<open>Listening\<close>

datatype ('l, 'w, 'k, 'q) accepter = PlainAccepter 'l DisguiseConfig | WSSListener 'w | KCPListener 'k | QUICListener 'q

record ('l, 'w, 'k, 'q) listeners =
  listenTCP :: "string \<Rightarrow> bool \<Rightarrow> goerror + 'l"
  startWSSListener :: "Config \<Rightarrow> DisguiseConfig \<Rightarrow> goerror + 'w"
  startKCPListener :: "Config \<Rightarrow> DisguiseConfig \<Rightarrow> goerror + 'k"
  startQUICListener :: "Config \<Rightarrow> DisguiseConfig \<Rightarrow> goerror + 'q"

definition startDisguiseListener ::
    "('l, 'w, 'k, 'q) listeners \<Rightarrow> Config \<Rightarrow> DisguiseConfig \<Rightarrow> goerror + ('l, 'w, 'k, 'q) accepter" where
  "startDisguiseListener L cfg d =
     (if DType d = ''plain'' \<or> DType d = ''noise'' then
        map_sum id (\<lambda>ln. PlainAccepter ln d) (listenTCP L (ListenAddr d) (ReusePort cfg))
      else if DType d = ''wss'' then map_sum id WSSListener (startWSSListener L cfg d)
      else if DType d = ''kcp'' then map_sum id KCPListener (startKCPListener L cfg d)
      else if DType d = ''quic'' then map_sum id QUICListener (startQUICListener L cfg d)
      else Inl (unknown_disguise (DType d)))"

text \<open>
  \<open>plainAccepter.Accept\<close> on the results that \<open>ln.Accept\<close> is going to give, in order. The result is
  those left, the connections closed, and what is returned; \<open>None\<close> when the call still waits.
  \<open>wrap\<close> is \<open>wrapNoiseServer\<close>.
\<close>

fun plainAccepter_Accept ::
    "(string \<Rightarrow> 'c \<Rightarrow> goerror + 'c) \<Rightarrow> Config \<Rightarrow> DisguiseConfig \<Rightarrow> (goerror + 'c) list \<Rightarrow>
     (goerror + 'c) list \<times> 'c list \<times> (goerror + 'c) option" where
  "plainAccepter_Accept wrap cfg d [] = ([], [], None)"
| "plainAccepter_Accept wrap cfg d (Inl e # rs) = (rs, [], Some (Inl e))"
| "plainAccepter_Accept wrap cfg d (Inr conn # rs) =
     (if DType d \<noteq> ''noise'' then (rs, [], Some (Inr conn))
      else (case wrap (Token cfg) conn of
              Inl e \<Rightarrow> (case plainAccepter_Accept wrap cfg d rs of (rs', cl, r) \<Rightarrow> (rs', conn # cl, r))
            | Inr wrapped \<Rightarrow> (rs, [], Some (Inr wrapped))))"

text \<open>
  A scanner that fails the Noise handshake costs the listener nothing but its own
  connection: \<open>Accept\<close> skips and closes every connection that fails it and returns the first one that passes,
  wrapped, with the ones behind it still to come.
\<close>
theorem accept_skips_strangers:
  assumes "DType d = ''noise''" "\<forall>c\<in>set bad. \<exists>e. wrap (Token cfg) c = Inl e"
    and "wrap (Token cfg) good = Inr wrapped"
  shows "plainAccepter_Accept wrap cfg d (map Inr bad @ Inr good # rest) = (rest, bad, Some (Inr wrapped))"
  using assms(2) by (induction bad) (auto simp: assms(1,3))

theorem accept_skips_strangers_witness:
  "plainAccepter_Accept (\<lambda>t c. if c < 10 then Inl (Msg t) else Inr (c + 100)) defaultConfig
     (zero_disguise\<lparr>DType := ''noise''\<rparr>) [Inr 1, Inr 2, Inr (30 :: int), Inr 4] =
   ([Inr 4], [1, 2], Some (Inr 130))"
  using accept_skips_strangers [of "zero_disguise\<lparr>DType := ''noise''\<rparr>" "[1, 2]"
      "\<lambda>t c. if c < 10 then Inl (Msg t) else Inr (c + 100)" defaultConfig "30 :: int" 130 "[Inr 4]"]
  by simp

end
