(* ===== verification/Backends.thy ===== *)
theory Backends
  imports Config
begin

text \<open>
  The backend pool of \<open>backendpool.go\<close>: several targets behind one forwarded port, health-checked by the
  probe loop and picked in turn. A probe's result is an input; one round of the probe loop is a fold over the
  backends. Go's map lookups give the zero value for a missing key.
\<close>

definition backendFailThreshold :: int where "backendFailThreshold = 3"
definition backendProbeInterval :: int where "backendProbeInterval = 10 * second"
definition backendProbeTimeout :: int where "backendProbeTimeout = 3 * second"

record backendPool =
  backends :: "string list"
  healthy :: "string \<rightharpoonup> bool"
  fails :: "string \<rightharpoonup> int"
  pnext :: int

definition map_get :: "'v \<Rightarrow> ('k \<rightharpoonup> 'v) \<Rightarrow> 'k \<Rightarrow> 'v" where
  "map_get zero m k = (case m k of None \<Rightarrow> zero | Some v \<Rightarrow> v)"

lemma map_get_upd [simp]: "map_get z (m(k \<mapsto> v)) k' = (if k' = k then v else map_get z m k')"
  by (simp add: map_get_def)

definition newPool :: "string \<Rightarrow> backendPool" where
  "newPool target =
     (let bs = filter (\<lambda>b. b \<noteq> []) (map trimSpace (split_char target CHR ''|''))
      in \<lparr>backends = bs, healthy = fold (\<lambda>b m. m(b \<mapsto> True)) bs Map.empty, fails = Map.empty, pnext = 0\<rparr>)"

text \<open>The pools of the process, by target; the flag says whether a probe loop was started.\<close>

definition getBackendPool ::
    "string \<Rightarrow> (string \<rightharpoonup> backendPool) \<Rightarrow> backendPool \<times> (string \<rightharpoonup> backendPool) \<times> bool" where
  "getBackendPool target pools =
     (case pools target of
        Some p \<Rightarrow> (p, pools, False)
      | None \<Rightarrow> (let p = newPool target in (p, pools(target \<mapsto> p), length (backends p) > 1)))"

text \<open>The critical section of the probe loop for one backend, and one tick of the loop.\<close>

definition probed :: "string \<Rightarrow> bool \<Rightarrow> backendPool \<Rightarrow> backendPool" where
  "probed b ok p =
     (if ok then p\<lparr>fails := (fails p)(b \<mapsto> 0), healthy := (healthy p)(b \<mapsto> True)\<rparr>
      else let n = wrap64 (map_get 0 (fails p) b + 1);
               p = p\<lparr>fails := (fails p)(b \<mapsto> n)\<rparr>
           in if n \<ge> backendFailThreshold then p\<lparr>healthy := (healthy p)(b \<mapsto> False)\<rparr> else p)"

definition healthLoop_tick :: "(string \<Rightarrow> bool) \<Rightarrow> backendPool \<Rightarrow> backendPool" where
  "healthLoop_tick probeTCP p = fold (\<lambda>b. probed b (probeTCP b)) (backends p) p"

definition live :: "backendPool \<Rightarrow> string list" where
  "live p = filter (map_get False (healthy p)) (backends p)"

definition pick :: "backendPool \<Rightarrow> string \<times> backendPool" where
  "pick p =
     (if length (backends p) \<le> 1 then
        (case backends p of [] \<Rightarrow> ([], p) | b # _ \<Rightarrow> (b, p))
      else if live p = [] then (hd (backends p), p)
      else (live p ! nat (go_rem (pnext p) (int (length (live p)))), p\<lparr>pnext := wrap64 (pnext p + 1)\<rparr>))"

definition pickBackend :: "string \<Rightarrow> (string \<rightharpoonup> backendPool) \<Rightarrow> string \<times> (string \<rightharpoonup> backendPool)" where
  "pickBackend target pools =
     (case getBackendPool target pools of
        (p, pools', _) \<Rightarrow> (case pick p of (b, p') \<Rightarrow> (b, pools'(target \<mapsto> p'))))"

text \<open>Several picks in a row, with no probe in between.\<close>

fun picks :: "nat \<Rightarrow> backendPool \<Rightarrow> string list \<times> backendPool" where
  "picks 0 p = ([], p)"
| "picks (Suc n) p = (case pick p of (b, p') \<Rightarrow> (case picks n p' of (bs, p'') \<Rightarrow> (b # bs, p'')))"

section \<open>Health\<close>

text \<open>The number of failed probes since the last success, oldest result first.\<close>

definition trailing_failures :: "bool list \<Rightarrow> nat" where
  "trailing_failures rs = length (takeWhile Not (rev rs))"

lemma trailing_failures_simps [simp]:
  "trailing_failures [] = 0" "trailing_failures (rs @ [r]) = (if r then 0 else Suc (trailing_failures rs))"
  by (simp_all add: trailing_failures_def)

text \<open>What the pool records of backend \<open>b\<close> after the probe results \<open>rs\<close>.\<close>

definition records :: "string \<Rightarrow> bool list \<Rightarrow> backendPool \<Rightarrow> bool" where
  "records b rs p \<longleftrightarrow>
     map_get 0 (fails p) b = int (trailing_failures rs) \<and>
     map_get False (healthy p) b = (trailing_failures rs < 3)"

lemma probed_records:
  assumes "records b rs p" "length rs < 2 ^ 62"
  shows "records b (rs @ [ok]) (probed b ok p)"
proof -
  have "trailing_failures rs \<le> length rs"
    unfolding trailing_failures_def using length_takeWhile_le [of Not "rev rs"] by simp
  then have "trailing_failures rs < 4611686018427387904" using assms(2) by simp
  then have "wrap64 (int (trailing_failures rs) + 1) = int (trailing_failures rs) + 1"
    by (simp add: go_simps)
  with assms(1) show ?thesis
    by (auto simp: records_def probed_def Let_def backendFailThreshold_def)
qed

lemma probed_frame [simp]:
  "backends (probed b ok p) = backends p" "pnext (probed b ok p) = pnext p"
  "b' \<noteq> b \<Longrightarrow> records b' rs (probed b ok p) = records b' rs p"
  by (simp_all add: probed_def Let_def records_def)

lemma probes_frame:
  "backends (fold (\<lambda>b. probed b (ok b)) bs p) = backends p"
  "b' \<notin> set bs \<Longrightarrow> records b' rs (fold (\<lambda>b. probed b (ok b)) bs p) = records b' rs p"
  by (induction bs arbitrary: p) simp_all

lemma probes_records:
  "distinct bs \<Longrightarrow> b \<in> set bs \<Longrightarrow> records b rs p \<Longrightarrow> length rs < 2 ^ 62 \<Longrightarrow>
     records b (rs @ [ok b]) (fold (\<lambda>b. probed b (ok b)) bs p)"
proof (induction bs arbitrary: p)
  case (Cons x bs)
  show ?case
  proof (cases "x = b")
    case True
    with Cons.prems show ?thesis by (simp add: probes_frame(2) probed_records)
  next
    case False
    with Cons show ?thesis by simp
  qed
qed simp

lemma ticks_records:
  "distinct (backends p) \<Longrightarrow> b \<in> set (backends p) \<Longrightarrow> records b rs p \<Longrightarrow> length rs + length oks < 2 ^ 62 \<Longrightarrow>
     backends (fold healthLoop_tick oks p) = backends p \<and>
     records b (rs @ map (\<lambda>ok. ok b) oks) (fold healthLoop_tick oks p)"
proof (induction oks arbitrary: p rs)
  case (Cons ok oks)
  let ?p = "healthLoop_tick ok p"
  have "backends ?p = backends p" by (simp add: healthLoop_tick_def probes_frame)
  moreover have "records b (rs @ [ok b]) ?p"
    using Cons.prems by (auto simp: healthLoop_tick_def intro: probes_records)
  ultimately show ?case using Cons.IH [of ?p "rs @ [ok b]"] Cons.prems by simp
qed simp

lemma healthy_keep: "m b = Some True \<Longrightarrow> fold (\<lambda>b m. m(b \<mapsto> True)) bs m b = Some True"
  by (induction bs arbitrary: m) simp_all

lemma healthy_newPool: "b \<in> set bs \<Longrightarrow> fold (\<lambda>b m. m(b \<mapsto> True)) bs m b = Some True"
proof (induction bs arbitrary: m)
  case (Cons x bs)
  then show ?case by (cases "x = b") (simp_all add: healthy_keep del: fun_upd_apply, simp add: healthy_keep)
qed simp

lemma records_newPool: "b \<in> set (backends (newPool target)) \<Longrightarrow> records b [] (newPool target)"
  by (simp add: newPool_def Let_def records_def map_get_def healthy_newPool)



section \<open>Picking\<close>

lemma pick_cases:
  assumes "backends p \<noteq> []"
  shows "fst (pick p) \<in> set (backends p) \<and>
    (length (backends p) > 1 \<longrightarrow> 0 \<le> pnext p \<longrightarrow> live p \<noteq> [] \<longrightarrow> fst (pick p) \<in> set (live p))"
proof -
  have sub: "set (live p) \<subseteq> set (backends p)" by (auto simp: live_def)
  have idx: "live p ! nat (go_rem (pnext p) (int (length (live p)))) \<in> set (live p)" if "live p \<noteq> []"
  proof (rule nth_mem)
    have "go_rem (pnext p) (int (length (live p))) < int (length (live p))"
    proof -
      have "\<bar>pnext p\<bar> mod int (length (live p)) < int (length (live p))"
        "0 \<le> \<bar>pnext p\<bar> mod int (length (live p))" using that by auto
      then show ?thesis by (cases "pnext p" "0 :: int" rule: linorder_cases) (auto simp: go_rem_def)
    qed
    then show "nat (go_rem (pnext p) (int (length (live p)))) < length (live p)"
      using that by (simp only: zless_nat_conj [of _ "int (length (live p))", simplified]) simp
  qed
  show ?thesis
    using assms sub idx by (cases "backends p") (auto simp: pick_def)
qed

text \<open>The live list is walked round and round, from position \<open>pnext\<close>.\<close>

lemma picks_walk:
  assumes "length (backends p) > 1" "live p \<noteq> []" "0 \<le> pnext p" "pnext p + int n < 2 ^ 63"
  shows "fst (picks n p) = map (\<lambda>i. live p ! ((nat (pnext p) + i) mod length (live p))) [0..<n]"
  using assms
proof (induction n arbitrary: p)
  case (Suc n)
  let ?p = "p\<lparr>pnext := pnext p + 1\<rparr>"
  have i: "nat (go_rem (pnext p) (int (length (live p)))) = nat (pnext p) mod length (live p)"
    using Suc.prems by (simp add: go_simps nat_mod_distrib)
  have pick: "pick p = (live p ! (nat (pnext p) mod length (live p)), ?p)"
    using Suc.prems i by (simp add: pick_def go_simps)
  have "live ?p = live p" by (simp add: live_def)
  with Suc.IH [of ?p] Suc.prems
  have "fst (picks n ?p) = map (\<lambda>i. live p ! ((nat (pnext p + 1) + i) mod length (live p))) [0..<n]"
    by simp
  also have "\<dots> = map ((\<lambda>i. live p ! ((nat (pnext p) + i) mod length (live p))) \<circ> Suc) [0..<n]"
    using Suc.prems(3) by (simp add: nat_add_distrib comp_def)
  also have "\<dots> = map (\<lambda>i. live p ! ((nat (pnext p) + i) mod length (live p))) [1..<Suc n]"
    by (simp only: map_map [symmetric] map_Suc_upt One_nat_def)
  finally have "fst (picks (Suc n) p) = live p ! (nat (pnext p) mod length (live p)) #
      map (\<lambda>i. live p ! ((nat (pnext p) + i) mod length (live p))) [1..<Suc n]"
    by (cases "picks n ?p") (simp add: pick)
  then show ?case by (simp add: upt_conv_Cons del: upt_Suc)
qed simp

lemma count_list_rotate: "count_list (rotate m xs) x = count_list xs x"
  by (metis add.commute append_take_drop_id count_list_append rotate_drop_take)

lemma count_list_round:
  assumes "xs \<noteq> []"
  shows "count_list (map (\<lambda>i. xs ! ((m + i) mod length xs)) [0..<length xs]) x = count_list xs x"
proof -
  have "map (\<lambda>i. xs ! ((m + i) mod length xs)) [0..<length xs] = rotate m xs"
    by (intro nth_equalityI) (simp_all add: nth_rotate)
  then show ?thesis by (simp add: count_list_rotate)
qed

lemma count_list_rounds:
  assumes "xs \<noteq> []"
  shows "count_list (map (\<lambda>i. xs ! ((m + i) mod length xs)) [0..<k * length xs]) x = k * count_list xs x"
proof (induction k)
  case (Suc k)
  let ?f = "\<lambda>i. xs ! ((m + i) mod length xs)" and ?n = "length xs"
  have "[0..<Suc k * ?n] = [0..<k * ?n] @ map (\<lambda>i. i + k * ?n) [0..<?n]"
    using upt_add_eq_append [of 0 "k * ?n" ?n] by (simp add: map_add_upt add.commute)
  moreover have "map ?f (map (\<lambda>i. i + k * ?n) [0..<?n]) = map ?f [0..<?n]"
    by (simp add: add.assoc [symmetric])
  ultimately have "map ?f [0..<Suc k * ?n] = map ?f [0..<k * ?n] @ map ?f [0..<?n]"
    by (simp only: map_append)
  then show ?case using Suc count_list_round [OF assms, of m x] by (simp only: count_list_append) simp
qed simp

text \<open>
  Load balancing is fair: while the health of the backends does not change, any stretch of
  picks that is a whole number of rounds long picks every live backend the same number of times, once per
  round, and never a backend that is not live.
\<close>
theorem picks_fair:
  assumes "length (backends p) > 1" "live p \<noteq> []" "0 \<le> pnext p"
    and "pnext p + int (k * length (live p)) < 2 ^ 63"
  shows "count_list (fst (picks (k * length (live p)) p)) b = k * count_list (live p) b \<and>
    set (fst (picks (k * length (live p)) p)) \<subseteq> set (live p)"
proof -
  have w: "fst (picks (k * length (live p)) p) =
      map (\<lambda>i. live p ! ((nat (pnext p) + i) mod length (live p))) [0..<k * length (live p)]"
    using assms by (intro picks_walk) simp_all
  have "set (fst (picks (k * length (live p)) p)) \<subseteq> set (live p)"
    unfolding w using assms(2) by (auto intro!: nth_mem)
  then show ?thesis
    using assms(2) count_list_rounds [of "live p" "nat (pnext p)" k b] by (simp add: w)
qed

definition sample_pool :: backendPool where
  "sample_pool = \<lparr>backends = [''x'', ''y'', ''z''], healthy = [''x'' \<mapsto> True, ''y'' \<mapsto> False, ''z'' \<mapsto> True],
     fails = Map.empty, pnext = 5\<rparr>"

theorem picks_fair_witness:
  "count_list (fst (picks 4 sample_pool)) ''z'' = 2"
proof -
  have "live sample_pool = [''x'', ''z'']" by (simp add: live_def sample_pool_def map_get_def)
  then show ?thesis
    using picks_fair [of sample_pool 2 "''z''"] by (simp add: sample_pool_def)
qed

text \<open>
  A target always yields one of its own backends, and when every backend looks down the first
  configured one is tried all the same; the pool is shared between flows to the same target.
\<close>
theorem pickBackend_total:
  assumes "\<forall>t p. pools t = Some p \<longrightarrow> backends p = backends (newPool t)"
    and "backends (newPool target) \<noteq> []"
  shows "fst (pickBackend target pools) \<in> set (backends (newPool target)) \<and>
    (\<forall>p. pools target = Some p \<longrightarrow> live p = [] \<longrightarrow> fst (pickBackend target pools) = hd (backends (newPool target))) \<and>
    (\<forall>t p. snd (pickBackend target pools) t = Some p \<longrightarrow> backends p = backends (newPool t)) \<and>
    (\<forall>t. t \<noteq> target \<longrightarrow> snd (pickBackend target pools) t = pools t)"
proof -
  obtain p pools' f where g: "getBackendPool target pools = (p, pools', f)" by (metis prod_cases3)
  then have p: "backends p = backends (newPool target)" "\<forall>t. t \<noteq> target \<longrightarrow> pools' t = pools t"
      "\<forall>q. pools target = Some q \<longrightarrow> q = p"
    using assms(1) by (auto simp: getBackendPool_def Let_def split: option.splits)
  obtain b p' where pick: "pick p = (b, p')" by fastforce
  then have p': "backends p' = backends p"
    by (auto simp: pick_def split: list.splits if_splits)
  have "b \<in> set (backends p)" using pick_cases [of p] p(1) assms(2) pick by simp
  moreover have "live p = [] \<Longrightarrow> b = hd (backends p)"
  proof -
    assume "live p = []"
    from p(1) assms(2) obtain x xs where "backends p = x # xs" by (metis list.exhaust)
    with \<open>live p = []\<close> pick show "b = hd (backends p)" by (auto simp: pick_def split: if_splits)
  qed
  ultimately show ?thesis
    using p p' pick g assms(1) by (auto simp: pickBackend_def)
qed

theorem pickBackend_total_witness:
  "fst (pickBackend ''x|y'' Map.empty) \<in> {''x'', ''y''}"
proof -
  have "backends (newPool ''x|y'') = [''x'', ''y'']"
    by (simp add: newPool_def Let_def trimSpace_def is_space_def)
  moreover have "fst (pickBackend ''x|y'' Map.empty) \<in> set (backends (newPool ''x|y''))"
    using pickBackend_total [of Map.empty "''x|y''"] calculation by fastforce
  ultimately show ?thesis by simp
qed

end
