(* ===== verification/Console.thy ===== *)
theory Console
  imports Go_Prelude
begin

text \<open>
  The questions the interactive screens ask: \<open>menu.go\<close> (\<open>readLine\<close> and what is built on it) and \<open>abort.go\<close> (cancelling
  a wizard). A question is a function of the lines still to be typed. Its reply is an answer and the lines left, the
  cancellation that unwinds to \<open>runWizard\<close> (the panic with \<open>wizardCancelled\<close>), any other panic, or the exit of the
  process when the input is closed. What is printed is not modelled.
\<close>

section \<open>Questions\<close>

datatype 'a reply = Answer 'a "string list" | Cancelled "string list" | Exited | Panicked

type_synonym 'a ask = "string list \<Rightarrow> 'a reply"

definition answer :: "'a \<Rightarrow> 'a ask" where
  "answer x = (\<lambda>inp. Answer x inp)"

definition then_ask :: "'a ask \<Rightarrow> ('a \<Rightarrow> 'b ask) \<Rightarrow> 'b ask" where
  "then_ask m k = (\<lambda>inp. case m inp of
     Answer x rest \<Rightarrow> k x rest | Cancelled rest \<Rightarrow> Cancelled rest | Exited \<Rightarrow> Exited | Panicked \<Rightarrow> Panicked)"

definition readLine :: "string ask" where
  "readLine = (\<lambda>inp. case inp of [] \<Rightarrow> Exited | line # rest \<Rightarrow> Answer (trimSpace line) rest)"

definition readLineDefault :: "string \<Rightarrow> string ask" where
  "readLineDefault dflt = then_ask readLine (\<lambda>v. answer (if v = [] then dflt else v))"

text \<open>\<open>strings.ToLower\<close>, on the ASCII letters.\<close>

definition lower_char :: "char \<Rightarrow> char" where
  "lower_char c = (let n = (of_char c :: nat) in if 65 \<le> n \<and> n \<le> 90 then char_of (n + 32) else c)"

definition confirm :: "bool \<Rightarrow> bool ask" where
  "confirm dflt = then_ask readLine (\<lambda>line.
     let v = map lower_char line in
     answer (if v = [] then dflt else v = ''y'' \<or> v = ''yes''))"

definition pressEnter :: "unit ask" where
  "pressEnter = then_ask readLine (\<lambda>v. answer ())"

definition cancel :: "'a ask" where
  "cancel = (\<lambda>inp. Cancelled inp)"

definition panic :: "'a ask" where
  "panic = (\<lambda>inp. Panicked)"

definition askChoice :: "string \<Rightarrow> string ask" where
  "askChoice dflt = then_ask (readLineDefault dflt) (\<lambda>c. if c = ''0'' then cancel else answer c)"

text \<open>\<open>None\<close>: the wizard was cancelled, and the user is back at the main menu.\<close>

definition runWizard :: "'a ask \<Rightarrow> 'a option ask" where
  "runWizard fn = (\<lambda>inp.
     case fn inp of
       Answer x rest \<Rightarrow> Answer (Some x) rest
     | Cancelled rest \<Rightarrow> then_ask pressEnter (\<lambda>u. answer None) rest
     | Exited \<Rightarrow> Exited
     | Panicked \<Rightarrow> Panicked)"

section \<open>Numbers in answers\<close>

definition is_digit :: "char \<Rightarrow> bool" where
  "is_digit c \<longleftrightarrow> char_digit c \<noteq> None"

text \<open>
  \<open>fmt.Sscanf(s, "%d", \<dots>)\<close>: spaces, a sign, as many digits as there are, and no look at what follows them. \<open>None\<close> is
  the error.
\<close>

definition sscanf_d :: "string \<Rightarrow> int option" where
  "sscanf_d s =
     (let s = dropWhile is_space s;
          sgn = (case s of [] \<Rightarrow> [] | c # cs \<Rightarrow> if c = CHR ''-'' \<or> c = CHR ''+'' then [c] else [])
      in atoi (sgn @ takeWhile is_digit (drop (length sgn) s)))"

text \<open>\<open>None\<close> is the result -1.\<close>

definition indexFromChoice :: "string \<Rightarrow> nat \<Rightarrow> nat option" where
  "indexFromChoice choice n =
     (case sscanf_d choice of
        None \<Rightarrow> None
      | Some i \<Rightarrow> if i < 1 \<or> i > int n then None else Some (nat (i - 1)))"

definition parseIntDefault :: "string \<Rightarrow> int \<Rightarrow> int" where
  "parseIntDefault s dflt = (case atoi (trimSpace s) of None \<Rightarrow> dflt | Some v \<Rightarrow> v)"

definition askInt :: "string \<Rightarrow> int \<Rightarrow> int ask" where
  "askInt shown dflt = then_ask (readLineDefault shown) (\<lambda>s. answer (parseIntDefault s dflt))"

section \<open>Asking again\<close>

text \<open>
  A question that is asked again until its answer is accepted, at most \<open>n\<close> times. Every round reads a line, so
  the number of lines typed bounds the rounds (\<open>ask_until_unfold\<close>).
\<close>

primrec ask_again :: "nat \<Rightarrow> ('a \<Rightarrow> bool) \<Rightarrow> 'a ask \<Rightarrow> 'a ask" where
  "ask_again 0 P m = (\<lambda>inp. Exited)"
| "ask_again (Suc n) P m = then_ask m (\<lambda>x. if P x then answer x else ask_again n P m)"

definition ask_until :: "('a \<Rightarrow> bool) \<Rightarrow> 'a ask \<Rightarrow> 'a ask" where
  "ask_until P m = (\<lambda>inp. ask_again (Suc (length inp)) P m inp)"

section \<open>Reasoning about questions\<close>

text \<open>
  \<open>yields m P\<close>: whatever is typed, an answer of \<open>m\<close> satisfies \<open>P\<close>. \<open>consumes m\<close>: a reply of \<open>m\<close> has used up a line.
\<close>

definition yields :: "'a ask \<Rightarrow> ('a \<Rightarrow> bool) \<Rightarrow> bool" where
  "yields m P \<longleftrightarrow> (\<forall>inp x rest. m inp = Answer x rest \<longrightarrow> P x)"

definition consumes :: "'a ask \<Rightarrow> bool" where
  "consumes m \<longleftrightarrow> (\<forall>inp x rest. m inp = Answer x rest \<longrightarrow> length rest < length inp)"

definition keeps_input :: "'a ask \<Rightarrow> bool" where
  "keeps_input m \<longleftrightarrow> (\<forall>inp x rest. m inp = Answer x rest \<longrightarrow> length rest \<le> length inp)"

named_theorems ask_rules

lemma then_ask_Answer_iff:
  "then_ask m k inp = Answer y rest \<longleftrightarrow> (\<exists>x r. m inp = Answer x r \<and> k x r = Answer y rest)"
  by (auto simp: then_ask_def split: reply.splits)

lemma then_ask_answer [simp]: "then_ask (answer x) k = k x"
  by (simp add: then_ask_def answer_def)

lemma then_ask_assoc [simp]: "then_ask (then_ask m k) k' = then_ask m (\<lambda>x. then_ask (k x) k')"
  by (rule ext) (simp add: then_ask_def split: reply.splits)

lemma then_ask_if [simp]: "then_ask (if b then m else m') k = (if b then then_ask m k else then_ask m' k)"
  by simp

lemma yields_answer [ask_rules]: "P x \<Longrightarrow> yields (answer x) P"
  by (simp add: yields_def answer_def)

lemma yields_then [ask_rules]: "yields m Q \<Longrightarrow> (\<And>x. Q x \<Longrightarrow> yields (k x) P) \<Longrightarrow> yields (then_ask m k) P"
  unfolding yields_def then_ask_Answer_iff by blast

lemma yields_cancel [ask_rules]: "yields cancel P"
  by (simp add: yields_def cancel_def)

lemma yields_if [ask_rules]:
  "(b \<Longrightarrow> yields m P) \<Longrightarrow> (\<not> b \<Longrightarrow> yields m' P) \<Longrightarrow> yields (if b then m else m') P"
  by simp

lemma yields_mono: "yields m P \<Longrightarrow> (\<And>x. P x \<Longrightarrow> Q x) \<Longrightarrow> yields m Q"
  by (auto simp: yields_def)

lemma yields_any: "yields m (\<lambda>x. True)"
  by (simp add: yields_def)

lemma yields_bind: "(\<And>x. yields (k x) P) \<Longrightarrow> yields (then_ask m k) P"
  by (rule yields_then [OF yields_any])

lemma yields_ask_again [ask_rules]: "yields (ask_again n P m) P"
proof (induction n)
  case 0
  show ?case by (simp add: yields_def)
next
  case (Suc n)
  show ?case by (auto intro!: yields_bind yields_answer Suc)
qed

lemma yields_ask_again_both: "yields m Q \<Longrightarrow> yields (ask_again n P m) Q"
proof (induction n)
  case 0
  show ?case by (simp add: yields_def)
next
  case (Suc n)
  then show ?case by (auto intro!: yields_then [of m Q] yields_answer)
qed

lemma yields_until [ask_rules]:
  assumes "yields m Q"
  shows "yields (ask_until P m) (\<lambda>x. P x \<and> Q x)"
  unfolding yields_def ask_until_def
  using yields_ask_again [of _ P m] yields_ask_again_both [OF assms, of _ P] unfolding yields_def by blast

lemma yields_readLineDefault:
  assumes "dflt \<noteq> []"
  shows "yields (readLineDefault dflt) (\<lambda>v. v \<noteq> [])"
  unfolding readLineDefault_def by (intro yields_bind yields_answer) (simp add: assms)

lemma yields_askChoice: "yields (askChoice dflt) (\<lambda>c. c \<noteq> ''0'')"
  unfolding askChoice_def by (intro yields_bind yields_if yields_cancel yields_answer) simp

lemma consumes_readLine: "consumes readLine"
  by (auto simp: consumes_def readLine_def split: list.splits)

lemma keeps_answer: "keeps_input (answer x)"
  by (simp add: keeps_input_def answer_def)

lemma keeps_cancel: "keeps_input cancel"
  by (simp add: keeps_input_def cancel_def)

lemma consumes_keeps: "consumes m \<Longrightarrow> keeps_input m"
  by (fastforce simp: consumes_def keeps_input_def)

lemma consumes_then: "consumes m \<Longrightarrow> (\<And>x. keeps_input (k x)) \<Longrightarrow> consumes (then_ask m k)"
  by (fastforce simp: consumes_def keeps_input_def then_ask_Answer_iff)

lemma keeps_then: "keeps_input m \<Longrightarrow> (\<And>x. keeps_input (k x)) \<Longrightarrow> keeps_input (then_ask m k)"
  by (fastforce simp: keeps_input_def then_ask_Answer_iff)

lemma consumes_readLineDefault: "consumes (readLineDefault dflt)"
  unfolding readLineDefault_def by (intro consumes_then consumes_readLine keeps_answer)

lemma consumes_confirm: "consumes (confirm dflt)"
  unfolding confirm_def Let_def by (intro consumes_then consumes_readLine keeps_answer)

lemma consumes_askChoice: "consumes (askChoice dflt)"
  unfolding askChoice_def
  by (intro consumes_then consumes_readLineDefault) (simp add: keeps_answer keeps_cancel)

lemma ask_again_enough:
  assumes "consumes m"
  shows "length inp < n \<Longrightarrow> length inp < n' \<Longrightarrow> ask_again n P m inp = ask_again n' P m inp"
proof (induction n arbitrary: n' inp)
  case (Suc n)
  then obtain k where k: "n' = Suc k" by (cases n') auto
  show ?case
  proof (cases "m inp")
    case (Answer x rest)
    then have "length rest < length inp" using assms by (auto simp: consumes_def)
    then have "ask_again n P m rest = ask_again k P m rest"
      using Suc.IH [of rest k] Suc.prems k by linarith
    with Answer k show ?thesis by (simp add: then_ask_def)
  qed (simp_all add: k then_ask_def)
qed simp

text \<open>The bound on the rounds is never reached: asking again is the loop of the code.\<close>

lemma ask_until_unfold:
  assumes "consumes m"
  shows "ask_until P m inp =
    (case m inp of
       Answer x rest \<Rightarrow> if P x then Answer x rest else ask_until P m rest
     | Cancelled rest \<Rightarrow> Cancelled rest
     | Exited \<Rightarrow> Exited
     | Panicked \<Rightarrow> Panicked)"
proof (cases "m inp")
  case (Answer x rest)
  then have "length rest < length inp" using assms by (auto simp: consumes_def)
  then have "ask_again (length inp) P m rest = ask_again (Suc (length rest)) P m rest"
    by (intro ask_again_enough [OF assms]) auto
  with Answer show ?thesis by (simp add: ask_until_def then_ask_def answer_def)
qed (simp_all add: ask_until_def then_ask_def)

text \<open>A cancelled wizard never returns its result.\<close>

lemma runWizard_Some_iff: "runWizard fn inp = Answer (Some x) rest \<longleftrightarrow> fn inp = Answer x rest"
  by (auto simp: runWizard_def then_ask_def answer_def split: reply.splits)

lemma indexFromChoice_bound: "indexFromChoice choice n = Some i \<Longrightarrow> i < n"
  by (auto simp: indexFromChoice_def split: option.splits if_splits)

section \<open>Screens\<close>

text \<open>
  A screen shows its round again until the round says otherwise. As with questions, every round reads a line, so the
  lines typed bound the rounds (\<open>screen_unfold\<close>).
\<close>

primrec loop_rounds :: "nat \<Rightarrow> ('s \<Rightarrow> ('s \<times> bool) ask) \<Rightarrow> 's \<Rightarrow> 's ask" where
  "loop_rounds 0 round s = (\<lambda>inp. Exited)"
| "loop_rounds (Suc n) round s = then_ask (round s) (\<lambda>r. if snd r then loop_rounds n round (fst r) else answer (fst r))"

definition screen :: "('s \<Rightarrow> ('s \<times> bool) ask) \<Rightarrow> 's \<Rightarrow> 's ask" where
  "screen round s = (\<lambda>inp. loop_rounds (Suc (length inp)) round s inp)"

lemma consumesD: "consumes m \<Longrightarrow> m inp = Answer x rest \<Longrightarrow> length rest < length inp"
  unfolding consumes_def by blast

lemma loop_rounds_enough:
  assumes "\<And>s. consumes (round s)"
  shows "length inp < n \<Longrightarrow> length inp < n' \<Longrightarrow> loop_rounds n round s inp = loop_rounds n' round s inp"
proof (induction n arbitrary: n' s inp)
  case (Suc n)
  then obtain k where k: "n' = Suc k" by (cases n') auto
  show ?case
  proof (cases "round s inp")
    case (Answer r rest)
    then have "length rest < length inp" by (rule consumesD [OF assms])
    then have "loop_rounds n round (fst r) rest = loop_rounds k round (fst r) rest"
      using Suc.IH [of rest k "fst r"] Suc.prems k by linarith
    with Answer k show ?thesis by (simp add: then_ask_def)
  qed (simp_all add: k then_ask_def)
qed simp

lemma screen_unfold:
  assumes "\<And>s. consumes (round s)"
  shows "screen round s inp =
    (case round s inp of
       Answer r rest \<Rightarrow> if snd r then screen round (fst r) rest else Answer (fst r) rest
     | Cancelled rest \<Rightarrow> Cancelled rest
     | Exited \<Rightarrow> Exited
     | Panicked \<Rightarrow> Panicked)"
proof (cases "round s inp")
  case (Answer r rest)
  then have "length rest < length inp" by (rule consumesD [OF assms])
  then have "loop_rounds (length inp) round (fst r) rest = loop_rounds (Suc (length rest)) round (fst r) rest"
    by (intro loop_rounds_enough [OF assms]) auto
  with Answer show ?thesis by (simp add: screen_def then_ask_def answer_def)
qed (simp_all add: screen_def then_ask_def)

text \<open>What every round keeps of the state, the screen keeps.\<close>

lemma yields_loop_rounds:
  assumes "\<And>s. I s \<Longrightarrow> yields (round s) (\<lambda>r. I (fst r))"
  shows "I s \<Longrightarrow> yields (loop_rounds n round s) I"
proof (induction n arbitrary: s)
  case 0
  show ?case by (simp add: yields_def)
next
  case (Suc n)
  show ?case
    unfolding loop_rounds.simps by (rule yields_then [OF assms [OF Suc.prems]]) (auto intro: yields_if Suc.IH yields_answer)
qed

lemma yields_screen: "(\<And>s. I s \<Longrightarrow> yields (round s) (\<lambda>r. I (fst r))) \<Longrightarrow> I s \<Longrightarrow> yields (screen round s) I"
  using yields_loop_rounds [of I round s] unfolding screen_def yields_def by blast

section \<open>Where a cancellation or a panic can come from\<close>

text \<open>
  \<open>behaves C P m\<close>: \<open>m\<close> never puts lines back, is cancelled only if \<open>C\<close>, and panics only if \<open>P\<close>.
\<close>

definition behaves :: "bool \<Rightarrow> bool \<Rightarrow> 'a ask \<Rightarrow> bool" where
  "behaves C P m \<longleftrightarrow> (\<forall>inp. case m inp of
     Answer x rest \<Rightarrow> length rest \<le> length inp
   | Cancelled rest \<Rightarrow> C \<and> length rest \<le> length inp
   | Exited \<Rightarrow> True
   | Panicked \<Rightarrow> P)"

named_theorems behave_rules "introduction rules for behaves"

lemma behaves_iff:
  "behaves C P m \<longleftrightarrow>
     (\<forall>inp x rest. m inp = Answer x rest \<longrightarrow> length rest \<le> length inp) \<and>
     (\<forall>inp rest. m inp = Cancelled rest \<longrightarrow> C \<and> length rest \<le> length inp) \<and>
     (\<forall>inp. m inp = Panicked \<longrightarrow> P)"
  unfolding behaves_def by (simp split: reply.split) blast

lemma behavesD:
  assumes "behaves C P m"
  shows "m inp = Answer x rest \<Longrightarrow> length rest \<le> length inp"
    "m inp = Cancelled rest \<Longrightarrow> C \<and> length rest \<le> length inp" "m inp = Panicked \<Longrightarrow> P"
  using assms unfolding behaves_iff by blast+

lemma behaves_keeps: "behaves C P m \<Longrightarrow> keeps_input m"
  unfolding behaves_iff keeps_input_def by blast

lemma behaves_mono: "behaves C P m \<Longrightarrow> (C \<Longrightarrow> C') \<Longrightarrow> (P \<Longrightarrow> P') \<Longrightarrow> behaves C' P' m"
  unfolding behaves_iff by blast

lemma behaves_answer [behave_rules]: "behaves C P (answer x)"
  by (simp add: behaves_def answer_def)

lemma behaves_cancel [behave_rules]: "behaves True P cancel"
  by (simp add: behaves_def cancel_def)

lemma behaves_panic [behave_rules]: "behaves C True panic"
  by (simp add: behaves_def panic_def)

lemma behaves_readLine [behave_rules]: "behaves C P readLine"
  by (simp add: behaves_def readLine_def split: list.splits)

lemma behaves_then [behave_rules]:
  assumes m: "behaves C P m" and k: "\<And>x. behaves C P (k x)"
  shows "behaves C P (then_ask m k)"
  unfolding behaves_def
proof
  fix inp
  show "case then_ask m k inp of Answer x rest \<Rightarrow> length rest \<le> length inp
    | Cancelled rest \<Rightarrow> C \<and> length rest \<le> length inp | Exited \<Rightarrow> True | Panicked \<Rightarrow> P"
  proof (cases "m inp")
    case (Answer x r)
    have "length r \<le> length inp" by (rule behavesD(1) [OF m Answer])
    moreover note behavesD [OF k, of x r]
    ultimately show ?thesis by (cases "k x r") (auto simp: then_ask_def Answer intro: le_trans)
  next
    case (Cancelled r)
    then show ?thesis using behavesD(2) [OF m Cancelled] by (simp add: then_ask_def)
  next
    case Panicked
    then show ?thesis using behavesD(3) [OF m Panicked] by (simp add: then_ask_def)
  qed (simp add: then_ask_def)
qed

lemma behaves_if [behave_rules]: "behaves C P m \<Longrightarrow> behaves C P m' \<Longrightarrow> behaves C P (if b then m else m')"
  by simp

lemma behaves_option [behave_rules]:
  "behaves C P m \<Longrightarrow> (\<And>x. behaves C P (k x)) \<Longrightarrow> behaves C P (case r of None \<Rightarrow> m | Some x \<Rightarrow> k x)"
  by (cases r) simp_all

lemma behaves_sum [behave_rules]:
  "(\<And>x. behaves C P (m x)) \<Longrightarrow> (\<And>x. behaves C P (k x)) \<Longrightarrow> behaves C P (case r of Inl x \<Rightarrow> m x | Inr x \<Rightarrow> k x)"
  by (cases r) simp_all

lemma behaves_prod [behave_rules]: "(\<And>x y. behaves C P (k x y)) \<Longrightarrow> behaves C P (case r of (x, y) \<Rightarrow> k x y)"
  by (cases r) simp_all

lemma behaves_again:
  assumes "behaves C P m"
  shows "behaves C P (ask_again n Q m)"
proof (induction n)
  case 0
  show ?case by (simp add: behaves_def)
next
  case (Suc n)
  show ?case unfolding ask_again.simps by (intro behave_rules assms Suc)
qed

lemma behaves_until [behave_rules]: "behaves C P m \<Longrightarrow> behaves C P (ask_until Q m)"
  using behaves_again [of C P m] unfolding ask_until_def behaves_def by blast

lemma behaves_readLineDefault [behave_rules]: "behaves C P (readLineDefault dflt)"
  unfolding readLineDefault_def by (intro behave_rules)

lemma behaves_confirm [behave_rules]: "behaves C P (confirm dflt)"
  unfolding confirm_def Let_def by (intro behave_rules)

lemma behaves_pressEnter [behave_rules]: "behaves C P pressEnter"
  unfolding pressEnter_def by (intro behave_rules)

lemma behaves_askInt [behave_rules]: "behaves C P (askInt shown dflt)"
  unfolding askInt_def by (intro behave_rules)

lemma behaves_askChoice [behave_rules]: "behaves True P (askChoice dflt)"
  unfolding askChoice_def by (intro behave_rules)

text \<open>A wizard turns a cancellation into an answer.\<close>

lemma behaves_runWizard [behave_rules]:
  assumes "behaves True P fn"
  shows "behaves C P (runWizard fn)"
  unfolding behaves_def
proof
  fix inp
  show "case runWizard fn inp of Answer x rest \<Rightarrow> length rest \<le> length inp
    | Cancelled rest \<Rightarrow> C \<and> length rest \<le> length inp | Exited \<Rightarrow> True | Panicked \<Rightarrow> P"
  proof (cases "fn inp")
    case (Answer x r)
    then show ?thesis using behavesD(1) [OF assms Answer] by (simp add: runWizard_def)
  next
    case (Cancelled r)
    then have "length r \<le> length inp" using behavesD(2) [OF assms Cancelled] by simp
    with Cancelled show ?thesis
      by (cases r) (simp_all add: runWizard_def then_ask_def pressEnter_def readLine_def answer_def)
  next
    case Panicked
    then show ?thesis using behavesD(3) [OF assms Panicked] by (simp add: runWizard_def)
  qed (simp add: runWizard_def)
qed

lemma behaves_screen [behave_rules]:
  assumes "\<And>s. behaves C P (round s)"
  shows "behaves C P (screen round s)"
proof -
  have "behaves C P (loop_rounds n round s)" for n s
  proof (induction n arbitrary: s)
    case 0
    show ?case by (simp add: behaves_def)
  next
    case (Suc n)
    show ?case unfolding loop_rounds.simps by (intro behave_rules assms Suc)
  qed
  then show ?thesis unfolding screen_def behaves_def by blast
qed

lemma consumes_behaves: "consumes m \<Longrightarrow> (\<And>x. behaves C P (k x)) \<Longrightarrow> consumes (then_ask m k)"
  by (rule consumes_then) (auto intro: behaves_keeps)

end
