(* ===== verification/Ports_Spec.thy ===== *)
theory Ports_Spec
  imports Config Console
begin

text \<open>
  The port specifications of \<open>ports.go\<close>: parsing what the user types, and printing a \<open>PortMap\<close> back. The
  errors are a datatype with the data the messages quote.
\<close>

datatype port_error =
    WantPortEqTarget string
  | EmptyBackend string
  | WantPortColonPort string
  | BadPort string
  | NoPortsFound

definition validPort :: "string \<Rightarrow> bool" where
  "validPort s \<longleftrightarrow> (case atoi s of None \<Rightarrow> False | Some n \<Rightarrow> n > 0 \<and> n \<le> 65535)"

definition parsePortSpec :: "string \<Rightarrow> port_error + PortMap" where
  "parsePortSpec spec =
     (case index_char spec CHR ''='' of
        Some eq \<Rightarrow>
          (let port = trimSpace (take eq spec); target = trimSpace (drop (Suc eq) spec) in
           if \<not> validPort port \<or> target = [] then Inl (WantPortEqTarget spec)
           else if list_ex (\<lambda>b. trimSpace b = []) (split_char target CHR ''|'') then Inl (EmptyBackend spec)
           else Inr \<lparr>Listen = ''0.0.0.0:'' @ port, Target = target, UDP = False\<rparr>)
      | None \<Rightarrow>
          (case index_char spec CHR '':'' of
             Some colon \<Rightarrow>
               (let port = trimSpace (take colon spec); targetPort = trimSpace (drop (Suc colon) spec) in
                if \<not> validPort port \<or> \<not> validPort targetPort then Inl (WantPortColonPort spec)
                else Inr \<lparr>Listen = ''0.0.0.0:'' @ port, Target = ''127.0.0.1:'' @ targetPort, UDP = False\<rparr>)
           | None \<Rightarrow>
               if \<not> validPort spec then Inl (BadPort spec)
               else Inr \<lparr>Listen = ''0.0.0.0:'' @ spec, Target = ''127.0.0.1:'' @ spec, UDP = False\<rparr>))"

fun parse_parts :: "string list \<Rightarrow> PortMap list \<Rightarrow> port_error + PortMap list" where
  "parse_parts [] out = Inr out"
| "parse_parts (p # ps) out =
     (let part = trimSpace p in
      if part = [] then parse_parts ps out
      else (case parsePortSpec part of Inl e \<Rightarrow> Inl e | Inr pm \<Rightarrow> parse_parts ps (out @ [pm])))"

definition parsePortsLine :: "string \<Rightarrow> port_error + PortMap list" where
  "parsePortsLine line =
     (case parse_parts (split_char line CHR '','') [] of
        Inl e \<Rightarrow> Inl e
      | Inr out \<Rightarrow> if out = [] then Inl NoPortsFound else Inr out)"

definition formatPortSpec :: "PortMap \<Rightarrow> string" where
  "formatPortSpec pm =
     (let port = trimPrefix (Listen pm) ''0.0.0.0:'' in
      if Target pm = ''127.0.0.1:'' @ port then port
      else if hasPrefix (Target pm) ''127.0.0.1:'' then port @ '':'' @ trimPrefix (Target pm) ''127.0.0.1:''
      else port @ ''='' @ Target pm)"

text \<open>
  The loop of \<open>askPorts\<close>: a line that does not parse, and an empty line before the first port, are asked
  for again.
\<close>

fun askPorts_loop :: "PortMap list \<Rightarrow> PortMap list ask" where
  "askPorts_loop ports [] = Exited"
| "askPorts_loop ports (typed # rest) =
     (let line = trimSpace typed in
      if line = [] then (if ports = [] then askPorts_loop ports rest else Answer ports rest)
      else (case parsePortsLine line of
              Inl e \<Rightarrow> askPorts_loop ports rest
            | Inr parsed \<Rightarrow> askPorts_loop (ports @ parsed) rest))"

definition askPorts :: "bool \<Rightarrow> PortMap list ask" where
  "askPorts forceUDP =
     then_ask (askPorts_loop []) (\<lambda>ports.
       then_ask (if forceUDP then answer True else confirm False) (\<lambda>relayUDP.
         answer (if relayUDP then map (\<lambda>pm. pm\<lparr>UDP := True\<rparr>) ports else ports)))"

section \<open>The characters of a port number\<close>

lemma validPort_chars:
  assumes "validPort s" "c \<in> set s"
  shows "char_digit c \<noteq> None \<or> c = CHR ''+'' \<or> c = CHR ''-''"
proof -
  let ?body = "case s of [] \<Rightarrow> [] | c # cs \<Rightarrow> if c = CHR ''-'' \<or> c = CHR ''+'' then cs else s"
  obtain v where "digits_value 0 ?body = Some v"
    using assms(1) by (auto simp: validPort_def atoi_def Let_def split: option.splits if_splits)
  then have "char_digit c = None \<Longrightarrow> c \<notin> set ?body" using digits_value_chars by blast
  then show ?thesis using assms(2) by (cases "char_digit c = None"; cases s) (auto split: if_splits)
qed

lemma validPort_nonempty [simp]: "\<not> validPort []"
  by (simp add: validPort_def atoi_def)

lemma validPort_no_punctuation:
  assumes "validPort s"
  shows "CHR ''='' \<notin> set s" "CHR '':'' \<notin> set s" "CHR '','' \<notin> set s" "CHR ''|'' \<notin> set s"
    "\<forall>c\<in>set s. \<not> is_space c" "trimSpace s = s"
proof -
  have "char_digit c = None" if "c \<in> {CHR ''='', CHR '':'', CHR '','', CHR ''|''}" for c
    using that by (auto simp: char_digit_def)
  with validPort_chars [OF assms] show "CHR ''='' \<notin> set s" "CHR '':'' \<notin> set s" "CHR '','' \<notin> set s" "CHR ''|'' \<notin> set s"
    by fastforce+
  show sp: "\<forall>c\<in>set s. \<not> is_space c"
  proof
    fix c assume "c \<in> set s"
    with validPort_chars [OF assms] show "\<not> is_space c"
      by (fastforce simp: is_space_def char_digit_def Let_def split: if_splits)
  qed
  then show "trimSpace s = s" by (rule trimSpace_id)
qed

section \<open>What the parser accepts\<close>

text \<open>
  The port maps the parser makes: any address on a valid port, and a target without space at its ends
  that is made of non-empty backends.
\<close>

definition parsed_portmap :: "PortMap \<Rightarrow> bool" where
  "parsed_portmap pm \<longleftrightarrow>
     (\<exists>port. Listen pm = ''0.0.0.0:'' @ port \<and> validPort port) \<and>
     Target pm \<noteq> [] \<and> trimSpace (Target pm) = Target pm \<and>
     (\<forall>b\<in>set (split_char (Target pm) CHR ''|''). trimSpace b \<noteq> []) \<and> \<not> UDP pm"

lemma loopback_target:
  assumes "validPort q"
  shows "trimSpace (''127.0.0.1:'' @ q) = ''127.0.0.1:'' @ q"
    "split_char (''127.0.0.1:'' @ q) CHR ''|'' = [''127.0.0.1:'' @ q]"
proof -
  show "trimSpace (''127.0.0.1:'' @ q) = ''127.0.0.1:'' @ q"
    using validPort_no_punctuation(5) [OF assms] by (intro trimSpace_id) (auto simp: is_space_def)
  show "split_char (''127.0.0.1:'' @ q) CHR ''|'' = [''127.0.0.1:'' @ q]"
    using validPort_no_punctuation(4) [OF assms] by (intro split_char_none) auto
qed

lemma parsed_loopback:
  assumes "validPort p" "validPort q"
  shows "parsed_portmap \<lparr>Listen = ''0.0.0.0:'' @ p, Target = ''127.0.0.1:'' @ q, UDP = False\<rparr>"
  using assms(1) loopback_target [OF assms(2)] by (simp add: parsed_portmap_def)

lemma parsePortSpec_parsed:
  assumes "parsePortSpec spec = Inr pm"
  shows "parsed_portmap pm"
proof (cases "index_char spec CHR ''=''")
  case (Some eq)
  with assms show ?thesis
    by (auto simp: parsePortSpec_def Let_def parsed_portmap_def list_ex_iff split: if_splits)
next
  case None
  show ?thesis
  proof (cases "index_char spec CHR '':''")
    case (Some colon)
    with assms None parsed_loopback show ?thesis
      by (auto simp: parsePortSpec_def Let_def simp del: append.simps split: if_splits)
  next
    case None
    with assms \<open>index_char spec CHR ''='' = None\<close> parsed_loopback show ?thesis
      by (auto simp: parsePortSpec_def Let_def simp del: append.simps split: if_splits)
  qed
qed

section \<open>The three printed forms, parsed\<close>

lemma parse_port:
  assumes "validPort p"
  shows "parsePortSpec p = Inr \<lparr>Listen = ''0.0.0.0:'' @ p, Target = ''127.0.0.1:'' @ p, UDP = False\<rparr>"
  using assms validPort_no_punctuation(1,2) [OF assms] by (simp add: parsePortSpec_def index_char_None [THEN iffD2])

lemma parse_port_eq:
  assumes "validPort p" "t \<noteq> []" "trimSpace t = t"
    and "\<forall>b\<in>set (split_char t CHR ''|''). trimSpace b \<noteq> []"
  shows "parsePortSpec (p @ ''='' @ t) = Inr \<lparr>Listen = ''0.0.0.0:'' @ p, Target = t, UDP = False\<rparr>"
  using assms validPort_no_punctuation(1,6) [OF assms(1)]
  by (simp add: parsePortSpec_def index_char_append list_ex_iff)

lemma parse_port_colon:
  assumes "validPort p" "CHR ''='' \<notin> set r"
  shows "parsePortSpec (p @ '':'' @ r) =
    (if validPort (trimSpace r)
     then Inr \<lparr>Listen = ''0.0.0.0:'' @ p, Target = ''127.0.0.1:'' @ trimSpace r, UDP = False\<rparr>
     else Inl (WantPortColonPort (p @ '':'' @ r)))"
proof -
  have "index_char (p @ '':'' @ r) CHR ''='' = None"
    using assms validPort_no_punctuation(1) [OF assms(1)] by (simp add: index_char_None)
  then show ?thesis
    using assms(1) validPort_no_punctuation(2,6) [OF assms(1)] by (simp add: parsePortSpec_def index_char_append)
qed

lemma parse_port_colon_eq:
  assumes "validPort p" "CHR ''='' \<in> set r"
  shows "\<exists>e. parsePortSpec (p @ '':'' @ r) = Inl e"
proof -
  obtain r1 r2 where r: "r = r1 @ CHR ''='' # r2" "CHR ''='' \<notin> set r1"
    using split_list_first [OF assms(2)] by blast
  let ?s = "p @ '':'' @ r"
  have "?s = (p @ '':'' @ r1) @ CHR ''='' # r2" using r(1) by simp
  moreover have "CHR ''='' \<notin> set (p @ '':'' @ r1)"
    using r(2) validPort_no_punctuation(1) [OF assms(1)] by simp
  ultimately have i: "index_char ?s CHR ''='' = Some (length (p @ '':'' @ r1))"
    "take (length (p @ '':'' @ r1)) ?s = p @ '':'' @ r1"
    by (metis index_char_append, metis append_eq_conv_conj)
  have "\<not> validPort (trimSpace (p @ '':'' @ r1))"
  proof
    assume v: "validPort (trimSpace (p @ '':'' @ r1))"
    have "CHR '':'' \<in> set (trimSpace (p @ '':'' @ r1))"
    proof -
      have ns: "\<not> is_space CHR '':''" by (simp add: is_space_def)
      have "x \<in> set (dropWhile is_space xs)" if "x \<in> set xs" "\<not> is_space x" for x xs
        using that by (metis UnE set_append set_takeWhileD takeWhile_dropWhile_id)
      with ns show ?thesis by (simp add: trimSpace_def)
    qed
    with validPort_no_punctuation(2) [OF v] show False by blast
  qed
  with i show ?thesis by (simp only: parsePortSpec_def option.case Let_def) simp
qed

section \<open>Properties\<close>

lemma askPorts_nonempty: "yields (askPorts forceUDP) (\<lambda>ports. ports \<noteq> [])"
proof -
  have "ports \<noteq> []" if "askPorts_loop acc inp = Answer ports rest" for acc inp ports rest
    using that by (induction acc inp rule: askPorts_loop.induct) (auto simp: Let_def split: if_splits sum.splits)
  then have "yields (askPorts_loop []) (\<lambda>ports. ports \<noteq> [])" by (simp add: yields_def)
  then show ?thesis
    unfolding askPorts_def by (rule yields_then) (intro yields_bind yields_answer, simp)
qed


lemma sample_port: "validPort ''80''" "validPort ''2096''"
  by (simp_all add: validPort_def atoi_def char_digit_def)


text \<open>
  \<open>formatPortSpec\<close> shows a port map that came from the parser in a form that parses back to it
  exactly when its target is not a loopback address or is a loopback address followed by nothing but
  a valid port. A loopback target with a service name, or with several backends, does not come back.
\<close>
theorem formatPortSpec_roundtrip_iff:
  assumes "parsePortSpec spec = Inr pm"
  shows "parsePortSpec (formatPortSpec pm) = Inr pm \<longleftrightarrow>
    (hasPrefix (Target pm) ''127.0.0.1:'' \<longrightarrow> validPort (drop 10 (Target pm)))"
proof -
  from parsePortSpec_parsed [OF assms] obtain p where p: "Listen pm = ''0.0.0.0:'' @ p" "validPort p"
      and t: "Target pm \<noteq> []" "trimSpace (Target pm) = Target pm"
        "\<forall>b\<in>set (split_char (Target pm) CHR ''|''). trimSpace b \<noteq> []" and u: "\<not> UDP pm"
    unfolding parsed_portmap_def by blast
  have port: "trimPrefix (Listen pm) ''0.0.0.0:'' = p" unfolding p(1) by (rule trimPrefix_append)
  have pm: "pm = \<lparr>Listen = ''0.0.0.0:'' @ p, Target = Target pm, UDP = False\<rparr>"
    using p(1) u by (cases pm) simp
  show ?thesis
  proof (cases "hasPrefix (Target pm) ''127.0.0.1:''")
    case False
    then have "Target pm \<noteq> ''127.0.0.1:'' @ p" using hasPrefix_append by metis
    then have "formatPortSpec pm = p @ ''='' @ Target pm"
      using False by (simp add: formatPortSpec_def port)
    then show ?thesis using parse_port_eq [OF p(2) t] pm False by simp
  next
    case True
    then obtain r where r: "Target pm = ''127.0.0.1:'' @ r" unfolding hasPrefix_iff by blast
    have d: "drop 10 (Target pm) = r" "trimPrefix (Target pm) ''127.0.0.1:'' = r"
      unfolding r by (simp, rule trimPrefix_append)
    show ?thesis
    proof (cases "r = p")
      case True
      then have "formatPortSpec pm = p" by (simp add: formatPortSpec_def port r)
      then show ?thesis using parse_port [OF p(2)] pm p(2) d(1) True r by simp
    next
      case False
      then have f: "formatPortSpec pm = p @ '':'' @ r"
        using True d(2) r by (simp add: formatPortSpec_def port)
      show ?thesis
      proof (cases "CHR ''='' \<in> set r")
        case True
        then have "\<not> validPort r" using validPort_no_punctuation(1) by blast
        then show ?thesis using parse_port_colon_eq [OF p(2) True] d(1) \<open>hasPrefix _ _\<close> by (auto simp: f)
      next
        case eq: False
        have "parsePortSpec (formatPortSpec pm) = Inr pm \<longleftrightarrow> validPort (trimSpace r) \<and> trimSpace r = r"
        proof -
          have "(\<lparr>Listen = ''0.0.0.0:'' @ p, Target = ''127.0.0.1:'' @ trimSpace r, UDP = False\<rparr> = pm) = (trimSpace r = r)"
            using p(1) u r by (cases pm) auto
          then show ?thesis using parse_port_colon [OF p(2) eq] by (simp only: f) simp
        qed
        also have "\<dots> \<longleftrightarrow> validPort r" using validPort_no_punctuation(6) by auto
        finally show ?thesis using d(1) \<open>hasPrefix _ _\<close> by simp
      qed
    qed
  qed
qed

theorem formatPortSpec_roundtrip_iff_witness:
  "\<exists>pm. parsePortSpec ''80=127.0.0.1:2096|127.0.0.1:2097'' = Inr pm \<and> parsePortSpec (formatPortSpec pm) \<noteq> Inr pm"
proof -
  let ?t = "''127.0.0.1:2096|127.0.0.1:2097''"
  let ?pm = "\<lparr>Listen = ''0.0.0.0:80'', Target = ?t, UDP = False\<rparr>"
  have "parsePortSpec (''80'' @ ''='' @ ?t) = Inr ?pm"
    by (subst parse_port_eq) (simp_all add: sample_port trimSpace_def is_space_def)
  then have p: "parsePortSpec ''80=127.0.0.1:2096|127.0.0.1:2097'' = Inr ?pm" by simp
  have "\<not> validPort (drop 10 ?t)" by (simp add: validPort_def atoi_def char_digit_def)
  moreover have "hasPrefix ?t ''127.0.0.1:''" by (simp add: hasPrefix_def)
  ultimately show ?thesis
    using formatPortSpec_roundtrip_iff [OF p] p by (intro exI [of _ ?pm]) simp
qed

end
