(* ===== verification/Server.thy ===== *)
theory Server
  imports Wire Disguises
begin

text \<open>
  The Iran-side role, \<open>server.go\<close>. Connections are numbered; a mux session has the number of the connection
  it runs over, and so has the outgoing channel \<open>runControl\<close> makes for a control connection. Every
  critical section, channel operation and atomic counter update of the source is one function on the record
  \<open>server\<close>. The relation \<open>sstep\<close> interleaves them: a control connection and a forwarded flow each have
  a program counter (\<open>ctl\<close>, \<open>flow\<close>), and one step is one of those functions.
\<close>

section \<open>The server's state\<close>

record server =
  s_controlConn :: "nat option"
  s_epoch :: "bytes option"
  s_ctrlOut :: "nat option"
  s_curDisguise :: string
  s_outCh :: "nat \<Rightarrow> byte chan"
  s_poolQueue :: "nat chan"
  s_sessions :: "nat list"
  s_streams :: "nat \<Rightarrow> int"
  s_sessClosed :: "nat set"
  s_resource :: notifier
  s_closed :: "nat set"

definition NewServer :: server where
  "NewServer = \<lparr>s_controlConn = None, s_epoch = None, s_ctrlOut = None, s_curDisguise = [],
     s_outCh = (\<lambda>c. make_chan 64), s_poolQueue = make_chan 4096, s_sessions = [], s_streams = (\<lambda>k. 0),
     s_sessClosed = {}, s_resource = newNotifier, s_closed = {}\<rparr>"

definition currentEpoch :: "server \<Rightarrow> bytes option" where
  "currentEpoch s = s_epoch s"

section \<open>Admission\<close>

datatype admit_outcome = AdmitNothing | AdmitFailed | AdmitBusy | AdmitControl bytes | AdmitPool

text \<open>The critical section of \<open>admitTunnelConn\<close> for a control connection.\<close>

definition admit_control :: "bytes option \<Rightarrow> server \<Rightarrow> admit_outcome" where
  "admit_control rnd s =
     (if s_controlConn s \<noteq> None then AdmitBusy
      else (case randomBytes rnd of Inl e \<Rightarrow> AdmitFailed | Inr epoch \<Rightarrow> AdmitControl epoch))"

text \<open>
  \<open>admitTunnelConn\<close> up to the point where it hands the connection on (to \<open>runControl\<close> or to
  \<open>admitPoolConn\<close>), seen from the connection.
\<close>

definition admitTunnelConn ::
    "mac \<Rightarrow> bytes option \<Rightarrow> bytes option \<Rightarrow> Config \<Rightarrow> server \<Rightarrow> conn \<Rightarrow> conn \<times> admit_outcome" where
  "admitTunnelConn mac rnd rnd2 cfg s conn =
     (case serverHandshake mac rnd (Token cfg) (currentEpoch s) conn of
        (c1, Inl e) \<Rightarrow> (conn_close c1, AdmitFailed)
      | (c1, Inr res) \<Rightarrow>
          if arole res = roleControl then
            (case admit_control rnd2 s of
               AdmitControl epoch \<Rightarrow>
                 (case serverAckControl epoch c1 of
                    (c2, Some e) \<Rightarrow> (conn_close c2, AdmitFailed)
                  | (c2, None) \<Rightarrow> (c2, AdmitControl epoch))
             | AdmitBusy \<Rightarrow> (conn_close (serverRefuse ackBusy c1), AdmitBusy)
             | out \<Rightarrow> (conn_close c1, out))
          else if arole res = rolePool then
            (case serverAckPool c1 of
               (c2, Some e) \<Rightarrow> (conn_close c2, AdmitFailed)
             | (c2, None) \<Rightarrow> (c2, AdmitPool))
          else (c1, AdmitNothing))"

section \<open>A control-channel generation\<close>

definition runControl_publish :: "nat \<Rightarrow> bytes \<Rightarrow> string \<Rightarrow> server \<Rightarrow> server" where
  "runControl_publish conn epoch dtype s =
     s\<lparr>s_outCh := (s_outCh s)(conn := make_chan 64), s_controlConn := Some conn, s_epoch := Some epoch,
       s_ctrlOut := Some conn, s_curDisguise := dtype\<rparr>"

text \<open>What the reading loop does with a byte.\<close>

datatype read_next = ReadOn | AnswerPong | EndControl

definition runControl_read :: "byte \<Rightarrow> read_next" where
  "runControl_read b =
     (if b = sigClose then EndControl else if b = sigHeartbeat then AnswerPong else ReadOn)"

text \<open>\<open>outCh <- sigPong\<close>: \<open>None\<close> while the send blocks. The writer takes from the other end.\<close>

definition runControl_pong :: "nat \<Rightarrow> server \<Rightarrow> server option" where
  "runControl_pong conn s =
     (case try_send (s_outCh s conn) sigPong of
        Sent ch \<Rightarrow> Some (s\<lparr>s_outCh := (s_outCh s)(conn := ch)\<rparr>)
      | _ \<Rightarrow> None)"

definition runControl_take :: "nat \<Rightarrow> server \<Rightarrow> (byte \<times> server) option" where
  "runControl_take conn s =
     (case try_recv (s_outCh s conn) of
        Some (b, ch) \<Rightarrow> Some (b, s\<lparr>s_outCh := (s_outCh s)(conn := ch)\<rparr>)
      | None \<Rightarrow> None)"

text \<open>\<open>close(s.ctrlOut)\<close> panics on a nil and on a closed channel; \<open>None\<close> is that panic.\<close>

definition close_ctrlOut :: "server \<Rightarrow> server option" where
  "close_ctrlOut s =
     (case s_ctrlOut s of
        None \<Rightarrow> None
      | Some c \<Rightarrow>
          if cclosed (s_outCh s c) then None
          else Some (s\<lparr>s_outCh := (s_outCh s)(c := (s_outCh s c)\<lparr>cclosed := True\<rparr>)\<rparr>))"

definition runControl_cleanup :: "nat \<Rightarrow> server \<Rightarrow> server option" where
  "runControl_cleanup conn s =
     (if s_controlConn s = Some conn then
        (case close_ctrlOut (s\<lparr>s_controlConn := None, s_epoch := None, s_curDisguise := []\<rparr>) of
           None \<Rightarrow> None
         | Some s' \<Rightarrow> Some (s'\<lparr>s_ctrlOut := None, s_closed := insert conn (s_closed s')\<rparr>))
      else Some (s\<lparr>s_closed := insert conn (s_closed s)\<rparr>))"

text \<open>\<open>teardownEpoch\<close> does not look at its argument: one round of the drain loop, and the rest.\<close>

definition teardown_drain :: "server \<Rightarrow> server option" where
  "teardown_drain s =
     (case try_recv (s_poolQueue s) of
        Some (c, q) \<Rightarrow> Some (s\<lparr>s_poolQueue := q, s_closed := insert c (s_closed s)\<rparr>)
      | None \<Rightarrow> None)"

definition teardown_sessions :: "server \<Rightarrow> server" where
  "teardown_sessions s = s\<lparr>s_sessClosed := s_sessClosed s \<union> set (s_sessions s), s_sessions := []\<rparr>"

function teardown_drain_all :: "server \<Rightarrow> server" where
  "teardown_drain_all s = (case teardown_drain s of None \<Rightarrow> s | Some s' \<Rightarrow> teardown_drain_all s')"
  by pat_completeness auto
termination
  by (relation "measure (\<lambda>s. length (buf (s_poolQueue s)))")
    (auto simp: teardown_drain_def try_recv_def split: option.splits list.splits)

declare teardown_drain_all.simps [simp del]

definition teardownEpoch :: "bytes \<Rightarrow> server \<Rightarrow> server" where
  "teardownEpoch epoch s = teardown_sessions (teardown_drain_all s)"

section \<open>Asking for capacity, and the pool\<close>

text \<open>
  \<open>requestMore\<close> reads the channel under the read lock and sends after releasing it, so these are two
  steps; \<open>None\<close> is the panic of a send on a closed channel.
\<close>

definition requestMore_read :: "server \<Rightarrow> nat option" where
  "requestMore_read s = s_ctrlOut s"

definition requestMore_send :: "nat option \<Rightarrow> server \<Rightarrow> server option" where
  "requestMore_send ch s =
     (case ch of
        None \<Rightarrow> Some s
      | Some c \<Rightarrow>
          (case try_send (s_outCh s c) sigNeedConn of
             Sent q \<Rightarrow> Some (s\<lparr>s_outCh := (s_outCh s)(c := q)\<rparr>)
           | WouldBlock \<Rightarrow> Some s
           | SendPanics \<Rightarrow> None))"

text \<open>\<open>muxOk\<close>: whether \<open>smux.Client\<close> accepts the connection.\<close>

definition admitPoolConn :: "Config \<Rightarrow> bool \<Rightarrow> nat \<Rightarrow> server \<Rightarrow> server" where
  "admitPoolConn cfg muxOk conn s =
     (if Mode cfg = ''tcp'' then
        (case try_send (s_poolQueue s) conn of
           Sent q \<Rightarrow> s\<lparr>s_poolQueue := q, s_resource := notifier_broadcast (s_resource s)\<rparr>
         | _ \<Rightarrow> s\<lparr>s_closed := insert conn (s_closed s)\<rparr>)
      else if Mode cfg = ''tcpmux'' then
        (if muxOk
         then s\<lparr>s_sessions := s_sessions s @ [conn], s_resource := notifier_broadcast (s_resource s)\<rparr>
         else s\<lparr>s_closed := insert conn (s_closed s)\<rparr>)
      else s\<lparr>s_closed := insert conn (s_closed s)\<rparr>)"

definition pool_take :: "server \<Rightarrow> (nat \<times> server) option" where
  "pool_take s =
     (case try_recv (s_poolQueue s) of Some (c, q) \<Rightarrow> Some (c, s\<lparr>s_poolQueue := q\<rparr>) | None \<Rightarrow> None)"

text \<open>The loop of \<open>pickSession\<close>: the sessions kept so far, and the best one.\<close>

fun pick_loop :: "(nat \<Rightarrow> bool) \<Rightarrow> (nat \<Rightarrow> int) \<Rightarrow> int \<Rightarrow> nat list \<Rightarrow> nat list \<Rightarrow> nat option \<Rightarrow> nat list \<times> nat option" where
  "pick_loop isClosed strm maxS [] lv best = (lv, best)"
| "pick_loop isClosed strm maxS (k # ks) lv best =
     (if isClosed k then pick_loop isClosed strm maxS ks lv best
      else pick_loop isClosed strm maxS ks (lv @ [k])
        (if strm k < maxS then
           (case best of None \<Rightarrow> Some k | Some b \<Rightarrow> if strm k < strm b then Some k else best)
         else best))"

definition pickSession :: "Config \<Rightarrow> server \<Rightarrow> server \<times> nat option" where
  "pickSession cfg s =
     (case pick_loop (\<lambda>k. k \<in> s_sessClosed s) (s_streams s) (MaxStreamsPerSession cfg) (s_sessions s) [] None of
        (lv, best) \<Rightarrow> (s\<lparr>s_sessions := lv\<rparr>, best))"

text \<open>The two counter updates of \<open>obtainCarrier\<close>: after \<open>OpenStream\<close>, and in \<open>release\<close>.\<close>

definition stream_add :: "int \<Rightarrow> nat \<Rightarrow> server \<Rightarrow> server" where
  "stream_add d k s = s\<lparr>s_streams := (s_streams s)(k := s_streams s k + d)\<rparr>"

text \<open>The status line of \<open>main.go\<close>; \<open>flows\<close> is the size of the UDP flow table.\<close>

definition statsLine :: "bool \<Rightarrow> string \<Rightarrow> int \<Rightarrow> string" where
  "statsLine connected label n =
     (if \<not> connected then ''disconnected  '' else label @ ''='' @ itoa n @ ''  '')"

definition server_Stats :: "Config \<Rightarrow> nat \<Rightarrow> server \<Rightarrow> string" where
  "server_Stats cfg flows s =
     (let connected = s_controlConn s \<noteq> None;
          pre = (if connected then ''['' @ s_curDisguise s @ ''] '' else [])
      in if Mode cfg = ''tcp'' then
           pre @ statsLine connected ''idle pool'' (int (length (buf (s_poolQueue s))))
         else if Mode cfg = ''udp'' then pre @ statsLine connected ''pool flows'' (int flows)
         else pre @ statsLine connected ''sessions'' (int (length (s_sessions s)))
                @ statsLine connected ''streams'' (sum_list (map (s_streams s) (s_sessions s))))"

section \<open>Picking a session\<close>

lemma pick_loop_spec:
  assumes "pick_loop isClosed strm maxS ks lv best = (lv', best')"
    and "\<forall>b. best = Some b \<longrightarrow> b \<in> set lv \<and> strm b < maxS \<and> (\<forall>k\<in>set lv. strm b \<le> strm k)"
    and "best = None \<longrightarrow> (\<forall>k\<in>set lv. maxS \<le> strm k)"
  shows "lv' = lv @ filter (\<lambda>k. \<not> isClosed k) ks \<and>
    (\<forall>b. best' = Some b \<longrightarrow> b \<in> set lv' \<and> strm b < maxS \<and> (\<forall>k\<in>set lv'. strm b \<le> strm k)) \<and>
    (best' = None \<longrightarrow> (\<forall>k\<in>set lv'. maxS \<le> strm k))"
  using assms
proof (induction ks arbitrary: lv best)
  case (Cons k ks)
  show ?case
  proof (cases "isClosed k")
    case True
    then have f: "filter (\<lambda>k. \<not> isClosed k) (k # ks) = filter (\<lambda>k. \<not> isClosed k) ks" by simp
    have "pick_loop isClosed strm maxS ks lv best = (lv', best')" using Cons.prems(1) True by simp
    from Cons.IH [OF this Cons.prems(2,3)] show ?thesis unfolding f .
  next
    case False
    then have f: "lv @ filter (\<lambda>k. \<not> isClosed k) (k # ks) = (lv @ [k]) @ filter (\<lambda>k. \<not> isClosed k) ks" by simp
    let ?best = "if strm k < maxS then
        (case best of None \<Rightarrow> Some k | Some b \<Rightarrow> if strm k < strm b then Some k else best) else best"
    have 1: "pick_loop isClosed strm maxS ks (lv @ [k]) ?best = (lv', best')"
      using Cons.prems(1) False by simp
    have 2: "\<forall>b. ?best = Some b \<longrightarrow> b \<in> set (lv @ [k]) \<and> strm b < maxS \<and> (\<forall>j\<in>set (lv @ [k]). strm b \<le> strm j)"
    proof (cases best)
      case None
      then have "\<forall>j\<in>set lv. maxS \<le> strm j" using Cons.prems(3) by simp
      then have "\<forall>j\<in>set (lv @ [k]). strm k \<le> strm j" if "strm k < maxS" using that by auto
      then show ?thesis using None by auto
    next
      case (Some b0)
      then have b0: "b0 \<in> set lv" "strm b0 < maxS" "\<forall>j\<in>set lv. strm b0 \<le> strm j"
        using Cons.prems(2) by auto
      show ?thesis
      proof (cases "strm k < maxS \<and> strm k < strm b0")
        case True
        then have "?best = Some k" using Some by simp
        moreover have "\<forall>j\<in>set (lv @ [k]). strm k \<le> strm j" using True b0(3) by auto
        ultimately show ?thesis using True by auto
      next
        case False
        then have "?best = Some b0" using Some by auto
        then show ?thesis using False b0 by auto
      qed
    qed
    have 3: "?best = None \<longrightarrow> (\<forall>j\<in>set (lv @ [k]). maxS \<le> strm j)"
      using Cons.prems(3) by (auto split: option.splits if_splits)
    from Cons.IH [OF 1 2 3] show ?thesis unfolding f .
  qed
qed simp

lemma pickSession_spec:
  assumes "pickSession cfg s = (s', best)"
  shows "s' = s\<lparr>s_sessions := filter (\<lambda>k. k \<notin> s_sessClosed s) (s_sessions s)\<rparr>"
    "best = Some k \<Longrightarrow> k \<in> set (s_sessions s) \<and> k \<notin> s_sessClosed s \<and> s_streams s k < MaxStreamsPerSession cfg \<and>
       (\<forall>j\<in>set (s_sessions s). j \<notin> s_sessClosed s \<longrightarrow> s_streams s k \<le> s_streams s j)"
    "best = None \<Longrightarrow> \<forall>j\<in>set (s_sessions s). j \<notin> s_sessClosed s \<longrightarrow> MaxStreamsPerSession cfg \<le> s_streams s j"
proof -
  obtain lv where p: "pick_loop (\<lambda>k. k \<in> s_sessClosed s) (s_streams s) (MaxStreamsPerSession cfg) (s_sessions s) [] None = (lv, best)"
      and s': "s' = s\<lparr>s_sessions := lv\<rparr>"
    using assms by (auto simp: pickSession_def split: prod.splits)
  from pick_loop_spec [OF p] s'
  show "s' = s\<lparr>s_sessions := filter (\<lambda>k. k \<notin> s_sessClosed s) (s_sessions s)\<rparr>"
    "best = Some k \<Longrightarrow> k \<in> set (s_sessions s) \<and> k \<notin> s_sessClosed s \<and> s_streams s k < MaxStreamsPerSession cfg \<and>
       (\<forall>j\<in>set (s_sessions s). j \<notin> s_sessClosed s \<longrightarrow> s_streams s k \<le> s_streams s j)"
    "best = None \<Longrightarrow> \<forall>j\<in>set (s_sessions s). j \<notin> s_sessClosed s \<longrightarrow> MaxStreamsPerSession cfg \<le> s_streams s j"
    by auto
qed

text \<open>
  \<open>pickSession\<close> returns a least-loaded live session with room for another stream whenever
  there is one, returns none exactly when every live session is full, and drops the dead sessions from the
  list without touching the others.
\<close>
theorem pickSession_least_loaded:
  assumes "pickSession cfg s = (s', best)"
  shows "let alive = filter (\<lambda>k. k \<notin> s_sessClosed s) (s_sessions s) in
    s' = s\<lparr>s_sessions := alive\<rparr> \<and>
    (case best of
       Some k \<Rightarrow> k \<in> set alive \<and> s_streams s k < MaxStreamsPerSession cfg \<and>
                 (\<forall>j\<in>set alive. s_streams s k \<le> s_streams s j)
     | None \<Rightarrow> (\<forall>j\<in>set alive. MaxStreamsPerSession cfg \<le> s_streams s j))"
  using pickSession_spec [OF assms] by (auto simp: Let_def split: option.splits)

theorem pickSession_least_loaded_witness:
  "let s = NewServer\<lparr>s_sessions := [1, 2, 3], s_streams := (\<lambda>k. if k = 1 then 5 else 2), s_sessClosed := {2}\<rparr>
   in snd (pickSession defaultConfig s) = Some 3 \<and> s_sessions (fst (pickSession defaultConfig s)) = [1, 3]"
proof -
  let ?s = "NewServer\<lparr>s_sessions := [1, 2, 3], s_streams := (\<lambda>k. if k = 1 then 5 else 2), s_sessClosed := {2}\<rparr>"
  obtain s' best where p: "pickSession defaultConfig ?s = (s', best)" by fastforce
  have m: "MaxStreamsPerSession defaultConfig = 64" by (simp add: defaultConfig_def)
  from pickSession_least_loaded [OF p] m p show ?thesis by (cases best) auto
qed

section \<open>Admission, end to end\<close>

lemma handshake_admits:
  assumes "serverHandshake mac rnd token cur c = (c1, Inr adm)"
  shows "\<exists>challenge. rnd = Some challenge \<and> (arole adm = roleControl \<or> arole adm = rolePool) \<and>
    wr c1 = wr c @ challenge \<and>
    rd c = magic @ [arole adm] @ hmacTag mac token challenge @
             (case aepoch adm of None \<Rightarrow> [] | Some e \<Rightarrow> e) @ rd c1 \<and>
    (arole adm = rolePool \<longrightarrow> aepoch adm \<noteq> None \<and> aepoch adm = cur) \<and>
    (arole adm = roleControl \<longrightarrow> aepoch adm = None)"
proof -
  from assms obtain d where d: "serverHandshake_body mac rnd token cur (setDeadline (Some handshakeTimeout) c) = (d, Inr adm)"
      "c1 = setDeadline None d" unfolding serverHandshake_split by blast
  from serverHandshake_body_admits [OF d(1)] show ?thesis by (simp add: d(2))
qed

lemma ack_writes:
  "serverAckControl e c = (c', None) \<Longrightarrow> wr c' = wr c @ [ackOK] @ e \<and> rd c' = rd c"
  "serverAckPool c = (c', None) \<Longrightarrow> wr c' = wr c @ [ackOK] \<and> rd c' = rd c"
  by (auto simp: serverAckControl_def serverAckPool_def writeByte_def dest!: conn_write_NoneD
      split: prod.splits option.splits)

lemma conn_close_closed [simp]: "isclosed (conn_close c)"
  by (simp add: conn_close_def)

text \<open>
  Property C5. Admission: a pool connection gets through only with the tag for its own challenge and the epoch
  of the control generation in force, a control connection only with its tag and while there is no other; each
  has then been sent exactly its challenge and its acknowledgement, and every other outcome closes the
  connection.
\<close>
theorem admission_guarded:
  assumes "admitTunnelConn mac rnd rnd2 cfg s conn = (c', out)"
  shows "(out = AdmitPool \<longrightarrow> (\<exists>ch e. rnd = Some ch \<and> s_epoch s = Some e \<and>
      rd conn = magic @ [rolePool] @ hmacTag mac (Token cfg) ch @ e @ rd c' \<and> wr c' = wr conn @ ch @ [ackOK])) \<and>
    (\<forall>e. out = AdmitControl e \<longrightarrow> s_controlConn s = None \<and> rnd2 = Some e \<and> (\<exists>ch. rnd = Some ch \<and>
      rd conn = magic @ [roleControl] @ hmacTag mac (Token cfg) ch @ rd c' \<and> wr c' = wr conn @ ch @ [ackOK] @ e)) \<and>
    (out = AdmitFailed \<or> out = AdmitBusy \<longrightarrow> isclosed c') \<and> out \<noteq> AdmitNothing"
proof -
  obtain c1 r where h: "serverHandshake mac rnd (Token cfg) (currentEpoch s) conn = (c1, r)" by fastforce
  show ?thesis
  proof (cases r)
    case (Inl e)
    with assms h show ?thesis by (simp add: admitTunnelConn_def) auto
  next
    case (Inr adm)
    from handshake_admits [of mac rnd "Token cfg" "currentEpoch s" conn c1 adm] h Inr
    obtain ch where ch: "rnd = Some ch" "arole adm = roleControl \<or> arole adm = rolePool" "wr c1 = wr conn @ ch"
        "rd conn = magic @ [arole adm] @ hmacTag mac (Token cfg) ch @ (case aepoch adm of None \<Rightarrow> [] | Some e \<Rightarrow> e) @ rd c1"
        "arole adm = rolePool \<longrightarrow> aepoch adm \<noteq> None \<and> aepoch adm = currentEpoch s"
        "arole adm = roleControl \<longrightarrow> aepoch adm = None"
      by blast
    from ch(2) show ?thesis
    proof
      assume pool: "arole adm = rolePool"
      obtain c2 e2 where a: "serverAckPool c1 = (c2, e2)" by fastforce
      from pool ch(5) obtain e where "aepoch adm = Some e" "s_epoch s = Some e"
        unfolding currentEpoch_def by fastforce
      with assms h Inr a ch pool ack_writes(2) [of c1 c2] show ?thesis
        by (cases e2) (auto simp: admitTunnelConn_def)
    next
      assume ctl: "arole adm = roleControl"
      show ?thesis
      proof (cases "admit_control rnd2 s")
        case (AdmitControl e)
        then have free: "s_controlConn s = None" "rnd2 = Some e"
          by (auto simp: admit_control_def randomBytes_def split: if_splits option.splits)
        obtain c2 e2 where a: "serverAckControl e c1 = (c2, e2)" by fastforce
        with assms h Inr ch ctl free AdmitControl ack_writes(1) [of e c1 c2] show ?thesis
          by (cases e2) (auto simp: admitTunnelConn_def)
      qed (use assms h Inr ctl in \<open>auto simp: admitTunnelConn_def admit_control_def split: if_splits sum.splits\<close>)
    qed
  qed
qed

theorem admission_guarded_witness:
  "\<exists>c'. admitTunnelConn toy_mac (Some (replicate 16 7)) (Some [1]) (defaultConfig\<lparr>Token := ''secret''\<rparr>)
     (NewServer\<lparr>s_epoch := Some (replicate 8 9)\<rparr>) (fresh_conn (sample_hello rolePool (replicate 8 9))) = (c', AdmitPool) \<and>
   wr c' = replicate 16 7 @ [ackOK]"
proof -
  let ?cfg = "defaultConfig\<lparr>Token := ''secret''\<rparr>" and ?s = "NewServer\<lparr>s_epoch := Some (replicate 8 9)\<rparr>"
  obtain c' out where a: "admitTunnelConn toy_mac (Some (replicate 16 7)) (Some [1]) ?cfg ?s
      (fresh_conn (sample_hello rolePool (replicate 8 9))) = (c', out)" by fastforce
  have "out = AdmitPool"
    using a sample_pool_admitted
    by (auto simp: admitTunnelConn_def currentEpoch_def serverAckPool_def writeByte_ok writable_frame)
  with admission_guarded [OF a] a show ?thesis by auto
qed

end
