(* ===== verification/Server_Steps.thy ===== *)
theory Server_Steps
  imports Server
begin

text \<open>
  The server under every interleaving of its goroutines: the step relation over the functions of
  theory \<open>Server\<close>, invariants of every reachable state, and reachable states that the code does not
  mean to reach.
\<close>

section \<open>Threads and steps\<close>

text \<open>
  A control connection: acknowledged with an epoch made in the first critical section
  (\<open>Acking\<close>), in the reading loop, in the two parts of the teardown, ended. A forwarded flow: looking for
  capacity, in \<open>requestMore\<close> with the channel it read, waiting, opening a stream on a session it
  picked, holding a connection or a stream, done.
\<close>

datatype ctl = Acking bytes | Reading bytes | Draining | Clearing | Ended

datatype flow = Trying | Asking "nat option" | Waiting | Opening nat | HasConn nat | HasStream nat | Finished

text \<open>\<open>pool\<close> are the pool connections that were ever admitted; \<open>crashed\<close>: some goroutine panicked.\<close>

record sys =
  srv :: server
  ctls :: "nat \<Rightarrow> ctl option"
  flows :: "nat \<Rightarrow> flow option"
  pool :: "nat set"
  crashed :: bool

definition start :: sys where
  "start = \<lparr>srv = NewServer, ctls = Map.empty, flows = Map.empty, pool = {}, crashed = False\<rparr>"

inductive sstep :: "Config \<Rightarrow> sys \<Rightarrow> sys \<Rightarrow> bool" for cfg where
  claim: "\<lbrakk>\<not> crashed y; ctls y c = None; c \<notin> pool y; admit_control rnd (srv y) = AdmitControl e\<rbrakk> \<Longrightarrow>
    sstep cfg y (y\<lparr>ctls := (ctls y)(c \<mapsto> Acking e)\<rparr>)"
| ack_failed: "\<lbrakk>\<not> crashed y; ctls y c = Some (Acking e)\<rbrakk> \<Longrightarrow>
    sstep cfg y (y\<lparr>ctls := (ctls y)(c \<mapsto> Ended), srv := (srv y)\<lparr>s_closed := insert c (s_closed (srv y))\<rparr>\<rparr>)"
| publish: "\<lbrakk>\<not> crashed y; ctls y c = Some (Acking e)\<rbrakk> \<Longrightarrow>
    sstep cfg y (y\<lparr>ctls := (ctls y)(c \<mapsto> Reading e), srv := runControl_publish c e d (srv y)\<rparr>)"
| pong: "\<lbrakk>\<not> crashed y; ctls y c = Some (Reading e); runControl_pong c (srv y) = Some s\<rbrakk> \<Longrightarrow>
    sstep cfg y (y\<lparr>srv := s\<rparr>)"
| write_signal: "\<lbrakk>\<not> crashed y; runControl_take c (srv y) = Some (b, s)\<rbrakk> \<Longrightarrow> sstep cfg y (y\<lparr>srv := s\<rparr>)"
| control_ends: "\<lbrakk>\<not> crashed y; ctls y c = Some (Reading e); runControl_cleanup c (srv y) = Some s\<rbrakk> \<Longrightarrow>
    sstep cfg y (y\<lparr>ctls := (ctls y)(c \<mapsto> Draining), srv := s\<rparr>)"
| control_panics: "\<lbrakk>\<not> crashed y; ctls y c = Some (Reading e); runControl_cleanup c (srv y) = None\<rbrakk> \<Longrightarrow>
    sstep cfg y (y\<lparr>crashed := True\<rparr>)"
| drain: "\<lbrakk>\<not> crashed y; ctls y c = Some Draining; teardown_drain (srv y) = Some s\<rbrakk> \<Longrightarrow>
    sstep cfg y (y\<lparr>srv := s\<rparr>)"
| drained: "\<lbrakk>\<not> crashed y; ctls y c = Some Draining; teardown_drain (srv y) = None\<rbrakk> \<Longrightarrow>
    sstep cfg y (y\<lparr>ctls := (ctls y)(c \<mapsto> Clearing)\<rparr>)"
| clear: "\<lbrakk>\<not> crashed y; ctls y c = Some Clearing\<rbrakk> \<Longrightarrow>
    sstep cfg y (y\<lparr>ctls := (ctls y)(c \<mapsto> Ended), srv := teardown_sessions (srv y)\<rparr>)"
| pool_conn: "\<lbrakk>\<not> crashed y; ctls y c = None; c \<notin> pool y\<rbrakk> \<Longrightarrow>
    sstep cfg y (y\<lparr>pool := insert c (pool y), srv := admitPoolConn cfg muxOk c (srv y)\<rparr>)"
| session_dies: "\<lbrakk>\<not> crashed y\<rbrakk> \<Longrightarrow>
    sstep cfg y (y\<lparr>srv := (srv y)\<lparr>s_sessClosed := insert k (s_sessClosed (srv y))\<rparr>\<rparr>)"
| flow_starts: "\<lbrakk>\<not> crashed y; flows y f = None\<rbrakk> \<Longrightarrow> sstep cfg y (y\<lparr>flows := (flows y)(f \<mapsto> Trying)\<rparr>)"
| flow_takes: "\<lbrakk>\<not> crashed y; Mode cfg = ''tcp''; flows y f \<in> {Some Trying, Some Waiting};
     pool_take (srv y) = Some (c, s)\<rbrakk> \<Longrightarrow>
    sstep cfg y (y\<lparr>flows := (flows y)(f \<mapsto> HasConn c), srv := s\<rparr>)"
| flow_misses: "\<lbrakk>\<not> crashed y; Mode cfg = ''tcp''; flows y f = Some Trying; pool_take (srv y) = None\<rbrakk> \<Longrightarrow>
    sstep cfg y (y\<lparr>flows := (flows y)(f \<mapsto> Asking (requestMore_read (srv y)))\<rparr>)"
| flow_picks: "\<lbrakk>\<not> crashed y; Mode cfg = ''tcpmux''; flows y f = Some Trying; pickSession cfg (srv y) = (s, Some k)\<rbrakk> \<Longrightarrow>
    sstep cfg y (y\<lparr>flows := (flows y)(f \<mapsto> Opening k), srv := s\<rparr>)"
| flow_picks_none: "\<lbrakk>\<not> crashed y; Mode cfg = ''tcpmux''; flows y f = Some Trying; pickSession cfg (srv y) = (s, None)\<rbrakk> \<Longrightarrow>
    sstep cfg y (y\<lparr>flows := (flows y)(f \<mapsto> Asking (requestMore_read s)), srv := s\<rparr>)"
| flow_asks: "\<lbrakk>\<not> crashed y; flows y f = Some (Asking ch); requestMore_send ch (srv y) = Some s\<rbrakk> \<Longrightarrow>
    sstep cfg y (y\<lparr>flows := (flows y)(f \<mapsto> Waiting), srv := s\<rparr>)"
| flow_panics: "\<lbrakk>\<not> crashed y; flows y f = Some (Asking ch); requestMore_send ch (srv y) = None\<rbrakk> \<Longrightarrow>
    sstep cfg y (y\<lparr>crashed := True\<rparr>)"
| flow_wakes: "\<lbrakk>\<not> crashed y; flows y f = Some Waiting\<rbrakk> \<Longrightarrow> sstep cfg y (y\<lparr>flows := (flows y)(f \<mapsto> Trying)\<rparr>)"
| flow_times_out: "\<lbrakk>\<not> crashed y; flows y f = Some Waiting\<rbrakk> \<Longrightarrow> sstep cfg y (y\<lparr>flows := (flows y)(f \<mapsto> Finished)\<rparr>)"
| stream_opens: "\<lbrakk>\<not> crashed y; flows y f = Some (Opening k)\<rbrakk> \<Longrightarrow>
    sstep cfg y (y\<lparr>flows := (flows y)(f \<mapsto> HasStream k), srv := stream_add 1 k (srv y)\<rparr>)"
| stream_fails: "\<lbrakk>\<not> crashed y; flows y f = Some (Opening k)\<rbrakk> \<Longrightarrow>
    sstep cfg y (y\<lparr>flows := (flows y)(f \<mapsto> Finished)\<rparr>)"
| stream_released: "\<lbrakk>\<not> crashed y; flows y f = Some (HasStream k)\<rbrakk> \<Longrightarrow>
    sstep cfg y (y\<lparr>flows := (flows y)(f \<mapsto> Finished), srv := stream_add (- 1) k (srv y)\<rparr>)"
| conn_released: "\<lbrakk>\<not> crashed y; flows y f = Some (HasConn c)\<rbrakk> \<Longrightarrow>
    sstep cfg y (y\<lparr>flows := (flows y)(f \<mapsto> Finished), srv := (srv y)\<lparr>s_closed := insert c (s_closed (srv y))\<rparr>\<rparr>)"

abbreviation reachable :: "Config \<Rightarrow> sys \<Rightarrow> bool" where
  "reachable cfg \<equiv> (sstep cfg)\<^sup>*\<^sup>* start"

inductive_cases sstep_crashedE: "sstep cfg y (y\<lparr>crashed := True\<rparr>)"

text \<open>What the functions of theory \<open>Server\<close> leave alone.\<close>

lemma publish_frame [simp]:
  "s_poolQueue (runControl_publish c e d s) = s_poolQueue s" "s_closed (runControl_publish c e d s) = s_closed s"
  "s_streams (runControl_publish c e d s) = s_streams s" "s_sessions (runControl_publish c e d s) = s_sessions s"
  "s_controlConn (runControl_publish c e d s) = Some c" "s_epoch (runControl_publish c e d s) = Some e"
  "s_ctrlOut (runControl_publish c e d s) = Some c" "s_curDisguise (runControl_publish c e d s) = d"
  "s_outCh (runControl_publish c e d s) = (s_outCh s)(c := make_chan 64)"
  by (simp_all add: runControl_publish_def)

text \<open>The frame of the operations that only touch an outgoing channel, without closing one.\<close>

definition same_but_channels :: "server \<Rightarrow> server \<Rightarrow> bool" where
  "same_but_channels s s' \<longleftrightarrow> (\<exists>f. s' = s\<lparr>s_outCh := f\<rparr> \<and> (\<forall>c. cclosed (f c) = cclosed (s_outCh s c)))"

lemma try_send_closed: "try_send ch x = Sent ch' \<Longrightarrow> \<not> cclosed ch \<and> \<not> cclosed ch'"
  by (auto simp: try_send_def split: if_splits)

lemma try_recv_closed: "try_recv ch = Some (x, ch') \<Longrightarrow> cclosed ch' = cclosed ch"
  by (auto simp: try_recv_def split: list.splits)

lemma same_but_channelsI:
  "cclosed ch = cclosed (s_outCh s c) \<Longrightarrow> same_but_channels s (s\<lparr>s_outCh := (s_outCh s)(c := ch)\<rparr>)"
  unfolding same_but_channels_def by (intro exI [of _ "(s_outCh s)(c := ch)"]) simp

lemma same_but_channels_refl: "same_but_channels s s"
  unfolding same_but_channels_def by (intro exI [of _ "s_outCh s"]) simp

lemma pong_frame: "runControl_pong c s = Some s' \<Longrightarrow> same_but_channels s s'"
  by (auto simp: runControl_pong_def split: send_result.splits dest!: try_send_closed intro!: same_but_channelsI)

lemma take_frame: "runControl_take c s = Some (b, s') \<Longrightarrow> same_but_channels s s'"
  by (auto simp: runControl_take_def split: option.splits dest!: try_recv_closed intro!: same_but_channelsI)

lemma ask_frame: "requestMore_send ch s = Some s' \<Longrightarrow> same_but_channels s s'"
  by (auto simp: requestMore_send_def same_but_channels_refl split: option.splits send_result.splits
      dest!: try_send_closed intro!: same_but_channelsI)

lemma drain_frame:
  "teardown_drain s = Some s' \<Longrightarrow>
     \<exists>c q. buf (s_poolQueue s) = c # q \<and>
       s' = s\<lparr>s_poolQueue := (s_poolQueue s)\<lparr>buf := q\<rparr>, s_closed := insert c (s_closed s)\<rparr>"
  by (auto simp: teardown_drain_def try_recv_def split: list.splits)

lemma pool_take_frame:
  "pool_take s = Some (c, s') \<Longrightarrow>
     \<exists>q. buf (s_poolQueue s) = c # q \<and> s' = s\<lparr>s_poolQueue := (s_poolQueue s)\<lparr>buf := q\<rparr>\<rparr>"
  by (auto simp: pool_take_def try_recv_def split: list.splits)

text \<open>The fields of the server that the control generation is made of.\<close>

definition same_control :: "server \<Rightarrow> server \<Rightarrow> bool" where
  "same_control s s' \<longleftrightarrow> s_controlConn s' = s_controlConn s \<and> s_epoch s' = s_epoch s \<and>
     s_ctrlOut s' = s_ctrlOut s \<and> s_curDisguise s' = s_curDisguise s \<and>
     (\<forall>c. cclosed (s_outCh s' c) = cclosed (s_outCh s c))"

lemma same_control_channels: "same_but_channels s s' \<Longrightarrow> same_control s s'"
  by (auto simp: same_but_channels_def same_control_def)

lemma same_control_refl [simp]: "same_control s s"
  by (simp add: same_control_def)

lemma same_control_ops [simp]:
  "same_control s (teardown_sessions s)" "same_control s (stream_add d k s)"
  "same_control s (s\<lparr>s_closed := x\<rparr>)" "same_control s (s\<lparr>s_sessClosed := x\<rparr>)"
  by (simp_all add: same_control_def teardown_sessions_def stream_add_def)

lemma same_control_admit [simp]: "same_control s (admitPoolConn cfg m c s)"
  by (cases "try_send (s_poolQueue s) c") (simp_all add: same_control_def admitPoolConn_def)

lemma same_control_drain: "teardown_drain s = Some s' \<Longrightarrow> same_control s s'"
  using drain_frame [of s s'] by (auto simp: same_control_def)

lemma same_control_take: "pool_take s = Some (c, s') \<Longrightarrow> same_control s s'"
  using pool_take_frame [of s c s'] by (auto simp: same_control_def)

lemma same_control_pick: "pickSession cfg s = (s', k) \<Longrightarrow> same_control s s'"
  using pickSession_spec(1) [of cfg s s' k] by (simp add: same_control_def)

lemmas same_control_steps =
  pong_frame [THEN same_control_channels] take_frame [THEN same_control_channels]
  ask_frame [THEN same_control_channels] same_control_drain same_control_take same_control_pick

section \<open>The control generation is consistent\<close>

text \<open>
  Either there is no control connection, and then no epoch, no outgoing channel and no disguise name; or its
  thread is reading, the epoch is the one that thread was given, the outgoing channel is the one it made, and
  that is open.
\<close>

definition control_ok :: "sys \<Rightarrow> bool" where
  "control_ok y \<longleftrightarrow>
     s_ctrlOut (srv y) = s_controlConn (srv y) \<and>
     (case s_controlConn (srv y) of
        None \<Rightarrow> s_epoch (srv y) = None \<and> s_curDisguise (srv y) = []
      | Some c \<Rightarrow> (\<exists>e. ctls y c = Some (Reading e) \<and> s_epoch (srv y) = Some e) \<and> \<not> cclosed (s_outCh (srv y) c))"

lemma control_ok_same:
  assumes "control_ok y" "same_control (srv y) (srv y')"
    and "\<And>c e. ctls y c = Some (Reading e) \<Longrightarrow> ctls y' c = Some (Reading e)"
  shows "control_ok y'"
  using assms by (fastforce simp: control_ok_def same_control_def split: option.splits)

lemma cleanup_current:
  assumes "control_ok y" "s_controlConn (srv y) = Some c"
  shows "\<exists>s. runControl_cleanup c (srv y) = Some s \<and> s_controlConn s = None \<and> s_epoch s = None \<and>
    s_ctrlOut s = None \<and> s_curDisguise s = []"
  using assms by (simp add: control_ok_def runControl_cleanup_def close_ctrlOut_def)

lemma cleanup_other:
  "s_controlConn s \<noteq> Some c \<Longrightarrow> runControl_cleanup c s = Some (s\<lparr>s_closed := insert c (s_closed s)\<rparr>)"
  by (simp add: runControl_cleanup_def)

lemma control_ok_step:
  assumes "sstep cfg y y'" "control_ok y"
  shows "control_ok y'"
  using assms
proof cases
  case (publish c e d)
  then show ?thesis by (simp add: control_ok_def make_chan_def)
next
  case (control_ends c e s)
  show ?thesis
  proof (cases "s_controlConn (srv y) = Some c")
    case True
    with cleanup_current [OF assms(2)] control_ends show ?thesis by (auto simp: control_ok_def)
  next
    case False
    then have "srv y' = (srv y)\<lparr>s_closed := insert c (s_closed (srv y))\<rparr>"
      using control_ends cleanup_other by fastforce
    with False assms(2) control_ends show ?thesis
      by (auto simp: control_ok_def split: option.splits)
  qed
next
  case (ack_failed c e)
  with assms(2) show ?thesis by (auto simp: control_ok_def split: option.splits)
next
  case (drained c)
  with assms(2) show ?thesis by (auto simp: control_ok_def split: option.splits)
next
  case (clear c)
  with assms(2) show ?thesis by (auto simp: control_ok_def teardown_sessions_def split: option.splits)
qed (auto intro!: control_ok_same [OF assms(2)]
     intro: same_control_steps)

lemma control_ok_reachable:
  assumes "reachable cfg y"
  shows "control_ok y"
  using assms
proof (induction rule: rtranclp_induct)
  case base
  show ?case by (simp add: control_ok_def start_def NewServer_def)
qed (rule control_ok_step)

section \<open>Pool connections are conserved\<close>

abbreviation queued :: "sys \<Rightarrow> nat list" where "queued y \<equiv> buf (s_poolQueue (srv y))"

definition held :: "(nat \<Rightarrow> flow option) \<Rightarrow> nat set" where
  "held fl = {c. \<exists>f. fl f = Some (HasConn c)}"

definition holds_once :: "(nat \<Rightarrow> flow option) \<Rightarrow> bool" where
  "holds_once fl \<longleftrightarrow> (\<forall>f g c. fl f = Some (HasConn c) \<longrightarrow> fl g = Some (HasConn c) \<longrightarrow> f = g)"

text \<open>The queue, what flows hold, what is closed, what was ever admitted, and the control connections.\<close>

definition pinv :: "nat list \<Rightarrow> nat set \<Rightarrow> nat set \<Rightarrow> nat set \<Rightarrow> nat set \<Rightarrow> bool" where
  "pinv q h cl pl dm \<longleftrightarrow>
     distinct q \<and> set q \<inter> cl = {} \<and> h \<inter> cl = {} \<and> set q \<inter> h = {} \<and> set q \<union> h \<subseteq> pl \<and>
     pl \<subseteq> set q \<union> h \<union> cl \<and> pl \<inter> dm = {} \<and> cl \<subseteq> pl \<union> dm \<and> length q \<le> 4096"

lemma pinv_moves:
  "pinv (c # q) h cl pl dm \<Longrightarrow> pinv q (insert c h) cl pl dm \<and> c \<notin> h"
  "pinv (c # q) h cl pl dm \<Longrightarrow> pinv q h (insert c cl) pl dm"
  "pinv q h cl pl dm \<Longrightarrow> c \<in> h \<Longrightarrow> pinv q (h - {c}) (insert c cl) pl dm"
  "pinv q h cl pl dm \<Longrightarrow> c \<in> dm \<Longrightarrow> pinv q h (insert c cl) pl dm"
  "pinv q h cl pl dm \<Longrightarrow> c \<notin> pl \<Longrightarrow> pinv q h cl pl (insert c dm)"
  "pinv q h cl pl dm \<Longrightarrow> c \<notin> pl \<Longrightarrow> c \<notin> dm \<Longrightarrow> length q < 4096 \<Longrightarrow> pinv (q @ [c]) h cl (insert c pl) dm"
  "pinv q h cl pl dm \<Longrightarrow> c \<notin> pl \<Longrightarrow> c \<notin> dm \<Longrightarrow> pinv q h (insert c cl) (insert c pl) dm"
  unfolding pinv_def by auto

definition pool_ok :: "sys \<Rightarrow> bool" where
  "pool_ok y \<longleftrightarrow>
     pinv (queued y) (held (flows y)) (s_closed (srv y)) (pool y) (dom (ctls y)) \<and> holds_once (flows y) \<and>
     \<not> cclosed (s_poolQueue (srv y)) \<and> ccap (s_poolQueue (srv y)) = 4096"

lemma held_other:
  "\<forall>d. fl f \<noteq> Some (HasConn d) \<Longrightarrow> \<forall>d. v \<noteq> HasConn d \<Longrightarrow> held (fl(f \<mapsto> v)) = held fl"
  "\<forall>d. fl f \<noteq> Some (HasConn d) \<Longrightarrow> \<forall>d. v \<noteq> HasConn d \<Longrightarrow> holds_once (fl(f \<mapsto> v)) = holds_once fl"
  by (auto simp: held_def holds_once_def) metis+

lemma held_take:
  assumes "\<forall>d. fl f \<noteq> Some (HasConn d)"
  shows "held (fl(f \<mapsto> HasConn c)) = insert c (held fl)"
    "c \<notin> held fl \<Longrightarrow> holds_once fl \<Longrightarrow> holds_once (fl(f \<mapsto> HasConn c))"
proof -
  show "held (fl(f \<mapsto> HasConn c)) = insert c (held fl)"
    using assms by (auto simp: held_def split: if_splits)
  show "holds_once (fl(f \<mapsto> HasConn c))" if "c \<notin> held fl" "holds_once fl"
    using that by (auto simp: held_def holds_once_def)
qed

lemma held_release:
  assumes "fl f = Some (HasConn c)" "holds_once fl"
  shows "held (fl(f \<mapsto> Finished)) = held fl - {c}" "holds_once (fl(f \<mapsto> Finished))" "c \<in> held fl"
proof -
  have "x \<in> held (fl(f \<mapsto> Finished)) \<longleftrightarrow> x \<in> held fl - {c}" for x
  proof
    assume "x \<in> held (fl(f \<mapsto> Finished))"
    then obtain g where "g \<noteq> f" "fl g = Some (HasConn x)" by (auto simp: held_def split: if_splits)
    with assms show "x \<in> held fl - {c}" by (auto simp: held_def holds_once_def)
  next
    assume "x \<in> held fl - {c}"
    then obtain g where "x \<noteq> c" "fl g = Some (HasConn x)" by (auto simp: held_def)
    with assms(1) have "(fl(f \<mapsto> Finished)) g = Some (HasConn x)" by auto
    then show "x \<in> held (fl(f \<mapsto> Finished))" unfolding held_def by blast
  qed
  then show "held (fl(f \<mapsto> Finished)) = held fl - {c}" by blast
  show "holds_once (fl(f \<mapsto> Finished))" using assms(2) by (auto simp: holds_once_def)
  show "c \<in> held fl" using assms(1) by (auto simp: held_def)
qed

lemma pool_ok_same:
  assumes "pool_ok y" "s_poolQueue (srv y') = s_poolQueue (srv y)" "s_closed (srv y') = s_closed (srv y)"
    "pool y' = pool y" "held (flows y') = held (flows y)" "holds_once (flows y') = holds_once (flows y)"
    "dom (ctls y') = dom (ctls y)"
  shows "pool_ok y'"
  using assms(1) unfolding pool_ok_def assms(2-7) .

lemma channels_pool:
  "same_but_channels s s' \<Longrightarrow> s_poolQueue s' = s_poolQueue s" "same_but_channels s s' \<Longrightarrow> s_closed s' = s_closed s"
  "same_but_channels s s' \<Longrightarrow> s_streams s' = s_streams s"
  by (auto simp: same_but_channels_def)

lemmas ask_pool = channels_pool [OF ask_frame] channels_pool [OF pong_frame] channels_pool [OF take_frame]

lemma pick_pool:
  "pickSession cfg s = (s', k) \<Longrightarrow> s_poolQueue s' = s_poolQueue s \<and> s_closed s' = s_closed s \<and> s_streams s' = s_streams s"
  using pickSession_spec(1) [of cfg s s' k] by simp

lemma teardown_sessions_frame [simp]:
  "s_poolQueue (teardown_sessions s) = s_poolQueue s" "s_closed (teardown_sessions s) = s_closed s"
  "s_streams (teardown_sessions s) = s_streams s"
  by (simp_all add: teardown_sessions_def)

lemma stream_add_frame [simp]:
  "s_poolQueue (stream_add d k s) = s_poolQueue s" "s_closed (stream_add d k s) = s_closed s"
  "s_streams (stream_add d k s) = (s_streams s)(k := s_streams s k + d)"
  by (simp_all add: stream_add_def)

lemma cleanup_frame:
  "runControl_cleanup c s = Some s' \<Longrightarrow>
     s_poolQueue s' = s_poolQueue s \<and> s_closed s' = insert c (s_closed s) \<and> s_streams s' = s_streams s"
  by (auto simp: runControl_cleanup_def close_ctrlOut_def split: if_splits option.splits)

lemma admit_frame:
  assumes "Mode cfg = ''tcp''" "\<not> cclosed (s_poolQueue s)"
  shows "admitPoolConn cfg m c s =
    (if length (buf (s_poolQueue s)) < ccap (s_poolQueue s)
     then s\<lparr>s_poolQueue := (s_poolQueue s)\<lparr>buf := buf (s_poolQueue s) @ [c]\<rparr>,
            s_resource := notifier_broadcast (s_resource s)\<rparr>
     else s\<lparr>s_closed := insert c (s_closed s)\<rparr>)"
  using assms by (simp add: admitPoolConn_def try_send_def)

lemma admit_streams [simp]: "s_streams (admitPoolConn cfg m c s) = s_streams s"
  by (cases "try_send (s_poolQueue s) c") (simp_all add: admitPoolConn_def)

lemma pool_ok_closes_control:
  assumes "pool_ok y" "c \<in> dom (ctls y)" "s_poolQueue (srv y') = s_poolQueue (srv y)"
    "s_closed (srv y') = insert c (s_closed (srv y))" "pool y' = pool y" "flows y' = flows y"
    "dom (ctls y') = dom (ctls y)"
  shows "pool_ok y'"
  using assms(1) pinv_moves(4) [OF _ assms(2)] unfolding pool_ok_def assms(3-7) by blast

lemma pool_ok_takes:
  assumes "pool_ok y" "queued y = c # q" "\<forall>d. flows y f \<noteq> Some (HasConn d)"
  shows "pool_ok (y\<lparr>flows := (flows y)(f \<mapsto> HasConn c), srv := (srv y)\<lparr>s_poolQueue := (s_poolQueue (srv y))\<lparr>buf := q\<rparr>\<rparr>\<rparr>)"
proof -
  have p: "pinv (c # q) (held (flows y)) (s_closed (srv y)) (pool y) (dom (ctls y))" "holds_once (flows y)"
    "\<not> cclosed (s_poolQueue (srv y))" "ccap (s_poolQueue (srv y)) = 4096"
    using assms(1,2) by (simp_all add: pool_ok_def)
  have "holds_once ((flows y)(f \<mapsto> HasConn c))"
    using held_take(2) [of "flows y" f c] assms(3) p(2) pinv_moves(1) [OF p(1)] by blast
  then show ?thesis
    using pinv_moves(1) [OF p(1)] p(3,4) held_take(1) [of "flows y" f c] assms(3)
    by (simp add: pool_ok_def del: fun_upd_apply)
qed

lemma pool_ok_drains:
  assumes "pool_ok y" "queued y = c # q"
  shows "pool_ok (y\<lparr>srv := (srv y)\<lparr>s_poolQueue := (s_poolQueue (srv y))\<lparr>buf := q\<rparr>, s_closed := insert c (s_closed (srv y))\<rparr>\<rparr>)"
  using assms pinv_moves(2) by (simp add: pool_ok_def)

lemma pool_ok_releases:
  assumes "pool_ok y" "flows y f = Some (HasConn c)"
  shows "pool_ok (y\<lparr>flows := (flows y)(f \<mapsto> Finished), srv := (srv y)\<lparr>s_closed := insert c (s_closed (srv y))\<rparr>\<rparr>)"
proof -
  have "holds_once (flows y)" using assms(1) by (simp add: pool_ok_def)
  note h = held_release [of "flows y" f c, OF assms(2) this]
  from assms(1) pinv_moves(3) [OF _ h(3)] show ?thesis
    by (simp add: pool_ok_def h(1,2) del: fun_upd_apply)
qed

lemma pool_ok_admits:
  assumes "pool_ok y" "Mode cfg = ''tcp''" "ctls y c = None" "c \<notin> pool y"
  shows "pool_ok (y\<lparr>pool := insert c (pool y), srv := admitPoolConn cfg m c (srv y)\<rparr>)"
proof -
  have p: "pinv (queued y) (held (flows y)) (s_closed (srv y)) (pool y) (dom (ctls y))"
    "\<not> cclosed (s_poolQueue (srv y))" "ccap (s_poolQueue (srv y)) = 4096" "holds_once (flows y)"
    using assms(1) by (simp_all add: pool_ok_def)
  have "c \<notin> dom (ctls y)" using assms(3) by blast
  note moves = pinv_moves(6,7) [OF p(1) assms(4) this]
  show ?thesis
  proof (cases "length (queued y) < 4096")
    case True
    then have "admitPoolConn cfg m c (srv y) = (srv y)\<lparr>s_poolQueue := (s_poolQueue (srv y))\<lparr>buf := queued y @ [c]\<rparr>,
        s_resource := notifier_broadcast (s_resource (srv y))\<rparr>"
      by (simp add: admit_frame [OF assms(2) p(2)] p(3))
    with True moves(1) p show ?thesis by (simp add: pool_ok_def)
  next
    case False
    then have "admitPoolConn cfg m c (srv y) = (srv y)\<lparr>s_closed := insert c (s_closed (srv y))\<rparr>"
      by (simp add: admit_frame [OF assms(2) p(2)] p(3))
    with moves(2) p show ?thesis by (simp add: pool_ok_def)
  qed
qed

lemma pool_ok_step:
  assumes "sstep cfg y y'" "pool_ok y" "Mode cfg = ''tcp''"
  shows "pool_ok y'"
  using assms(1)
proof cases
  case (claim c rnd e)
  with assms(2) pinv_moves(5) [of _ _ _ "pool y" _ c] show ?thesis by (simp add: pool_ok_def)
next
  case (ack_failed c e)
  have "c \<in> dom (ctls y)" using ack_failed by blast
  then show ?thesis by (rule pool_ok_closes_control [OF assms(2)]) (simp_all add: ack_failed insert_dom)
next
  case (control_ends c e s)
  have "c \<in> dom (ctls y)" using control_ends by blast
  then show ?thesis
    by (rule pool_ok_closes_control [OF assms(2)])
      (simp_all add: control_ends cleanup_frame [OF control_ends(4)] insert_dom)
next
  case (drain c s)
  then show ?thesis using pool_ok_drains [OF assms(2)] drain_frame by fastforce
next
  case (pool_conn c m)
  then show ?thesis using pool_ok_admits [OF assms(2,3)] by simp
next
  case (flow_takes f c s)
  then have "\<forall>d. flows y f \<noteq> Some (HasConn d)" by auto
  moreover obtain q where "queued y = c # q" "s = (srv y)\<lparr>s_poolQueue := (s_poolQueue (srv y))\<lparr>buf := q\<rparr>\<rparr>"
    using pool_take_frame flow_takes(5) by blast
  ultimately show ?thesis using pool_ok_takes [OF assms(2)] flow_takes(1) by simp
next
  case (conn_released f c)
  then show ?thesis using pool_ok_releases [OF assms(2)] by simp
qed (rule pool_ok_same [OF assms(2)];
     simp add: ask_pool pick_pool held_other insert_dom assms(3) del: fun_upd_apply; fail)+

end
