(* ===== verification/Server_Safety.thy ===== *)
theory Server_Safety
  imports Server_Steps
begin

text \<open>
  What holds of the server in every reachable state, and the two races of its control channel.
\<close>

lemma pool_ok_reachable:
  assumes "reachable cfg y" "Mode cfg = ''tcp''"
  shows "pool_ok y"
  using assms(1)
proof (induction rule: rtranclp_induct)
  case base
  show ?case by (simp add: pool_ok_def pinv_def held_def holds_once_def start_def NewServer_def make_chan_def)
next
  case (step y z)
  then show ?case using pool_ok_step assms(2) by blast
qed

section \<open>Streams are counted\<close>

definition on_session :: "(nat \<Rightarrow> flow option) \<Rightarrow> nat \<Rightarrow> nat set" where
  "on_session fl k = {f. fl f = Some (HasStream k)}"

definition streams_ok :: "sys \<Rightarrow> bool" where
  "streams_ok y \<longleftrightarrow> finite (dom (flows y)) \<and> (\<forall>k. s_streams (srv y) k = int (card (on_session (flows y) k)))"

lemma on_session_finite: "finite (dom fl) \<Longrightarrow> finite (on_session fl k)"
  by (rule finite_subset [of _ "dom fl"]) (auto simp: on_session_def)

lemma on_session_other:
  "\<forall>k. fl f \<noteq> Some (HasStream k) \<Longrightarrow> \<forall>k. v \<noteq> HasStream k \<Longrightarrow> on_session (fl(f \<mapsto> v)) = on_session fl"
  by (auto simp: on_session_def fun_eq_iff split: if_splits)

lemma on_session_open:
  "fl f = Some (Opening k) \<Longrightarrow>
     on_session (fl(f \<mapsto> HasStream k)) j = (if j = k then insert f (on_session fl k) else on_session fl j)"
  "fl f = Some (Opening k) \<Longrightarrow> f \<notin> on_session fl j"
  by (auto simp: on_session_def)

lemma on_session_release:
  "fl f = Some (HasStream k) \<Longrightarrow>
     on_session (fl(f \<mapsto> Finished)) j = (if j = k then on_session fl k - {f} else on_session fl j)"
  "fl f = Some (HasStream k) \<Longrightarrow> f \<in> on_session fl k"
  by (auto simp: on_session_def)

lemma streams_ok_same:
  assumes "streams_ok y" "s_streams (srv y') = s_streams (srv y)" "on_session (flows y') = on_session (flows y)"
    "finite (dom (flows y')) = finite (dom (flows y))"
  shows "streams_ok y'"
  using assms(1) unfolding streams_ok_def assms(2-4) .

lemma streams_frames:
  "teardown_drain s = Some s' \<Longrightarrow> s_streams s' = s_streams s"
  "pool_take s = Some (c, s') \<Longrightarrow> s_streams s' = s_streams s"
  "runControl_cleanup c s = Some s' \<Longrightarrow> s_streams s' = s_streams s"
  by (auto dest: drain_frame pool_take_frame cleanup_frame)

lemma streams_ok_step:
  assumes "sstep cfg y y'" "streams_ok y"
  shows "streams_ok y'"
  using assms(1)
proof cases
  case (stream_opens f k)
  note o = on_session_open [of "flows y" f k, OF stream_opens(3)]
  have "card (insert f (on_session (flows y) k)) = Suc (card (on_session (flows y) k))"
    using assms(2) o(2) on_session_finite by (simp add: streams_ok_def)
  with assms(2) stream_opens(1) o(1) show ?thesis by (simp add: streams_ok_def del: fun_upd_apply) simp
next
  case (stream_released f k)
  note r = on_session_release [of "flows y" f k, OF stream_released(3)]
  have "finite (on_session (flows y) k)" using assms(2) on_session_finite by (simp add: streams_ok_def)
  then have "int (card (on_session (flows y) k - {f})) = int (card (on_session (flows y) k)) - 1"
    using r(2) card_Suc_Diff1 [of "on_session (flows y) k" f] by simp
  with assms(2) stream_released(1) r(1) show ?thesis by (simp add: streams_ok_def del: fun_upd_apply) simp
qed (rule streams_ok_same [OF assms(2)];
     auto simp: ask_pool pick_pool on_session_other streams_frames simp del: fun_upd_apply; fail)+

lemma streams_ok_reachable:
  assumes "reachable cfg y"
  shows "streams_ok y"
  using assms
proof (induction rule: rtranclp_induct)
  case base
  show ?case by (simp add: streams_ok_def on_session_def start_def NewServer_def)
qed (rule streams_ok_step)

section \<open>Invariants\<close>

lemma reach_step: "reachable cfg y \<Longrightarrow> sstep cfg y y' \<Longrightarrow> reachable cfg y'"
  by (rule rtranclp.rtrancl_into_rtrancl)

abbreviation tcp_config :: Config where "tcp_config \<equiv> defaultConfig\<lparr>Mode := ''tcp''\<rparr>"

abbreviation y_claimed :: "bytes \<Rightarrow> sys" where "y_claimed e \<equiv> start\<lparr>ctls := [0 \<mapsto> Acking e]\<rparr>"

abbreviation y_reading :: "bytes \<Rightarrow> sys" where
  "y_reading e \<equiv> start\<lparr>ctls := [0 \<mapsto> Reading e], srv := runControl_publish 0 e ''plain'' NewServer\<rparr>"

lemma reach_claimed: "reachable cfg (y_claimed e)"
proof (rule reach_step)
  show "reachable cfg start" by simp
  show "sstep cfg start (y_claimed e)"
    using sstep.claim [of start 0 "Some e" e cfg]
    by (simp add: start_def NewServer_def admit_control_def randomBytes_def)
qed

lemma reach_reading: "reachable cfg (y_reading e)"
  by (rule reach_step [OF reach_claimed [of cfg e]])
    (use sstep.publish [of "y_claimed e" 0 e cfg "''plain''"] in \<open>simp add: start_def\<close>)

text \<open>
  Property C10. In every reachable state of the server, however its goroutines interleave, the fields of the
  control generation agree: there is an epoch exactly when there is a control connection, the outgoing channel
  belongs to that connection, its thread is still in the reading loop with that very epoch, and no thread that
  ends closes a nil or closed channel.
\<close>
theorem control_generation_consistent:
  assumes "reachable cfg y"
  shows "s_ctrlOut (srv y) = s_controlConn (srv y) \<and>
    (s_controlConn (srv y) = None \<longleftrightarrow> currentEpoch (srv y) = None) \<and>
    (\<forall>c e. s_controlConn (srv y) = Some c \<longrightarrow> currentEpoch (srv y) = Some e \<longrightarrow> ctls y c = Some (Reading e)) \<and>
    (\<forall>c e. ctls y c = Some (Reading e) \<longrightarrow> runControl_cleanup c (srv y) \<noteq> None)"
proof -
  have ok: "control_ok y" using control_ok_reachable [OF assms] .
  have "runControl_cleanup c (srv y) \<noteq> None" for c
    using cleanup_current [OF ok, of c] cleanup_other [of "srv y" c]
    by (cases "s_controlConn (srv y) = Some c") auto
  with ok show ?thesis by (auto simp: control_ok_def currentEpoch_def split: option.splits)
qed

theorem control_generation_consistent_witness:
  "runControl_cleanup 0 (srv (y_reading [1, 2])) \<noteq> None"
  using control_generation_consistent [OF reach_reading [of defaultConfig "[1, 2]"]] by simp

text \<open>
  Property C11. In tcp mode no pool connection is lost, used twice, or used after it was closed: in every
  reachable state each admitted connection is in exactly one of three places (waiting in the queue, held by one
  flow, closed), and the queue never exceeds its 4096 places.
\<close>
theorem pool_connections_conserved:
  assumes "reachable cfg y" "Mode cfg = ''tcp''"
  shows "distinct (queued y) \<and> length (queued y) \<le> 4096 \<and>
    (\<forall>f g c. flows y f = Some (HasConn c) \<longrightarrow> flows y g = Some (HasConn c) \<longrightarrow> f = g) \<and>
    (\<forall>c. (c \<in> set (queued y) \<or> (\<exists>f. flows y f = Some (HasConn c))) \<longrightarrow> c \<in> pool y \<and> c \<notin> s_closed (srv y)) \<and>
    (\<forall>c f. flows y f = Some (HasConn c) \<longrightarrow> c \<notin> set (queued y)) \<and>
    (\<forall>c \<in> pool y. c \<in> set (queued y) \<or> (\<exists>f. flows y f = Some (HasConn c)) \<or> c \<in> s_closed (srv y))"
proof -
  have ok: "pool_ok y" using pool_ok_reachable [OF assms] .
  then have p: "pinv (queued y) (held (flows y)) (s_closed (srv y)) (pool y) (dom (ctls y))" "holds_once (flows y)"
    by (simp_all add: pool_ok_def)
  have h: "(\<exists>f. flows y f = Some (HasConn c)) \<longleftrightarrow> c \<in> held (flows y)" for c by (simp add: held_def)
  have 1: "flows y f = Some (HasConn c) \<longrightarrow> flows y g = Some (HasConn c) \<longrightarrow> f = g" for f g c
    using p(2) by (auto simp: holds_once_def)
  have 2: "flows y f = Some (HasConn c) \<longrightarrow> c \<notin> set (queued y)" for f c
    using p(1) by (auto simp: pinv_def held_def)
  show ?thesis unfolding h using p(1) 1 2 unfolding pinv_def by blast
qed

theorem pool_connections_conserved_witness:
  "distinct (queued (y_reading [7])) \<and> length (queued (y_reading [7])) \<le> 4096"
  using pool_connections_conserved [OF reach_reading [of tcp_config "[7]"]] by simp



section \<open>Races\<close>

abbreviation y_both_claimed :: sys where
  "y_both_claimed \<equiv> start\<lparr>ctls := [0 \<mapsto> Acking [1], 1 \<mapsto> Acking [2]]\<rparr>"

abbreviation y_first :: sys where
  "y_first \<equiv> start\<lparr>ctls := [0 \<mapsto> Reading [1], 1 \<mapsto> Acking [2]], srv := runControl_publish 0 [1] ''plain'' NewServer\<rparr>"

abbreviation s_second :: server where
  "s_second \<equiv> runControl_publish 1 [2] ''wss'' (runControl_publish 0 [1] ''plain'' NewServer)"

abbreviation y_second :: sys where
  "y_second \<equiv> start\<lparr>ctls := [0 \<mapsto> Reading [1], 1 \<mapsto> Reading [2]], srv := s_second\<rparr>"

lemma reach_second: "reachable cfg y_second"
proof -
  have "sstep cfg (y_claimed [1]) y_both_claimed"
    using sstep.claim [of "y_claimed [1]" 1 "Some [2]" "[2]" cfg]
    by (simp add: start_def NewServer_def admit_control_def randomBytes_def)
  note r1 = reach_step [OF reach_claimed this]
  have "sstep cfg y_both_claimed y_first"
    using sstep.publish [of y_both_claimed 0 "[1]" cfg "''plain''"]
    by (simp add: start_def fun_upd_twist)
  note r2 = reach_step [OF r1 this]
  have "sstep cfg y_first y_second"
    using sstep.publish [of y_first 1 "[2]" cfg "''wss''"]
    by (simp add: start_def)
  then show ?thesis using r2 by (rule reach_step [rotated])
qed

text \<open>
  Property C14. The busy check and the publication of a control connection are separate critical sections, so
  two control connections can both be admitted; when the first one then ends, its teardown closes a pool connection
  that no flow ever used while the second one is the current control connection and is alive.
\<close>
theorem stale_control_tears_down_next_generation:
  "\<exists>y. reachable tcp_config y \<and>
     s_controlConn (srv y) = Some 1 \<and> ctls y 1 = Some (Reading [2]) \<and> 1 \<notin> s_closed (srv y) \<and>
     ctls y 0 = Some Draining \<and> flows y = Map.empty \<and> 2 \<in> pool y \<and> 2 \<in> s_closed (srv y) \<and> queued y = []"
proof -
  let ?s3 = "s_second\<lparr>s_poolQueue := (make_chan 4096)\<lparr>buf := [2]\<rparr>, s_resource := notifier_broadcast newNotifier\<rparr>"
  let ?y3 = "y_second\<lparr>pool := {2}, srv := ?s3\<rparr>"
  have "sstep tcp_config y_second ?y3"
    using sstep.pool_conn [of y_second 2 tcp_config True]
    by (simp add: start_def NewServer_def runControl_publish_def admitPoolConn_def try_send_def make_chan_def)
  note r3 = reach_step [OF reach_second this]
  let ?y4 = "?y3\<lparr>ctls := [0 \<mapsto> Draining, 1 \<mapsto> Reading [2]], srv := ?s3\<lparr>s_closed := {0}\<rparr>\<rparr>"
  have "sstep tcp_config ?y3 ?y4"
    using sstep.control_ends [of ?y3 0 "[1]" "?s3\<lparr>s_closed := {0}\<rparr>" tcp_config]
    by (simp add: start_def NewServer_def runControl_publish_def runControl_cleanup_def fun_upd_twist)
  note r4 = reach_step [OF r3 this]
  let ?s5 = "?s3\<lparr>s_poolQueue := make_chan 4096, s_closed := {2, 0}\<rparr>"
  let ?y5 = "?y4\<lparr>srv := ?s5\<rparr>"
  have "sstep tcp_config ?y4 ?y5"
    using sstep.drain [of ?y4 0 ?s5 tcp_config]
    by (simp add: start_def teardown_drain_def try_recv_def make_chan_def)
  note r5 = reach_step [OF r4 this]
  show ?thesis
    by (rule exI [of _ ?y5], intro conjI, rule r5) (simp_all add: start_def make_chan_def)
qed

text \<open>
  Property C15. \<open>requestMore\<close> sends after it has released the lock; when the control connection ends in
  between, the send is on a closed channel and the process panics.
\<close>
theorem server_can_crash:
  "\<exists>y. reachable tcp_config y \<and> crashed y \<and> flows y 0 = Some (Asking (Some 0)) \<and> ctls y 0 = Some Draining"
proof -
  let ?y2 = "(y_reading [1])\<lparr>flows := [0 \<mapsto> Trying]\<rparr>"
  have "sstep tcp_config (y_reading [1]) ?y2"
    using sstep.flow_starts [of "y_reading [1]" 0 tcp_config] by (simp add: start_def)
  note r2 = reach_step [OF reach_reading this]
  let ?y3 = "(y_reading [1])\<lparr>flows := [0 \<mapsto> Asking (Some 0)]\<rparr>"
  have "sstep tcp_config ?y2 ?y3"
    using sstep.flow_misses [of ?y2 tcp_config 0]
    by (simp add: start_def NewServer_def pool_take_def try_recv_def make_chan_def requestMore_read_def)
  note r3 = reach_step [OF r2 this]
  let ?s0 = "runControl_publish 0 [1] ''plain'' NewServer"
  let ?s4 = "?s0\<lparr>s_controlConn := None, s_epoch := None, s_curDisguise := [], s_ctrlOut := None,
      s_outCh := (s_outCh ?s0)(0 := (make_chan 64)\<lparr>cclosed := True\<rparr>), s_closed := {0}\<rparr>"
  let ?y4 = "?y3\<lparr>ctls := [0 \<mapsto> Draining], srv := ?s4\<rparr>"
  have "sstep tcp_config ?y3 ?y4"
    using sstep.control_ends [of ?y3 0 "[1]" ?s4 tcp_config]
    by (simp add: start_def NewServer_def runControl_publish_def runControl_cleanup_def close_ctrlOut_def make_chan_def)
  note r4 = reach_step [OF r3 this]
  let ?y5 = "?y4\<lparr>crashed := True\<rparr>"
  have "sstep tcp_config ?y4 ?y5"
    using sstep.flow_panics [of ?y4 0 "Some 0" tcp_config]
    by (simp add: start_def requestMore_send_def try_send_def)
  note r5 = reach_step [OF r4 this]
  show ?thesis
    by (rule exI [of _ ?y5], intro conjI, rule r5) (simp_all add: start_def)
qed

end
