(* ===== verification/Client.thy ===== *)
theory Client
  imports Wire Disguises Backends "HOL-Library.Sublist"
begin

text \<open>
  The Kharej-side role, \<open>client.go\<close>: the reconnect loop over the profiles, the reading loop of one control
  generation, the maintainer that sizes the pool, the workers' bookkeeping, and what is done with a target.
  A time is in nanoseconds; the zero \<open>time.Time\<close> is 0. Pool connections, mux sessions and their \<open>stop\<close>
  channels are numbered.
\<close>

section \<open>The client's state\<close>

record client =
  c_profiles :: "profileState list"
  c_controlConn :: "nat option"
  c_epoch :: "bytes option"
  c_curProfile :: "nat option"
  c_rttMicros :: int
  c_activeCount :: int
  c_tcpIdle :: "nat set"
  c_sessions :: "nat list"
  c_streams :: "nat \<Rightarrow> int"
  c_stopped :: "nat set"

definition NewClient :: "Config \<Rightarrow> client" where
  "NewClient cfg = \<lparr>c_profiles = buildProfiles cfg, c_controlConn = None, c_epoch = None, c_curProfile = None,
     c_rttMicros = 0, c_activeCount = 0, c_tcpIdle = {}, c_sessions = [], c_streams = (\<lambda>k. 0), c_stopped = {}\<rparr>"

section \<open>The reconnect loop\<close>

text \<open>
  What \<open>Run\<close> does to the profile it tried and to the backoff, given how the attempt ended: the \<open>switch\<close>,
  without the final \<open>bo.wait\<close>.
\<close>

definition errDegraded :: goerror where "errDegraded = Msg ''profile degraded (sustained high RTT)''"

definition after_attempt ::
    "int \<Rightarrow> bool \<Rightarrow> goerror \<Rightarrow> int \<Rightarrow> profileState \<times> backoff \<Rightarrow> profileState \<times> backoff" where
  "after_attempt now established err lived st =
     (case st of (p, bo) \<Rightarrow>
        if err = errDegraded then (rotateAddr (onFailure now False p), bo)
        else if established \<and> lived \<ge> shortLivedThreshold then (onSuccess p, backoff_reset bo)
        else if established then (rotateAddr (onFailure now True p), bo)
        else (rotateAddr (onFailure now False p), bo))"

text \<open>
  One attempt as the loop sees it: when it began and ended, whether the handshake completed, the error. The
  result is the index of the profile tried, the delay slept, and the state for the next round; \<open>None\<close> is the
  panic of \<open>pickProfile\<close> on no profiles.
\<close>

definition run_round ::
    "int \<Rightarrow> int \<Rightarrow> bool \<Rightarrow> goerror \<Rightarrow> profileState list \<times> backoff \<Rightarrow> (nat \<times> int \<times> profileState list \<times> backoff) option" where
  "run_round startedAt endedAt established err st =
     (case st of (ps, bo) \<Rightarrow>
        (case pickProfile startedAt ps of
           None \<Rightarrow> None
         | Some i \<Rightarrow>
             (case after_attempt endedAt established err (endedAt - startedAt) (ps ! i, bo) of
                (p, bo1) \<Rightarrow> (case backoff_wait bo1 of (d, bo2) \<Rightarrow> Some (i, d, ps[i := p], bo2)))))"

section \<open>One control generation\<close>

text \<open>What happens to a generation: the pinger stamps the time it writes a heartbeat; a read returns.\<close>

datatype gen_event = PingSent int | ReadReturns int "goerror + byte"

record loop_state =
  pingSentAt :: int
  badStreak :: int
  rttMicros :: int
  needConn :: "unit chan"

definition loop_start :: loop_state where
  "loop_start = \<lparr>pingSentAt = 0, badStreak = 0, rttMicros = 0, needConn = make_chan 64\<rparr>"

text \<open>The \<open>switch\<close> of \<open>runOnce\<close> on a byte: the state, and the error when the loop is left.\<close>

definition on_byte :: "int \<Rightarrow> byte \<Rightarrow> loop_state \<Rightarrow> loop_state \<times> goerror option" where
  "on_byte now b st =
     (if b = sigHeartbeat then (st, None)
      else if b = sigPong then
        (if pingSentAt st = 0 then (st, None)
         else (let rtt = wrap64 (now - pingSentAt st); st = st\<lparr>rttMicros := go_quot rtt 1000\<rparr> in
           if go_quot rtt millisecond > degradedRTTMs then
             (let n = badStreak st + 1 in
              if n \<ge> degradedStreak then (st\<lparr>badStreak := n\<rparr>, Some errDegraded)
              else (st\<lparr>badStreak := n\<rparr>, None))
           else (st\<lparr>badStreak := 0\<rparr>, None)))
      else if b = sigNeedConn then
        (case try_send (needConn st) () of
           Sent ch \<Rightarrow> (st\<lparr>needConn := ch\<rparr>, None)
         | _ \<Rightarrow> (st, None))
      else if b = sigClose then (st, Some (Msg ''server requested close''))
      else (st, None))"

text \<open>\<open>None\<close> as the error: the generation is still alive when the events run out.\<close>

fun readLoop :: "gen_event list \<Rightarrow> loop_state \<Rightarrow> loop_state \<times> goerror option" where
  "readLoop [] st = (st, None)"
| "readLoop (PingSent t # es) st = readLoop es (st\<lparr>pingSentAt := t\<rparr>)"
| "readLoop (ReadReturns t (Inl e) # es) st = (st, Some e)"
| "readLoop (ReadReturns t (Inr b) # es) st =
     (case on_byte t b st of (st', Some e) \<Rightarrow> (st', Some e) | (st', None) \<Rightarrow> readLoop es st')"

text \<open>
  \<open>runOnce\<close> on connection \<open>conn\<close> and profile \<open>i\<close>: the dial and the handshake can fail; otherwise the generation
  is published, lives as long as the reading loop, and is withdrawn. The result is the client, whether
  the handshake completed, and the error; \<open>None\<close> while the loop runs.
\<close>

definition publish_generation :: "nat \<Rightarrow> bytes \<Rightarrow> nat \<Rightarrow> client \<Rightarrow> client" where
  "publish_generation conn epoch i c = c\<lparr>c_controlConn := Some conn, c_epoch := Some epoch, c_curProfile := Some i\<rparr>"

definition withdraw_generation :: "client \<Rightarrow> client" where
  "withdraw_generation c = c\<lparr>c_controlConn := None, c_epoch := None, c_curProfile := None\<rparr>"

definition runOnce ::
    "mac \<Rightarrow> Config \<Rightarrow> (Config \<Rightarrow> DisguiseConfig \<Rightarrow> goerror + conn) \<Rightarrow> nat \<Rightarrow> nat \<Rightarrow> gen_event list \<Rightarrow> client \<Rightarrow>
     (client \<times> bool \<times> goerror) option" where
  "runOnce mac cfg dial conn i events c =
     (case dialProfile dial cfg (c_profiles c ! i) of
        Inl e \<Rightarrow> Some (c, False, e)
      | Inr raw \<Rightarrow>
          (case clientHandshakeControl mac (Token cfg) raw of
             (_, Inl e) \<Rightarrow> Some (c, False, e)
           | (_, Inr epoch) \<Rightarrow>
               (let c1 = publish_generation conn epoch i c in
                case readLoop events loop_start of
                  (st, None) \<Rightarrow> None
                | (st, Some e) \<Rightarrow> Some (withdraw_generation (c1\<lparr>c_rttMicros := rttMicros st\<rparr>), True, e))))"

section \<open>The maintainer\<close>

text \<open>One tick: how many workers to spawn, how many times to call \<open>shrinkOne\<close>, and the new \<open>overSince\<close>.\<close>

definition maintainer_tick :: "Config \<Rightarrow> int \<Rightarrow> int \<Rightarrow> int \<Rightarrow> int \<times> int \<times> int" where
  "maintainer_tick cfg now n overSince =
     (if n < MinIdle cfg then (MinIdle cfg - n, 0, 0)
      else if n > MaxIdle cfg then
        (if overSince = 0 then (0, 0, now)
         else if wrap64 (now - overSince) > IdleGrace cfg then
           (let excess = n - MaxIdle cfg; batch = go_quot (excess + 1) 2 in (0, batch, overSince))
         else (0, 0, overSince))
      else (0, 0, 0))"

datatype spawn = NoSpawn | TcpWorker nat bytes | MuxWorker nat bytes | UdpWorker nat bytes

definition spawnOne :: "Config \<Rightarrow> client \<Rightarrow> spawn" where
  "spawnOne cfg c =
     (case (c_epoch c, c_curProfile c) of
        (Some epoch, Some i) \<Rightarrow>
          (if Mode cfg = ''tcp'' then TcpWorker i epoch
           else if Mode cfg = ''tcpmux'' then MuxWorker i epoch
           else if Mode cfg = ''udp'' then (if c_profiles c = [] then NoSpawn else UdpWorker 0 epoch)
           else NoSpawn)
      | _ \<Rightarrow> NoSpawn)"

text \<open>\<open>close(stop)\<close>: \<open>None\<close> is the panic on a channel that is closed already.\<close>

definition close_stop :: "nat \<Rightarrow> client \<Rightarrow> client option" where
  "close_stop k c = (if k \<in> c_stopped c then None else Some (c\<lparr>c_stopped := insert k (c_stopped c)\<rparr>))"

text \<open>
  \<open>shrinkOne\<close>: in tcp mode some idle connection (the iteration order of a Go map is not fixed: \<open>oneOf\<close>
  picks from a non-empty set), in tcpmux mode the first session without streams.
\<close>

definition shrinkOne :: "(nat set \<Rightarrow> nat) \<Rightarrow> Config \<Rightarrow> client \<Rightarrow> client option" where
  "shrinkOne oneOf cfg c =
     (if Mode cfg = ''tcp'' then
        (if c_tcpIdle c = {} then Some c
         else (let k = oneOf (c_tcpIdle c) in close_stop k (c\<lparr>c_tcpIdle := c_tcpIdle c - {k}\<rparr>)))
      else if Mode cfg = ''tcpmux'' then
        (case find (\<lambda>k. c_streams c k = 0) (c_sessions c) of
           None \<Rightarrow> Some c
         | Some k \<Rightarrow> close_stop k c)
      else Some c)"

fun shrink_batch :: "(nat set \<Rightarrow> nat) \<Rightarrow> Config \<Rightarrow> nat \<Rightarrow> client \<Rightarrow> client option" where
  "shrink_batch oneOf cfg 0 c = Some c"
| "shrink_batch oneOf cfg (Suc n) c =
     (case shrinkOne oneOf cfg c of None \<Rightarrow> None | Some c' \<Rightarrow> shrink_batch oneOf cfg n c')"

section \<open>Workers\<close>

definition active_add :: "int \<Rightarrow> client \<Rightarrow> client" where
  "active_add d c = c\<lparr>c_activeCount := c_activeCount c + d\<rparr>"

definition tcp_register :: "nat \<Rightarrow> client \<Rightarrow> client" where
  "tcp_register k c = c\<lparr>c_tcpIdle := insert k (c_tcpIdle c)\<rparr>"

definition tcp_unregister :: "nat \<Rightarrow> client \<Rightarrow> client" where
  "tcp_unregister k c = c\<lparr>c_tcpIdle := c_tcpIdle c - {k}\<rparr>"

definition mux_register :: "nat \<Rightarrow> client \<Rightarrow> client" where
  "mux_register k c = c\<lparr>c_sessions := c_sessions c @ [k]\<rparr>"

definition mux_unregister :: "nat \<Rightarrow> client \<Rightarrow> client" where
  "mux_unregister k c = c\<lparr>c_sessions := remove1 k (c_sessions c)\<rparr>"

definition session_streams :: "int \<Rightarrow> nat \<Rightarrow> client \<Rightarrow> client" where
  "session_streams d k c = c\<lparr>c_streams := (c_streams c)(k := c_streams c k + d)\<rparr>"

text \<open>
  The straight line of \<open>tcpPoolWorker\<close> on its connection: dial, handshake, and the target when the server
  sends one.
\<close>

definition tcpPoolWorker ::
    "mac \<Rightarrow> Config \<Rightarrow> (Config \<Rightarrow> DisguiseConfig \<Rightarrow> goerror + conn) \<Rightarrow> profileState \<Rightarrow> bytes \<Rightarrow> goerror + (conn \<times> string)" where
  "tcpPoolWorker mac cfg dial p epoch =
     (case dialProfile dial cfg p of
        Inl e \<Rightarrow> Inl e
      | Inr raw \<Rightarrow>
          (case clientHandshakePool mac (Token cfg) epoch raw of
             (_, Some e) \<Rightarrow> Inl e
           | (conn, None) \<Rightarrow>
               (case readString conn of
                  (_, Inl e) \<Rightarrow> Inl e
                | (conn', Inr target) \<Rightarrow> Inr (conn', target))))"

section \<open>Targets\<close>

definition udpTargetPrefix :: string where "udpTargetPrefix = ''udp:''"

definition isUDPTarget :: "string \<Rightarrow> string \<times> bool" where
  "isUDPTarget target =
     (if hasPrefix target udpTargetPrefix then (drop (length udpTargetPrefix) target, True) else (target, False))"

text \<open>The first of several backends is the one a UDP relay uses.\<close>

definition udp_backend :: "string \<Rightarrow> string" where
  "udp_backend addr = (case index_char addr CHR ''|'' of None \<Rightarrow> addr | Some i \<Rightarrow> take i addr)"

datatype carrier_use = RelayUDP string | PipeTCP string

definition serveTarget :: "string \<Rightarrow> (string \<rightharpoonup> backendPool) \<Rightarrow> carrier_use \<times> (string \<rightharpoonup> backendPool)" where
  "serveTarget target pools =
     (case isUDPTarget target of
        (addr, True) \<Rightarrow> (RelayUDP (udp_backend addr), pools)
      | (addr, False) \<Rightarrow> (case pickBackend target pools of (b, pools') \<Rightarrow> (PipeTCP b, pools')))"

text \<open>The status line; \<open>fmtMs\<close> prints a number of microseconds as milliseconds with one decimal.\<close>

definition client_Stats :: "(int \<Rightarrow> string) \<Rightarrow> Config \<Rightarrow> client \<Rightarrow> string" where
  "client_Stats fmtMs cfg c =
     (case (c_controlConn c, c_curProfile c) of
        (Some _, Some i) \<Rightarrow>
          ''['' @ profile_label (c_profiles c ! i) @ ''] '' @
          (if Mode cfg = ''tcpmux'' then ''sessions'' else ''idle pool'') @ ''='' @ itoa (c_activeCount c) @ ''  '' @
          (if c_rttMicros c > 0 then ''rtt='' @ fmtMs (c_rttMicros c) @ ''ms  '' else [])
      | _ \<Rightarrow> ''disconnected  '')"

section \<open>Sizing the pool\<close>

lemma tick_over:
  assumes "0 < MinIdle cfg" "MinIdle cfg \<le> MaxIdle cfg" "MaxIdle cfg < n" "n < 2 ^ 62"
    and "0 < t0" "t0 \<le> now" "now < 2 ^ 62"
  shows "maintainer_tick cfg now n t0 =
    (if now - t0 > IdleGrace cfg then (0, (n - MaxIdle cfg + 1) div 2, t0) else (0, 0, t0))"
  using assms by (simp add: maintainer_tick_def Let_def go_simps)

text \<open>The pool over several ticks when every shrink takes effect before the next one.\<close>

fun drain_ticks :: "Config \<Rightarrow> int list \<Rightarrow> int \<times> int \<Rightarrow> int \<times> int" where
  "drain_ticks cfg [] st = st"
| "drain_ticks cfg (now # ts) (n, t0) =
     (case maintainer_tick cfg now n t0 of (up, down, t1) \<Rightarrow> drain_ticks cfg ts (n + up - down, t1))"

lemma half_rest: "(e :: int) - (e + 1) div 2 = e div 2"
  by presburger

lemma drain_ticks_excess:
  assumes "0 < MinIdle cfg" "MinIdle cfg \<le> MaxIdle cfg" "0 < t0"
  shows "0 \<le> e \<Longrightarrow> MaxIdle cfg + e < 2 ^ 62 \<Longrightarrow> \<forall>t\<in>set ts. t0 + IdleGrace cfg < t \<and> t0 \<le> t \<and> t < 2 ^ 62 \<Longrightarrow>
    \<exists>t1. drain_ticks cfg ts (MaxIdle cfg + e, t0) = (MaxIdle cfg + e div 2 ^ length ts, t1)"
proof (induction ts arbitrary: e)
  case (Cons now ts)
  show ?case
  proof (cases "e = 0")
    case True
    have stay: "\<exists>t1. drain_ticks cfg us (MaxIdle cfg, s) = (MaxIdle cfg, t1)" for us s
      by (induction us arbitrary: s) (use assms(2) in \<open>simp_all add: maintainer_tick_def\<close>)
    with True show ?thesis by (simp del: drain_ticks.simps)
  next
    case False
    with Cons.prems have "0 < e" by simp
    then have "maintainer_tick cfg now (MaxIdle cfg + e) t0 = (0, (e + 1) div 2, t0)"
      using Cons.prems assms by (subst tick_over) simp_all
    then have "drain_ticks cfg (now # ts) (MaxIdle cfg + e, t0) = drain_ticks cfg ts (MaxIdle cfg + e div 2, t0)"
    proof -
      have "MaxIdle cfg + e + 0 - (e + 1) div 2 = MaxIdle cfg + e div 2" using half_rest [of e] by linarith
      then show ?thesis
        by (simp only: drain_ticks.simps \<open>maintainer_tick cfg now (MaxIdle cfg + e) t0 = _\<close> prod.case)
    qed
    moreover have "\<exists>t1. drain_ticks cfg ts (MaxIdle cfg + e div 2, t0) = (MaxIdle cfg + e div 2 div 2 ^ length ts, t1)"
      using Cons.prems by (intro Cons.IH) auto
    moreover have "e div 2 div 2 ^ length ts = e div 2 ^ length (now # ts)"
      by (simp add: zdiv_zmult2_eq)
    ultimately show ?thesis by simp
  qed
qed simp



section \<open>Degraded connections\<close>

text \<open>The events of a connection on which every ping is answered, as (sent, received).\<close>

definition ping_events :: "(int \<times> int) list \<Rightarrow> gen_event list" where
  "ping_events ps = concat (map (\<lambda>(s, r). [PingSent s, ReadReturns r (Inr sigPong)]) ps)"

definition slow :: "int \<times> int \<Rightarrow> bool" where
  "slow p \<longleftrightarrow> (snd p - fst p) div millisecond > degradedRTTMs"

definition ping_ok :: "int \<times> int \<Rightarrow> bool" where
  "ping_ok p \<longleftrightarrow> 0 < fst p \<and> fst p \<le> snd p \<and> snd p < 2 ^ 62"

fun streak_hits :: "int \<Rightarrow> bool list \<Rightarrow> bool" where
  "streak_hits s [] = False"
| "streak_hits s (b # bs) = (if b then s + 1 \<ge> 3 \<or> streak_hits (s + 1) bs else streak_hits 0 bs)"

lemma on_pong:
  assumes "ping_ok (s, r)"
  shows "on_byte r sigPong (st\<lparr>pingSentAt := s\<rparr>) =
    (let st' = st\<lparr>pingSentAt := s, rttMicros := (r - s) div 1000\<rparr> in
     if slow (s, r) then (st'\<lparr>badStreak := badStreak st + 1\<rparr>,
        if badStreak st + 1 \<ge> 3 then Some errDegraded else None)
     else (st'\<lparr>badStreak := 0\<rparr>, None))"
proof -
  have "wrap64 (r - s) = r - s" "go_quot (r - s) 1000 = (r - s) div 1000"
    "go_quot (r - s) millisecond = (r - s) div millisecond"
    using assms by (simp_all add: ping_ok_def go_simps)
  then show ?thesis
    using assms by (simp add: on_byte_def Let_def ping_ok_def slow_def degradedStreak_def sigPong_def sigHeartbeat_def)
qed

lemma readLoop_pings:
  "list_all ping_ok ps \<Longrightarrow> snd (readLoop (ping_events ps) st) =
     (if streak_hits (badStreak st) (map slow ps) then Some errDegraded else None)"
proof (induction ps arbitrary: st)
  case Nil
  then show ?case by (simp add: ping_events_def)
next
  case (Cons p ps)
  obtain s r where p: "p = (s, r)" by fastforce
  have e: "ping_events (p # ps) = PingSent s # ReadReturns r (Inr sigPong) # ping_events ps"
    by (simp add: ping_events_def p)
  have ok: "ping_ok (s, r)" "list_all ping_ok ps" using Cons.prems p by auto
  note IH = Cons.IH [OF ok(2)]
  show ?case
    unfolding e by (simp add: on_pong [OF ok(1)] Let_def p IH)
qed

lemma streak_hits_iff:
  "0 \<le> s \<Longrightarrow> s < 3 \<Longrightarrow>
     streak_hits s bs \<longleftrightarrow> prefix (replicate (nat (3 - s)) True) bs \<or> sublist [True, True, True] bs"
proof (induction bs arbitrary: s)
  case (Cons b bs)
  have z: "streak_hits 0 bs \<longleftrightarrow> sublist [True, True, True] bs"
    using Cons.IH [of 0] by (auto simp: numeral_3_eq_3 dest: prefix_imp_sublist)
  have sub: "sublist [True, True, True] (b # bs) \<longleftrightarrow> (b \<and> prefix [True, True] bs) \<or> sublist [True, True, True] bs"
    by (simp add: sublist_Cons_right)
  from Cons.prems consider "s = 0" | "s = 1" | "s = 2" by linarith
  then show ?case
  proof cases
    case 1
    with Cons.IH [of 1] sub z show ?thesis by (auto simp: numeral_3_eq_3 numeral_2_eq_2)
  next
    case 2
    with Cons.IH [of 2] sub z show ?thesis
      by (auto simp: numeral_3_eq_3 numeral_2_eq_2 prefix_def)
  next
    case 3
    with sub z show ?thesis by (auto simp: prefix_def)
  qed
qed (auto simp: prefix_def)

text \<open>
  A connection that answers every ping is given up as degraded exactly when three answers in a
  row took more than four seconds; isolated slow answers never end it.
\<close>
theorem degraded_after_three_slow:
  assumes "list_all ping_ok ps"
  shows "snd (readLoop (ping_events ps) loop_start) =
    (if sublist [True, True, True] (map slow ps) then Some errDegraded else None)"
proof -
  have "prefix [True, True, True] xs \<Longrightarrow> sublist [True, True, True] xs" for xs :: "bool list"
    by (rule prefix_imp_sublist)
  then show ?thesis
    using readLoop_pings [OF assms, of loop_start] streak_hits_iff [of 0 "map slow ps"]
    by (auto simp: loop_start_def numeral_3_eq_3)
qed

theorem degraded_after_three_slow_witness:
  "snd (readLoop (ping_events [(second, 6 * second), (7 * second, 12 * second), (13 * second, 18 * second)]) loop_start) =
     Some errDegraded"
  using degraded_after_three_slow [of "[(second, 6 * second), (7 * second, 12 * second), (13 * second, 18 * second)]"]
  by (simp add: ping_ok_def slow_def degradedRTTMs_def)

section \<open>Failing over\<close>

text \<open>
  A profile whose connection failed, degraded, or died young is not the one tried next while any
  other is available: in the five seconds after the failure the next round picks a different profile, the failed one
  has moved to its next address, and the other profiles are as they were.
\<close>
theorem failed_profile_sits_out:
  assumes "run_round started ended established err (ps, bo) = Some (i, d, ps', bo')"
    and "err = errDegraded \<or> \<not> established \<or> ended - started < shortLivedThreshold"
    and "0 \<le> failCount (ps ! i)" "failCount (ps ! i) < 10 ^ 9"
    and "j < length ps" "j \<noteq> i" "cooldownUntil (ps ! j) < now" "ended \<le> now" "now \<le> ended + 5 * second"
  shows "pickProfile now ps' \<noteq> Some i \<and> i < length ps \<and>
    addrIdx (ps' ! i) = addrIdx (rotateAddr (ps ! i)) \<and> (\<forall>k. k \<noteq> i \<longrightarrow> ps' ! k = ps ! k)"
proof -
  obtain p bo1 where a: "after_attempt ended established err (ended - started) (ps ! i, bo) = (p, bo1)" by fastforce
  from assms(1) a have pick: "pickProfile started ps = Some i" and ps': "ps' = ps[i := p]"
    by (auto simp: run_round_def split: option.splits prod.splits)
  have "ps \<noteq> []" using assms(5) by auto
  with pick have i: "i < length ps"
    by (auto simp: pickProfile_def first_available_Some split: option.splits)
  obtain e where p: "p = rotateAddr (onFailure ended e (ps ! i))"
    using a assms(2) by (auto simp: after_attempt_def split: if_splits)
  have "ended + 5 * second \<le> cooldownUntil p"
    unfolding p using onFailure_bounds(2) [OF assms(3,4), of ended e] assms(3) by simp
  then have busy: "\<not> now > cooldownUntil (ps' ! i)" using assms(9) i by (simp add: ps')
  have "now > cooldownUntil (ps' ! j)" "ps' ! j \<in> set ps'"
    using assms(5-7) nth_mem [of j ps'] by (simp_all add: ps')
  then obtain k where k: "first_available now ps' = Some k"
    using first_available_None [of now ps'] by (cases "first_available now ps'") auto
  then have "k \<noteq> i" using busy by (auto simp: first_available_Some)
  have "addrIdx (onFailure ended e (ps ! i)) = addrIdx (ps ! i)" "pcfg (onFailure ended e (ps ! i)) = pcfg (ps ! i)"
    by simp_all
  then have "addrIdx p = addrIdx (rotateAddr (ps ! i))" by (simp add: p rotateAddr_def)
  with k \<open>k \<noteq> i\<close> i show ?thesis by (simp add: pickProfile_def ps')
qed

theorem failed_profile_sits_out_witness:
  "\<exists>d ps' bo'. run_round 200 (200 + second) False EOF (sample_profiles, newBackoff second second) = Some (0, d, ps', bo') \<and>
     pickProfile (200 + 2 * second) ps' \<noteq> Some 0"
proof -
  have pick: "pickProfile 200 sample_profiles = Some 0" by (simp add: pickProfile_def sample_profiles_def)
  obtain i d ps' bo' where r: "run_round 200 (200 + second) False EOF (sample_profiles, newBackoff second second) = Some (i, d, ps', bo')"
    using pick by (cases "after_attempt (200 + second) False EOF (200 + second - 200) (sample_profiles ! 0, newBackoff second second)";
        cases "backoff_wait (snd (after_attempt (200 + second) False EOF (200 + second - 200) (sample_profiles ! 0, newBackoff second second)))")
      (simp add: run_round_def)
  have "i = 0" using r pick by (auto simp: run_round_def split: prod.splits)
  with failed_profile_sits_out [OF r, of 1 "200 + 2 * second"] r show ?thesis
    by (auto simp: sample_profiles_def)
qed

section \<open>Shrinking\<close>

text \<open>
  Shrinking in tcp mode is safe: as long as the registered connections have open \<open>stop\<close> channels, a
  batch of any size never panics, stops as many distinct idle connections as it can, and touches no
  connection that is not registered as idle.
\<close>
theorem tcp_shrink_safe:
  assumes "Mode cfg = ''tcp''" "\<And>A. finite A \<Longrightarrow> A \<noteq> {} \<Longrightarrow> oneOf A \<in> A" "finite (c_tcpIdle c)"
    and "c_tcpIdle c \<inter> c_stopped c = {}"
  shows "\<exists>c' X. shrink_batch oneOf cfg n c = Some c' \<and> X \<subseteq> c_tcpIdle c \<and>
    card X = min n (card (c_tcpIdle c)) \<and> c_tcpIdle c' = c_tcpIdle c - X \<and> c_stopped c' = c_stopped c \<union> X \<and>
    c_activeCount c' = c_activeCount c"
  using assms(3,4)
proof (induction n arbitrary: c)
  case 0
  show ?case by (intro exI [of _ c] exI [of _ "{}"]) simp
next
  case (Suc n)
  show ?case
  proof (cases "c_tcpIdle c = {}")
    case True
    then have "shrinkOne oneOf cfg c = Some c" using assms(1) by (simp add: shrinkOne_def)
    with Suc.IH [OF Suc.prems] True show ?thesis by auto
  next
    case False
    let ?k = "oneOf (c_tcpIdle c)"
    let ?c = "c\<lparr>c_tcpIdle := c_tcpIdle c - {?k}, c_stopped := insert ?k (c_stopped c)\<rparr>"
    have k: "?k \<in> c_tcpIdle c" "?k \<notin> c_stopped c" using assms(2) False Suc.prems by auto
    then have one: "shrinkOne oneOf cfg c = Some ?c"
      using assms(1) False by (simp add: shrinkOne_def close_stop_def Let_def)
    obtain c' X where ih: "shrink_batch oneOf cfg n ?c = Some c'" "X \<subseteq> c_tcpIdle c - {?k}"
        "card X = min n (card (c_tcpIdle c - {?k}))" "c_tcpIdle c' = c_tcpIdle c - {?k} - X"
        "c_stopped c' = insert ?k (c_stopped c) \<union> X" "c_activeCount c' = c_activeCount c"
    proof -
      have "finite (c_tcpIdle ?c)" "c_tcpIdle ?c \<inter> c_stopped ?c = {}" using Suc.prems by auto
      from Suc.IH [OF this] that show ?thesis by fastforce
    qed
    have "finite X" using ih(2) Suc.prems(1) finite_subset by blast
    moreover have "?k \<notin> X" using ih(2) by blast
    ultimately have "card (insert ?k X) = Suc (card X)" by (rule card_insert_disjoint)
    also have "\<dots> = min (Suc n) (card (c_tcpIdle c))"
      using ih(3) k(1) Suc.prems(1) card_Suc_Diff1 [of "c_tcpIdle c" ?k] by simp
    finally show ?thesis
      using one ih k by (intro exI [of _ c'] exI [of _ "insert ?k X"]) auto
  qed
qed

theorem tcp_shrink_safe_witness:
  "\<exists>c'. shrink_batch Min (defaultConfig\<lparr>Mode := ''tcp''\<rparr>) 2 ((NewClient defaultConfig)\<lparr>c_tcpIdle := {3, 5, 8}\<rparr>) = Some c' \<and>
     card (c_tcpIdle c') = 1"
proof -
  let ?c = "(NewClient defaultConfig)\<lparr>c_tcpIdle := {3, 5, 8}\<rparr>"
  obtain c' X where "shrink_batch Min (defaultConfig\<lparr>Mode := ''tcp''\<rparr>) 2 ?c = Some c'" "X \<subseteq> {3, 5, 8}" "card X = 2"
      "c_tcpIdle c' = {3, 5, 8} - X"
    using tcp_shrink_safe [of "defaultConfig\<lparr>Mode := ''tcp''\<rparr>" Min ?c 2] by (auto simp: NewClient_def)
  moreover have "card ({3, 5, 8 :: nat} - X) = 3 - card X"
    using \<open>X \<subseteq> {3, 5, 8}\<close> by (subst card_Diff_subset) (auto intro: finite_subset)
  ultimately show ?thesis by simp
qed

text \<open>
  Shrinking in tcpmux mode is not: \<open>shrinkOne\<close> closes the \<open>stop\<close> channel of the first session without
  streams and leaves the session in the list, so a second call before that session's worker has removed it
  closes the same channel again, and every batch of two or more panics.
\<close>
theorem mux_shrink_panics:
  assumes "Mode cfg = ''tcpmux''" "k \<in> set (c_sessions c)" "c_streams c k = 0" "2 \<le> n"
  shows "shrink_batch oneOf cfg n c = None"
proof -
  obtain j where j: "find (\<lambda>k. c_streams c k = 0) (c_sessions c) = Some j"
    using assms(2,3) by (cases "find (\<lambda>k. c_streams c k = 0) (c_sessions c)") (auto simp: find_None_iff)
  obtain m where m: "n = Suc (Suc m)" using assms(4) by (metis add_2_eq_Suc le_Suc_ex)
  show ?thesis
  proof (cases "j \<in> c_stopped c")
    case True
    with j assms(1) show ?thesis by (simp add: m shrinkOne_def close_stop_def)
  next
    case False
    with j assms(1) show ?thesis by (simp add: m shrinkOne_def close_stop_def)
  qed
qed

theorem mux_shrink_panics_witness:
  "maintainer_tick defaultConfig (60 * second) 20 second = (0, 2, second) \<and>
   shrink_batch Min defaultConfig 2 ((NewClient defaultConfig)\<lparr>c_sessions := [0, 1, 2, 3]\<rparr>) = None"
  using mux_shrink_panics [of defaultConfig 1 "(NewClient defaultConfig)\<lparr>c_sessions := [0, 1, 2, 3]\<rparr>" 2 Min]
  by (simp add: NewClient_def defaultConfig_def maintainer_tick_def Let_def go_simps)

section \<open>Targets\<close>

lemma udp_prefix [simp]: "isUDPTarget (udpTargetPrefix @ t) = (t, True)"
  by (simp add: isUDPTarget_def hasPrefix_append)

text \<open>
  The client uses a carrier for what the server meant: the marked target of a UDP session is relayed
  to the first of its backends, any other target is dialed at one of its backends, and UDP flows leave the
  backend pools alone. (A TCP target that itself begins with the marker would be taken for UDP.)
\<close>
theorem carrier_used_as_announced:
  assumes "bs \<noteq> []" "\<forall>b\<in>set bs. CHR ''|'' \<notin> set b \<and> b \<noteq> [] \<and> trimSpace b = b"
    and "\<forall>t p. pools t = Some p \<longrightarrow> backends p = backends (newPool t)"
  shows "serveTarget (udpTargetPrefix @ join bs ''|'') pools = (RelayUDP (hd bs), pools) \<and>
    (\<not> hasPrefix (join bs ''|'') udpTargetPrefix \<longrightarrow>
       (\<exists>b \<in> set bs. fst (serveTarget (join bs ''|'') pools) = PipeTCP b))"
proof -
  obtain b bs' where bs: "bs = b # bs'" using assms(1) by (cases bs) auto
  have "udp_backend (join bs ''|'') = b"
  proof (cases bs')
    case Nil
    then show ?thesis using assms(2) bs by (simp add: udp_backend_def index_char_None [THEN iffD2])
  next
    case (Cons x xs)
    have "index_char (b @ CHR ''|'' # join bs' ''|'') CHR ''|'' = Some (length b)"
      using assms(2) bs by (intro index_char_append) simp
    then show ?thesis using bs Cons by (simp add: udp_backend_def)
  qed
  then have 1: "serveTarget (udpTargetPrefix @ join bs ''|'') pools = (RelayUDP (hd bs), pools)"
    by (simp add: serveTarget_def bs)
  have "split_char (join bs ''|'') CHR ''|'' = bs" using assms(1,2) by (intro split_char_join) auto
  moreover have "map trimSpace bs = bs" using assms(2) by (simp add: map_idI)
  moreover have "filter (\<lambda>b. b \<noteq> []) bs = bs" using assms(2) by (simp add: filter_id_conv)
  ultimately have np: "backends (newPool (join bs ''|'')) = bs" by (simp add: newPool_def Let_def)
  obtain p pools' f where g: "getBackendPool (join bs ''|'') pools = (p, pools', f)" by (metis prod_cases3)
  then have p: "backends p = bs"
    using assms(3) np by (auto simp: getBackendPool_def Let_def split: option.splits)
  then have "fst (pick p) \<in> set bs" using pick_cases [of p] assms(1) by simp
  then have "fst (pickBackend (join bs ''|'') pools) \<in> set bs"
    by (cases "pick p") (simp add: pickBackend_def g)
  then have 2: "\<exists>b \<in> set bs. fst (serveTarget (join bs ''|'') pools) = PipeTCP b"
    if "\<not> hasPrefix (join bs ''|'') udpTargetPrefix"
    using that by (auto simp: serveTarget_def isUDPTarget_def split: prod.splits)
  from 1 2 show ?thesis by blast
qed

theorem carrier_used_as_announced_witness:
  "serveTarget (udpTargetPrefix @ ''a:1|b:2'') Map.empty = (RelayUDP ''a:1'', Map.empty)"
  using carrier_used_as_announced [of "[''a:1'', ''b:2'']" Map.empty]
  by (simp add: trimSpace_def is_space_def)

end
