(* ===== verification/Direct.thy ===== *)
theory Direct
  imports Server Client
begin

text \<open>
  Direction "direct", \<open>direct.go\<close>: the server dials and the client listens. The dialing half mirrors \<open>client.go\<close>,
  the listening half mirrors \<open>server.go\<close>; the definitions here are the mirrored code as it stands, and the
  theorems compare it with what it mirrors.
\<close>

section \<open>The server dials\<close>

text \<open>The \<open>switch\<close> of \<open>runDialer\<close>, and one round of its loop.\<close>

definition dialer_after_attempt ::
    "int \<Rightarrow> bool \<Rightarrow> goerror \<Rightarrow> int \<Rightarrow> profileState \<times> backoff \<Rightarrow> profileState \<times> backoff" where
  "dialer_after_attempt now established err lived st =
     (case st of (p, bo) \<Rightarrow>
        if err = errDegraded then (rotateAddr (onFailure now False p), bo)
        else if established \<and> lived \<ge> shortLivedThreshold then (onSuccess p, backoff_reset bo)
        else if established then (rotateAddr (onFailure now True p), bo)
        else (rotateAddr (onFailure now False p), bo))"

definition runDialer_round ::
    "int \<Rightarrow> int \<Rightarrow> bool \<Rightarrow> goerror \<Rightarrow> profileState list \<times> backoff \<Rightarrow> (nat \<times> int \<times> profileState list \<times> backoff) option" where
  "runDialer_round startedAt endedAt established err st =
     (case st of (ps, bo) \<Rightarrow>
        (case pickProfile startedAt ps of
           None \<Rightarrow> None
         | Some i \<Rightarrow>
             (case dialer_after_attempt endedAt established err (endedAt - startedAt) (ps ! i, bo) of
                (p, bo1) \<Rightarrow> (case backoff_wait bo1 of (d, bo2) \<Rightarrow> Some (i, d, ps[i := p], bo2)))))"

text \<open>The \<open>switch\<close> of \<open>dialControlOnce\<close>: it has no case for \<open>sigNeedConn\<close> and keeps no RTT.\<close>

definition dialer_on_byte :: "int \<Rightarrow> byte \<Rightarrow> int \<times> int \<Rightarrow> (int \<times> int) \<times> goerror option" where
  "dialer_on_byte now b st =
     (case st of (sent, streak) \<Rightarrow>
        if b = sigHeartbeat then ((sent, streak), None)
        else if b = sigPong then
          (if sent = 0 then ((sent, streak), None)
           else (let rtt = wrap64 (now - sent) in
             if go_quot rtt millisecond > degradedRTTMs then
               (let n = streak + 1 in
                if n \<ge> degradedStreak then ((sent, n), Some errDegraded) else ((sent, n), None))
             else ((sent, 0), None)))
        else if b = sigClose then ((sent, streak), Some (Msg ''peer requested close''))
        else ((sent, streak), None))"

fun dialer_readLoop :: "gen_event list \<Rightarrow> int \<times> int \<Rightarrow> goerror option" where
  "dialer_readLoop [] st = None"
| "dialer_readLoop (PingSent t # es) st = dialer_readLoop es (t, snd st)"
| "dialer_readLoop (ReadReturns t (Inl e) # es) st = Some e"
| "dialer_readLoop (ReadReturns t (Inr b) # es) st =
     (case dialer_on_byte t b st of (st', Some e) \<Rightarrow> Some e | (st', None) \<Rightarrow> dialer_readLoop es st')"

text \<open>The generation \<open>dialControlOnce\<close> publishes has no outgoing channel.\<close>

definition dialer_publish :: "nat \<Rightarrow> bytes \<Rightarrow> string \<Rightarrow> server \<Rightarrow> server" where
  "dialer_publish conn epoch dtype s =
     s\<lparr>s_controlConn := Some conn, s_epoch := Some epoch, s_curDisguise := dtype\<rparr>"

definition dialer_withdraw :: "nat \<Rightarrow> bytes \<Rightarrow> server \<Rightarrow> server" where
  "dialer_withdraw conn epoch s =
     teardownEpoch epoch
       (if s_controlConn s = Some conn then s\<lparr>s_controlConn := None, s_epoch := None, s_curDisguise := []\<rparr> else s)"

definition dialControlOnce ::
    "mac \<Rightarrow> Config \<Rightarrow> (Config \<Rightarrow> DisguiseConfig \<Rightarrow> goerror + conn) \<Rightarrow> nat \<Rightarrow> profileState \<Rightarrow> gen_event list \<Rightarrow> server \<Rightarrow>
     (server \<times> bool \<times> goerror) option" where
  "dialControlOnce mac cfg dial conn p events s =
     (case dialProfile dial cfg p of
        Inl e \<Rightarrow> Some (s, False, e)
      | Inr raw \<Rightarrow>
          (case clientHandshakeControl mac (Token cfg) raw of
             (_, Inl e) \<Rightarrow> Some (s, False, e)
           | (_, Inr epoch) \<Rightarrow>
               (case dialer_readLoop events (0, 0) of
                  None \<Rightarrow> None
                | Some e \<Rightarrow> Some (dialer_withdraw conn epoch (dialer_publish conn epoch (DType (pcfg p)) s), True, e))))"

definition poolCount :: "Config \<Rightarrow> server \<Rightarrow> int" where
  "poolCount cfg s =
     (if Mode cfg = ''tcp'' then int (length (buf (s_poolQueue s))) else int (length (s_sessions s)))"

text \<open>How many \<open>spawn\<close>s a tick of \<open>dialMaintainer\<close> starts.\<close>

definition dialMaintainer_tick :: "Config \<Rightarrow> server \<Rightarrow> nat" where
  "dialMaintainer_tick cfg s = nat (MinIdle cfg - poolCount cfg s)"

text \<open>\<open>spawn\<close>: the connection \<open>k\<close> it dials is admitted if the dial and the handshake succeed.\<close>

definition dialMaintainer_spawn ::
    "mac \<Rightarrow> Config \<Rightarrow> (Config \<Rightarrow> DisguiseConfig \<Rightarrow> goerror + conn) \<Rightarrow> profileState \<Rightarrow> bytes \<Rightarrow> bool \<Rightarrow> nat \<Rightarrow> server \<Rightarrow> server" where
  "dialMaintainer_spawn mac cfg dial p epoch muxOk k s =
     (case dialProfile dial cfg p of
        Inl e \<Rightarrow> s
      | Inr raw \<Rightarrow>
          (case clientHandshakePool mac (Token cfg) epoch raw of
             (_, Some e) \<Rightarrow> s\<lparr>s_closed := insert k (s_closed s)\<rparr>
           | (_, None) \<Rightarrow> admitPoolConn cfg muxOk k s))"

section \<open>The client listens\<close>

definition client_currentEpoch :: "client \<Rightarrow> bytes option" where
  "client_currentEpoch c = c_epoch c"

definition client_admit_control :: "bytes option \<Rightarrow> client \<Rightarrow> admit_outcome" where
  "client_admit_control rnd c =
     (if c_controlConn c \<noteq> None then AdmitBusy
      else (case randomBytes rnd of Inl e \<Rightarrow> AdmitFailed | Inr epoch \<Rightarrow> AdmitControl epoch))"

definition client_admitTunnelConn ::
    "mac \<Rightarrow> bytes option \<Rightarrow> bytes option \<Rightarrow> Config \<Rightarrow> client \<Rightarrow> conn \<Rightarrow> conn \<times> admit_outcome" where
  "client_admitTunnelConn mac rnd rnd2 cfg c conn =
     (case serverHandshake mac rnd (Token cfg) (client_currentEpoch c) conn of
        (c1, Inl e) \<Rightarrow> (conn_close c1, AdmitFailed)
      | (c1, Inr res) \<Rightarrow>
          if arole res = roleControl then
            (case client_admit_control rnd2 c of
               AdmitControl epoch \<Rightarrow>
                 (case serverAckControl epoch c1 of
                    (c2, Some e) \<Rightarrow> (conn_close c2, AdmitFailed)
                  | (c2, None) \<Rightarrow> (c2, AdmitControl epoch))
             | AdmitBusy \<Rightarrow> (conn_close (serverRefuse ackBusy c1), AdmitBusy)
             | out \<Rightarrow> (conn_close c1, out))
          else if arole res = rolePool then
            (case serverAckPool c1 of
               (c2, Some e) \<Rightarrow> (conn_close c2, AdmitFailed)
             | (c2, None) \<Rightarrow> (c2, AdmitPool))
          else (c1, AdmitNothing))"

text \<open>
  \<open>findProfile\<close>: the index of the profile made for entry \<open>d\<close>; entries are compared by identity, here
  the position of \<open>d\<close> in the configuration, which \<open>buildProfiles\<close> keeps for enabled entries.
\<close>

definition enabled_positions :: "Config \<Rightarrow> nat list" where
  "enabled_positions cfg = filter (\<lambda>i. Enabled (Disguise cfg ! i)) [0..<length (Disguise cfg)]"

fun index_of :: "nat list \<Rightarrow> nat \<Rightarrow> nat option" where
  "index_of [] d = None"
| "index_of (x # xs) d = (if x = d then Some 0 else map_option Suc (index_of xs d))"

definition findProfile :: "Config \<Rightarrow> nat \<Rightarrow> nat option" where
  "findProfile cfg d = index_of (enabled_positions cfg) d"

definition listener_publish :: "nat \<Rightarrow> bytes \<Rightarrow> nat option \<Rightarrow> client \<Rightarrow> client" where
  "listener_publish conn epoch prof c = c\<lparr>c_controlConn := Some conn, c_epoch := Some epoch, c_curProfile := prof\<rparr>"

definition listener_withdraw :: "nat \<Rightarrow> client \<Rightarrow> client" where
  "listener_withdraw conn c =
     (if c_controlConn c = Some conn then c\<lparr>c_controlConn := None, c_epoch := None, c_curProfile := None\<rparr> else c)"

definition listener_read :: "byte \<Rightarrow> read_next" where
  "listener_read b =
     (if b = sigClose then EndControl else if b = sigHeartbeat then AnswerPong else ReadOn)"

text \<open>\<open>serveAcceptedCarrier\<close> in tcp mode: the target read from the connection, and what becomes of it.\<close>

definition serveAcceptedCarrier ::
    "conn \<Rightarrow> (string \<rightharpoonup> backendPool) \<Rightarrow> conn \<times> (goerror + carrier_use) \<times> (string \<rightharpoonup> backendPool)" where
  "serveAcceptedCarrier conn pools =
     (case readString conn of
        (c1, Inl e) \<Rightarrow> (conn_close c1, Inl e, pools)
      | (c1, Inr target) \<Rightarrow> (case serveTarget target pools of (u, pools') \<Rightarrow> (c1, Inr u, pools')))"

section \<open>The mirrored halves agree\<close>

lemma dialer_on_byte_mirrors:
  assumes "b \<noteq> sigClose" "on_byte t b st = (st', r)"
  shows "dialer_on_byte t b (pingSentAt st, badStreak st) = ((pingSentAt st', badStreak st'), r)"
  using assms
  by (auto simp: dialer_on_byte_def on_byte_def Let_def split: if_splits send_result.splits)

lemma dialer_readLoop_mirrors:
  assumes "\<forall>t. ReadReturns t (Inr sigClose) \<notin> set es"
  shows "dialer_readLoop es (pingSentAt st, badStreak st) = snd (readLoop es st)"
  using assms
proof (induction es arbitrary: st)
  case (Cons e es)
  show ?case
  proof (cases e)
    case (PingSent t)
    with Cons.IH [of "st\<lparr>pingSentAt := t\<rparr>"] Cons.prems show ?thesis by simp
  next
    case (ReadReturns t r)
    show ?thesis
    proof (cases r)
      case (Inl x)
      with ReadReturns show ?thesis by simp
    next
      case (Inr b)
      with ReadReturns Cons.prems have b: "b \<noteq> sigClose" by auto
      obtain st' o1 where o: "on_byte t b st = (st', o1)" by fastforce
      note d = dialer_on_byte_mirrors [OF b o]
      have "\<forall>t. ReadReturns t (Inr sigClose) \<notin> set es" using Cons.prems by auto
      note ih = Cons.IH [OF this, of st']
      show ?thesis using ReadReturns Inr o d ih by (cases o1) simp_all
    qed
  qed
qed simp

text \<open>
  Property C38. Direct mode keeps the failover policy of reverse mode: on the same history of pings, answers, \<open>NEED_CONN\<close>
  signals and read errors the dialing server leaves its reading loop at the same point with the same error
  as the client would, and makes the same decision about the profile, its address and the backoff.
\<close>
theorem dialer_mirrors_client:
  assumes "\<forall>t. ReadReturns t (Inr sigClose) \<notin> set es"
  shows "dialer_readLoop es (0, 0) = snd (readLoop es loop_start) \<and>
    runDialer_round t0 t1 est err st = run_round t0 t1 est err st"
proof -
  have "dialer_after_attempt = after_attempt"
    by (intro ext) (simp add: dialer_after_attempt_def after_attempt_def)
  then have "runDialer_round t0 t1 est err st = run_round t0 t1 est err st"
    unfolding runDialer_round_def run_round_def by (rule ssubst) (rule refl)
  with dialer_readLoop_mirrors [OF assms, of loop_start] show ?thesis by (simp add: loop_start_def)
qed

theorem dialer_mirrors_client_witness:
  "dialer_readLoop [PingSent 5, ReadReturns 9 (Inr sigPong), ReadReturns 10 (Inl EOF)] (0, 0) =
     snd (readLoop [PingSent 5, ReadReturns 9 (Inr sigPong), ReadReturns 10 (Inl EOF)] loop_start)"
proof -
  have "\<forall>t. ReadReturns t (Inr sigClose) \<notin> set [PingSent 5, ReadReturns 9 (Inr sigPong), ReadReturns 10 (Inl EOF)]"
    by (simp add: sigClose_def sigPong_def)
  from dialer_mirrors_client [OF this] show ?thesis by blast
qed

lemma teardown_drain_all_controls:
  "s_controlConn (teardown_drain_all s) = s_controlConn s \<and> s_epoch (teardown_drain_all s) = s_epoch s \<and>
   s_sessions (teardown_drain_all s) = s_sessions s \<and> s_sessClosed (teardown_drain_all s) = s_sessClosed s"
proof (induction s rule: teardown_drain_all.induct)
  case (1 s)
  show ?case
  proof (cases "teardown_drain s")
    case None
    then show ?thesis by (simp add: teardown_drain_all.simps [of s])
  next
    case (Some s')
    then have "s_controlConn s' = s_controlConn s" "s_epoch s' = s_epoch s" "s_sessions s' = s_sessions s"
      "s_sessClosed s' = s_sessClosed s"
      by (auto simp: teardown_drain_def split: option.splits)
    with 1 Some show ?thesis by (simp add: teardown_drain_all.simps [of s])
  qed
qed

lemma teardown_drain_all_queue:
  "buf (s_poolQueue (teardown_drain_all s)) = [] \<and>
   s_closed (teardown_drain_all s) = s_closed s \<union> set (buf (s_poolQueue s))"
proof (induction s rule: teardown_drain_all.induct)
  case (1 s)
  show ?case
  proof (cases "buf (s_poolQueue s)")
    case Nil
    then show ?thesis
      by (simp add: teardown_drain_all.simps [of s] teardown_drain_def try_recv_def)
  next
    case (Cons c q)
    let ?s = "s\<lparr>s_poolQueue := (s_poolQueue s)\<lparr>buf := q\<rparr>, s_closed := insert c (s_closed s)\<rparr>"
    have d: "teardown_drain s = Some ?s" using Cons by (simp add: teardown_drain_def try_recv_def)
    from 1 [OF d] d Cons show ?thesis by (simp add: teardown_drain_all.simps [of s])
  qed
qed

text \<open>
  A generation that \<open>dialControlOnce\<close> ends leaves nothing behind: every queued connection is closed,
  every session is closed and forgotten, and no control connection and no epoch are published.
\<close>
theorem dialed_generation_cleans_up:
  assumes "dialControlOnce mac cfg dial conn p es s = Some (s', True, e)"
  shows "s_controlConn s' = None \<and> s_epoch s' = None \<and> buf (s_poolQueue s') = [] \<and>
    set (buf (s_poolQueue s)) \<subseteq> s_closed s' \<and> s_sessions s' = [] \<and> set (s_sessions s) \<subseteq> s_sessClosed s' \<and>
    poolCount cfg s' = 0"
proof -
  obtain epoch where s': "s' = dialer_withdraw conn epoch (dialer_publish conn epoch (DType (pcfg p)) s)"
    using assms by (auto simp: dialControlOnce_def split: sum.splits prod.splits option.splits)
  let ?s = "(dialer_publish conn epoch (DType (pcfg p)) s)\<lparr>s_controlConn := None, s_epoch := None, s_curDisguise := []\<rparr>"
  have "s' = teardown_sessions (teardown_drain_all ?s)"
    by (simp add: s' dialer_withdraw_def dialer_publish_def teardownEpoch_def)
  then show ?thesis
    using teardown_drain_all_controls [of ?s] teardown_drain_all_queue [of ?s]
    by (simp add: teardown_sessions_def poolCount_def dialer_publish_def)
qed

definition sample_dial :: "Config \<Rightarrow> DisguiseConfig \<Rightarrow> goerror + conn" where
  "sample_dial cfg d = Inr (fresh_conn (replicate 16 7 @ [ackOK] @ replicate 8 9))"

theorem dialed_generation_cleans_up_witness:
  "\<exists>s'. dialControlOnce toy_mac defaultConfig sample_dial 4 (sample_profiles ! 1)
      [ReadReturns 1 (Inl EOF)] (NewServer\<lparr>s_sessions := [1, 2]\<rparr>) = Some (s', True, EOF) \<and> s_sessions s' = []"
proof -
  have h: "snd (clientHandshakeControl toy_mac [] (fresh_conn (replicate 16 7 @ [ackOK] @ replicate 8 9))) = Inr (replicate 8 9)"
    by (simp add: clientHandshakeControl_def clientHandshakeControl_body_def writeHeader_def fresh_conn_def
        setDeadline_def readFull_def conn_write_def readByte_def)
  then obtain s' where d: "dialControlOnce toy_mac defaultConfig sample_dial 4 (sample_profiles ! 1)
      [ReadReturns 1 (Inl EOF)] (NewServer\<lparr>s_sessions := [1, 2]\<rparr>) = Some (s', True, EOF)"
    by (cases "clientHandshakeControl toy_mac [] (fresh_conn (replicate 16 7 @ [ackOK] @ replicate 8 9))")
      (simp add: dialControlOnce_def dialProfile_def sample_dial_def defaultConfig_def)
  with dialed_generation_cleans_up [OF d] show ?thesis by simp
qed

text \<open>Dead sessions count as capacity: with nothing but dead sessions the maintainer dials nothing.\<close>

lemma dead_sessions_are_not_replaced:
  assumes "Mode cfg = ''tcpmux''" "int (length (s_sessions s)) \<ge> MinIdle cfg"
  shows "dialMaintainer_tick cfg (s\<lparr>s_sessClosed := set (s_sessions s)\<rparr>) = 0"
  using assms by (simp add: dialMaintainer_tick_def poolCount_def)



end
