(* ===== verification/Udp_Relay.thy ===== *)
theory Udp_Relay
  imports Server Client
begin

text \<open>
  UDP forwarding over the tunnel's stream carriers, \<open>udp.go\<close>: the session table of a forwarded port, and the datagrams
  as they cross a carrier. A session is numbered; its carrier and its \<open>release\<close> function have its number.
\<close>

definition udpIdleTimeout :: int where "udpIdleTimeout = 90 * second"
definition udpReapInterval :: int where "udpReapInterval = 30 * second"
definition maxUDPDatagram :: nat where "maxUDPDatagram = 65507"

section \<open>The session table\<close>

text \<open>\<open>released k\<close> counts the calls of session \<open>k\<close>'s \<open>release\<close>; readers are the goroutines that read carriers.\<close>

record relay =
  r_sessions :: "string \<rightharpoonup> nat"
  r_lastActive :: "nat \<Rightarrow> int"
  r_closed :: "nat set"
  r_released :: "nat \<Rightarrow> nat"
  r_readers :: "nat set"
  r_next :: nat

definition relay_start :: relay where
  "relay_start = \<lparr>r_sessions = Map.empty, r_lastActive = (\<lambda>k. 0), r_closed = {}, r_released = (\<lambda>k. 0),
     r_readers = {}, r_next = 0\<rparr>"

definition touch :: "nat \<Rightarrow> int \<Rightarrow> relay \<Rightarrow> relay" where
  "touch k now r = r\<lparr>r_lastActive := (r_lastActive r)(k := now)\<rparr>"

definition drop_carrier :: "nat \<Rightarrow> relay \<Rightarrow> relay" where
  "drop_carrier k r = r\<lparr>r_closed := insert k (r_closed r), r_released := (r_released r)(k := Suc (r_released r k))\<rparr>"

text \<open>The new session, once a carrier was obtained and the target announced on it.\<close>

definition open_session :: "string \<Rightarrow> int \<Rightarrow> relay \<Rightarrow> relay" where
  "open_session key now r =
     (let k = r_next r in
      touch k now (r\<lparr>r_sessions := (r_sessions r)(key \<mapsto> k), r_readers := insert k (r_readers r), r_next := Suc k\<rparr>))"

text \<open>
  A datagram from \<open>key\<close>: \<open>got\<close> says whether \<open>obtainCarrier\<close> and \<open>writeString\<close> succeed when a new
  session is needed. The result is the session that carries the datagram.
\<close>

definition user_datagram :: "string \<Rightarrow> int \<Rightarrow> bool \<Rightarrow> relay \<Rightarrow> relay \<times> nat option" where
  "user_datagram key now got r =
     (case r_sessions r key of
        Some k \<Rightarrow> (touch k now r, Some k)
      | None \<Rightarrow>
          if \<not> got then (r, None)
          else (let r' = open_session key now r in (touch (r_next r) now r', Some (r_next r))))"

text \<open>One entry of the reaper's loop, and the loop over the keys of the table.\<close>

definition reap_entry :: "int \<Rightarrow> string \<Rightarrow> relay \<Rightarrow> relay" where
  "reap_entry now key r =
     (case r_sessions r key of
        None \<Rightarrow> r
      | Some k \<Rightarrow>
          if wrap64 (now - r_lastActive r k) > udpIdleTimeout
          then drop_carrier k (r\<lparr>r_sessions := (r_sessions r)(key := None)\<rparr>)
          else r)"

definition reap :: "int \<Rightarrow> string list \<Rightarrow> relay \<Rightarrow> relay" where
  "reap now keys r = fold (reap_entry now) keys r"

text \<open>The \<open>defer\<close> of a session's reader, which runs when its read fails.\<close>

definition reader_ends :: "string \<Rightarrow> nat \<Rightarrow> relay \<Rightarrow> relay" where
  "reader_ends key k r =
     drop_carrier k
       (r\<lparr>r_sessions := (if r_sessions r key = Some k then (r_sessions r)(key := None) else r_sessions r),
          r_readers := r_readers r - {k}\<rparr>)"

text \<open>
  The steps of a port: the reader of session \<open>k\<close> was started for the address \<open>key\<close> in \<open>owner k\<close>, so an execution
  carries that map along.
\<close>

inductive relay_step :: "relay \<times> (nat \<rightharpoonup> string) \<Rightarrow> relay \<times> (nat \<rightharpoonup> string) \<Rightarrow> bool" where
  datagram_known: "r_sessions r key = Some k \<Longrightarrow>
    relay_step (r, ow) (fst (user_datagram key now got r), ow)"
| datagram_new: "r_sessions r key = None \<Longrightarrow>
    relay_step (r, ow) (fst (user_datagram key now True r), ow(r_next r \<mapsto> key))"
| datagram_dropped: "r_sessions r key = None \<Longrightarrow>
    relay_step (r, ow) (fst (user_datagram key now False r), ow)"
| reply: "k \<in> r_readers r \<Longrightarrow> relay_step (r, ow) (touch k now r, ow)"
| reaper: "relay_step (r, ow) (reap now keys r, ow)"
| reader_fails: "k \<in> r_readers r \<Longrightarrow> ow k = Some key \<Longrightarrow> relay_step (r, ow) (reader_ends key k r, ow)"

inductive_cases relay_stepE: "relay_step (r, ow) z"

abbreviation relay_reachable :: "relay \<Rightarrow> (nat \<rightharpoonup> string) \<Rightarrow> bool" where
  "relay_reachable r ow \<equiv> relay_step\<^sup>*\<^sup>* (relay_start, Map.empty) (r, ow)"

text \<open>
  A session in the table has a live reader, belongs to the address it was opened for, and has not been released;
  one that was taken out by the reaper and whose reader still runs has been released once; one whose
  reader has ended has been released once or twice.
\<close>

definition sess_ok :: "relay \<Rightarrow> (nat \<rightharpoonup> string) \<Rightarrow> nat \<Rightarrow> bool" where
  "sess_ok r ow k \<longleftrightarrow>
     (k \<in> r_closed r \<longleftrightarrow> 0 < r_released r k) \<and>
     (case ow k of
        None \<Rightarrow> r_next r \<le> k \<and> k \<notin> r_readers r \<and> r_released r k = 0 \<and> (\<forall>key. r_sessions r key \<noteq> Some k)
      | Some key \<Rightarrow>
          k < r_next r \<and> (\<forall>key'. r_sessions r key' = Some k \<longrightarrow> key' = key) \<and>
          (if r_sessions r key = Some k then k \<in> r_readers r \<and> r_released r k = 0
           else if k \<in> r_readers r then r_released r k = 1
           else r_released r k = 1 \<or> r_released r k = 2))"

definition relay_ok :: "relay \<Rightarrow> (nat \<rightharpoonup> string) \<Rightarrow> bool" where
  "relay_ok r ow \<longleftrightarrow> (\<forall>k. sess_ok r ow k)"

lemma relay_okD: "relay_ok r ow \<Longrightarrow> sess_ok r ow k"
  by (simp add: relay_ok_def)

lemma touch_fields [simp]:
  "r_sessions (touch k now r) = r_sessions r" "r_released (touch k now r) = r_released r"
  "r_closed (touch k now r) = r_closed r" "r_readers (touch k now r) = r_readers r" "r_next (touch k now r) = r_next r"
  "r_lastActive (touch k now r) = (r_lastActive r)(k := now)"
  by (simp_all add: touch_def)

lemma relay_ok_touch [simp]: "relay_ok (touch k now r) ow = relay_ok r ow"
  unfolding relay_ok_def sess_ok_def touch_fields ..

lemma sess_ok_same:
  assumes "sess_ok r ow j" "j \<in> r_closed r' \<longleftrightarrow> j \<in> r_closed r" "r_released r' j = r_released r j"
    "\<And>key. r_sessions r' key = Some j \<longleftrightarrow> r_sessions r key = Some j" "j \<in> r_readers r' \<longleftrightarrow> j \<in> r_readers r"
    "ow' j = ow j" "r_next r' \<le> j \<longleftrightarrow> r_next r \<le> j"
  shows "sess_ok r' ow' j"
proof -
  have less: "j < r_next r' \<longleftrightarrow> j < r_next r" using assms(7) by linarith
  from assms(1) show ?thesis unfolding sess_ok_def assms(2-7) less .
qed

lemma sess_okD_table:
  assumes "relay_ok r ow" "r_sessions r key = Some k"
  shows "ow k = Some key" "k \<in> r_readers r" "r_released r k = 0" "k \<notin> r_closed r" "k < r_next r"
    "r_sessions r key' = Some k \<Longrightarrow> key' = key"
proof -
  have ok: "sess_ok r ow k" using relay_okD [OF assms(1)] .
  obtain o' where o': "ow k = Some o'"
    using ok assms(2) unfolding sess_ok_def by (cases "ow k") simp_all
  from ok have parts: "(k \<in> r_closed r \<longleftrightarrow> 0 < r_released r k) \<and> k < r_next r \<and>
      (\<forall>key'. r_sessions r key' = Some k \<longrightarrow> key' = o') \<and>
      (if r_sessions r o' = Some k then k \<in> r_readers r \<and> r_released r k = 0
       else if k \<in> r_readers r then r_released r k = 1 else r_released r k = 1 \<or> r_released r k = 2)"
    unfolding sess_ok_def o' option.case .
  then have key: "key = o'" using assms(2) by blast
  have "k \<in> r_readers r \<and> r_released r k = 0" using parts assms(2) unfolding key by (simp only: if_True) 
  then show "k \<in> r_readers r" "r_released r k = 0" "k \<notin> r_closed r" using parts by auto
  show "ow k = Some key" "k < r_next r" "r_sessions r key' = Some k \<Longrightarrow> key' = key"
    using o' parts key by blast+
qed

lemma relay_ok_open:
  assumes "relay_ok r ow" "r_sessions r key = None"
  shows "relay_ok (open_session key now r) (ow(r_next r \<mapsto> key))"
  unfolding relay_ok_def
proof
  fix j
  have ok: "sess_ok r ow (r_next r)" using relay_okD [OF assms(1)] .
  then have none: "ow (r_next r) = None" unfolding sess_ok_def by (cases "ow (r_next r)") simp_all
  from ok have new: "r_next r \<notin> r_readers r" "r_released r (r_next r) = 0" "r_next r \<notin> r_closed r"
      "\<And>k. r_sessions r k \<noteq> Some (r_next r)"
    unfolding sess_ok_def none by simp_all
  show "sess_ok (open_session key now r) (ow(r_next r \<mapsto> key)) j"
  proof (cases "j = r_next r")
    case True
    with new show ?thesis by (simp add: sess_ok_def open_session_def Let_def)
  next
    case False
    show ?thesis
      by (rule sess_ok_same [OF relay_okD [OF assms(1)]]) (use False assms(2) in \<open>auto simp: open_session_def Let_def\<close>)
  qed
qed

lemma sess_ok_reap_entry:
  assumes "relay_ok r ow" "r_sessions r key = Some k" "wrap64 (now - r_lastActive r k) > udpIdleTimeout"
  shows "sess_ok (reap_entry now key r) ow j"
proof -
  have e: "reap_entry now key r = drop_carrier k (r\<lparr>r_sessions := (r_sessions r)(key := None)\<rparr>)"
    using assms(2,3) by (simp add: reap_entry_def)
  note t = sess_okD_table [OF assms(1,2)]
  show ?thesis
  proof (cases "j = k")
    case True
    have "((r_sessions r)(key := None)) key' \<noteq> Some k" for key' using t(6) [of key'] by auto
    with True t(1-5) show ?thesis unfolding e by (simp add: sess_ok_def drop_carrier_def)
  next
    case False
    show ?thesis unfolding e
      by (rule sess_ok_same [OF relay_okD [OF assms(1)]]) (use False assms(2) in \<open>auto simp: drop_carrier_def\<close>)
  qed
qed

lemma relay_ok_reap_entry:
  assumes "relay_ok r ow"
  shows "relay_ok (reap_entry now key r) ow"
proof (cases "\<exists>k. r_sessions r key = Some k \<and> wrap64 (now - r_lastActive r k) > udpIdleTimeout")
  case True
  then show ?thesis using sess_ok_reap_entry [OF assms] by (auto simp: relay_ok_def)
next
  case False
  then have "reap_entry now key r = r" by (auto simp: reap_entry_def split: option.splits)
  with assms show ?thesis by simp
qed

lemma reader_ends_fields:
  "r_sessions (reader_ends key k r) = (if r_sessions r key = Some k then (r_sessions r)(key := None) else r_sessions r)"
  "r_closed (reader_ends key k r) = insert k (r_closed r)"
  "r_released (reader_ends key k r) = (r_released r)(k := Suc (r_released r k))"
  "r_readers (reader_ends key k r) = r_readers r - {k}" "r_next (reader_ends key k r) = r_next r"
  by (simp_all add: reader_ends_def drop_carrier_def)

lemma relay_ok_reader_ends:
  assumes "relay_ok r ow" "k \<in> r_readers r" "ow k = Some key"
  shows "relay_ok (reader_ends key k r) ow"
  unfolding relay_ok_def
proof
  fix j
  have ok: "sess_ok r ow k" using relay_okD [OF assms(1)] .
  show "sess_ok (reader_ends key k r) ow j"
  proof (cases "j = k")
    case True
    have parts: "(k \<in> r_closed r \<longleftrightarrow> 0 < r_released r k) \<and> k < r_next r \<and>
        (\<forall>key'. r_sessions r key' = Some k \<longrightarrow> key' = key) \<and>
        (if r_sessions r key = Some k then k \<in> r_readers r \<and> r_released r k = 0
         else if k \<in> r_readers r then r_released r k = 1 else r_released r k = 1 \<or> r_released r k = 2)"
      using ok unfolding sess_ok_def assms(3) option.case .
    then have one: "\<And>key'. r_sessions r key' = Some k \<Longrightarrow> key' = key" and lt: "k < r_next r" by blast+
    have gone: "(if r_sessions r key = Some k then (r_sessions r)(key := None) else r_sessions r) key' \<noteq> Some k" for key'
      using one [of key'] by auto
    from parts have "if r_sessions r key = Some k then k \<in> r_readers r \<and> r_released r k = 0
        else if k \<in> r_readers r then r_released r k = 1 else r_released r k = 1 \<or> r_released r k = 2" by blast
    then have rel: "Suc (r_released r k) = 1 \<or> Suc (r_released r k) = 2"
      using assms(2) by (cases "r_sessions r key = Some k") simp_all
    have "sess_ok (reader_ends key k r) ow k"
      unfolding sess_ok_def reader_ends_fields assms(3) option.case
      using gone lt rel by simp
    then show ?thesis using True by simp
  next
    case False
    show ?thesis
      by (rule sess_ok_same [OF relay_okD [OF assms(1)]]) (use False in \<open>auto simp: reader_ends_def drop_carrier_def\<close>)
  qed
qed

lemma relay_ok_step: "relay_step z z' \<Longrightarrow> relay_ok (fst z) (snd z) \<Longrightarrow> relay_ok (fst z') (snd z')"
proof (induction rule: relay_step.induct)
  case (datagram_new r key ow now)
  then show ?case by (simp add: user_datagram_def Let_def relay_ok_open del: fun_upd_apply)
next
  case (reaper r ow now keys)
  have "relay_ok (fold (reap_entry now) keys r) ow" if "relay_ok r ow" for r
    using that by (induction keys arbitrary: r) (simp_all add: relay_ok_reap_entry)
  with reaper show ?case by (simp add: reap_def)
next
  case (reader_fails k r ow key)
  then show ?case by (simp add: relay_ok_reader_ends)
qed (simp_all add: user_datagram_def)

lemma relay_ok_reachable: "relay_reachable r ow \<Longrightarrow> relay_ok r ow"
proof -
  assume "relay_reachable r ow"
  then have "relay_ok (fst (r, ow)) (snd (r, ow))"
    by (induction rule: rtranclp_induct) (simp add: relay_ok_def sess_ok_def relay_start_def, rule relay_ok_step)
  then show ?thesis by simp
qed

text \<open>
  Property C19. In every reachable state of a forwarded UDP port, whatever the order of datagrams, replies, reaper
  ticks and failing reads: a session that is in the table serves the address it was opened for, is still
  read, and its carrier is open and not given back; a session whose reader has ended gave its carrier back at
  least once.
\<close>
theorem relay_sessions_live:
  assumes "relay_reachable r ow"
  shows "(r_sessions r key = Some k \<longrightarrow>
      ow k = Some key \<and> k \<in> r_readers r \<and> k \<notin> r_closed r \<and> r_released r k = 0) \<and>
    (ow k \<noteq> None \<longrightarrow> k \<notin> r_readers r \<longrightarrow> k \<in> r_closed r \<and> 1 \<le> r_released r k) \<and>
    r_released r k \<le> 2"
proof -
  have ok: "relay_ok r ow" using relay_ok_reachable [OF assms] .
  have "sess_ok r ow k" using relay_okD [OF ok] .
  then have "(ow k \<noteq> None \<longrightarrow> k \<notin> r_readers r \<longrightarrow> k \<in> r_closed r \<and> 1 \<le> r_released r k) \<and> r_released r k \<le> 2"
  proof (cases "ow k")
    case None
    with \<open>sess_ok r ow k\<close> show ?thesis by (simp add: sess_ok_def)
  next
    case (Some o')
    have "(k \<in> r_closed r \<longleftrightarrow> 0 < r_released r k) \<and> (if r_sessions r o' = Some k then k \<in> r_readers r \<and> r_released r k = 0
         else if k \<in> r_readers r then r_released r k = 1 else r_released r k = 1 \<or> r_released r k = 2)"
      using \<open>sess_ok r ow k\<close> unfolding sess_ok_def Some option.case by blast
    then show ?thesis by (cases "r_sessions r o' = Some k"; cases "k \<in> r_readers r") auto
  qed
  with sess_okD_table [OF ok] show ?thesis by blast
qed

lemma relay_sample: "relay_reachable (open_session ''u:1'' 5 relay_start) [0 \<mapsto> ''u:1'']"
proof -
  have "relay_step (relay_start, Map.empty) (fst (user_datagram ''u:1'' 5 True relay_start), [r_next relay_start \<mapsto> ''u:1''])"
    by (rule datagram_new) (simp add: relay_start_def)
  moreover have "fst (user_datagram ''u:1'' 5 True relay_start) = open_session ''u:1'' 5 relay_start"
    by (simp add: user_datagram_def relay_start_def open_session_def touch_def Let_def)
  ultimately show ?thesis by (simp add: relay_start_def r_into_rtranclp)
qed

theorem relay_sessions_live_witness:
  "0 \<in> r_readers (open_session ''u:1'' 5 relay_start)"
  using relay_sessions_live [OF relay_sample, of "''u:1''" 0]
  by (simp add: open_session_def relay_start_def Let_def)

text \<open>
  The carrier of a session that the reaper retires is given back twice: the reaper calls \<open>release\<close> and so
  does the session's own reader, whose read fails because the reaper closed the carrier. In tcpmux mode
  that leaves the stream counter of the mux session one too low for good.
\<close>
theorem idle_session_released_twice:
  assumes "relay_reachable r ow" "r_sessions r key = Some k" "now - r_lastActive r k > udpIdleTimeout"
    and "0 \<le> r_lastActive r k" "now < 2 ^ 62"
  shows "let r' = reader_ends key k (reap now [key] r) in
    relay_reachable r' ow \<and> r_released r' k = 2 \<and>
    s_streams ((stream_add (- 1) j ^^ r_released r' k) (stream_add 1 j s)) j = s_streams s j - 1"
proof -
  have ok: "relay_ok r ow" using relay_ok_reachable [OF assms(1)] .
  note t = sess_okD_table [OF ok assms(2)]
  let ?r1 = "reap now [key] r"
  have w: "wrap64 (now - r_lastActive r k) = now - r_lastActive r k"
    using assms(3-5) by (intro wrap64_id) (simp_all add: udpIdleTimeout_def)
  have r1: "?r1 = drop_carrier k (r\<lparr>r_sessions := (r_sessions r)(key := None)\<rparr>)"
    using assms(2,3) w by (simp add: reap_def reap_entry_def)
  have "relay_step (r, ow) (?r1, ow)" by (rule reaper)
  moreover have "relay_step (?r1, ow) (reader_ends key k ?r1, ow)"
    using t(1,2) by (intro reader_fails) (simp_all add: r1 drop_carrier_def)
  ultimately have "relay_reachable (reader_ends key k ?r1) ow"
    using assms(1) by (meson rtranclp.rtrancl_into_rtrancl)
  moreover have "r_released (reader_ends key k ?r1) k = 2"
    using t(3) by (simp add: r1 reader_ends_fields drop_carrier_def)
  ultimately show ?thesis by (simp add: Let_def numeral_2_eq_2 stream_add_def)
qed

theorem idle_session_released_twice_witness:
  "r_released (reader_ends ''u:1'' 0 (reap (91 * second) [''u:1''] (open_session ''u:1'' 5 relay_start))) 0 = 2"
  using idle_session_released_twice [OF relay_sample, of "''u:1''" 0 "91 * second"]
  by (simp add: Let_def open_session_def relay_start_def udpIdleTimeout_def)

section \<open>Datagrams across a carrier\<close>

text \<open>The server's side of a session: each datagram is a frame, an error is ignored.\<close>

fun session_up :: "bytes list \<Rightarrow> conn \<Rightarrow> conn" where
  "session_up [] c = c"
| "session_up (d # ds) c = session_up ds (fst (writeDatagram d c))"

text \<open>
  \<open>handleUDPCarrier\<close>: the loop that reads frames and hands them to the local socket, until a read fails. A
  frame takes at least two bytes, so the loop ends.
\<close>

function carrier_down :: "conn \<Rightarrow> bytes list \<times> conn \<times> goerror" where
  "carrier_down c =
     (case readDatagram maxUDPDatagram c of
        (c', Inl e) \<Rightarrow> ([], c', e)
      | (c', Inr d) \<Rightarrow> (case carrier_down c' of (ds, c'', e) \<Rightarrow> (d # ds, c'', e)))"
  by pat_completeness auto

lemma readDatagram_consumes: "readDatagram n c = (c', Inr d) \<Longrightarrow> length (rd c') < length (rd c)"
  by (auto simp: readDatagram_def Let_def split: prod.splits sum.splits if_splits dest!: readFull_InrD)

termination carrier_down
  by (relation "measure (\<lambda>c. length (rd c))") (auto dest: readDatagram_consumes [OF sym])

declare carrier_down.simps [simp del]

text \<open>The other direction: what \<open>local.Read\<close> delivers is framed onto the carrier until a write fails.\<close>

fun carrier_up :: "bytes list \<Rightarrow> conn \<Rightarrow> conn" where
  "carrier_up [] c = c"
| "carrier_up (d # ds) c = (case writeDatagram d c of (c', None) \<Rightarrow> carrier_up ds c' | (c', Some e) \<Rightarrow> c')"

lemma session_up_stream:
  "list_all (\<lambda>d. length d \<le> maxUDPDatagram) ds \<Longrightarrow> writable c \<Longrightarrow>
     session_up ds c = c\<lparr>wr := wr c @ concat (map prefixed ds)\<rparr>"
  by (induction ds arbitrary: c) (auto simp: writeDatagram_ok maxUDPDatagram_def go_simps)

lemma carrier_down_stream:
  assumes "\<not> isclosed c"
  shows "list_all (\<lambda>d. length d \<le> maxUDPDatagram) ds \<Longrightarrow> rd c = concat (map prefixed ds) \<Longrightarrow>
    fst (carrier_down c) = ds"
  using assms
proof (induction ds arbitrary: c)
  case Nil
  then have "\<exists>c' e. readDatagram maxUDPDatagram c = (c', Inl e)"
    by (simp add: readDatagram_def readFull_def)
  then show ?case by (auto simp: carrier_down.simps [of c])
next
  case (Cons d ds)
  have "readDatagram maxUDPDatagram c = (c\<lparr>rd := concat (map prefixed ds)\<rparr>, Inr d)"
    using Cons.prems by (intro readDatagram_ok) (simp_all add: maxUDPDatagram_def)
  with Cons.IH [of "c\<lparr>rd := concat (map prefixed ds)\<rparr>"] Cons.prems show ?case
    by (auto simp: carrier_down.simps [of c] split: prod.splits)
qed



end
