(* ===== verification/Udp_Carrier.thy ===== *)
theory Udp_Carrier
  imports Udp_Relay
begin

text \<open>
  Mode "udp", \<open>udpcarrier.go\<close>: pool flows on the server's shared pool socket, known by their peer address, the
  sessions of a forwarded port, and the client's pool members. Flows and sessions are numbered; what a socket sends
  is the result of the operation that sends it. An address is its string.
\<close>

section \<open>The server's flows\<close>

definition udpAuthTag :: "mac \<Rightarrow> string \<Rightarrow> bytes option \<Rightarrow> bytes" where
  "udpAuthTag mac token epoch = hmacTag mac token (case epoch of None \<Rightarrow> [] | Some e \<Rightarrow> e)"

record carrier =
  f_table :: "string \<rightharpoonup> nat"
  f_peer :: "nat \<Rightarrow> string"
  f_inbound :: "nat \<Rightarrow> bytes chan"
  f_lastActive :: "nat \<Rightarrow> int"
  f_ch :: "nat chan"
  f_next :: nat

definition carrier_start :: carrier where
  "carrier_start = \<lparr>f_table = Map.empty, f_peer = (\<lambda>k. []), f_inbound = (\<lambda>k. make_chan 64),
     f_lastActive = (\<lambda>k. 0), f_ch = make_chan 4096, f_next = 0\<rparr>"

text \<open>
  \<open>udpPoolReadLoop\<close> on one datagram from \<open>peer\<close>: for a known flow it goes to the inbound channel or is dropped; from
  an unknown address only the tag of the current epoch does anything.
\<close>

definition pool_datagram ::
    "mac \<Rightarrow> string \<Rightarrow> bytes option \<Rightarrow> int \<Rightarrow> string \<Rightarrow> bytes \<Rightarrow> carrier \<Rightarrow> carrier" where
  "pool_datagram mac token epoch now peer data s =
     (case f_table s peer of
        Some k \<Rightarrow>
          (let s = s\<lparr>f_lastActive := (f_lastActive s)(k := now)\<rparr> in
           case try_send (f_inbound s k) data of
             Sent ch \<Rightarrow> s\<lparr>f_inbound := (f_inbound s)(k := ch)\<rparr>
           | _ \<Rightarrow> s)
      | None \<Rightarrow>
          (let want = udpAuthTag mac token epoch in
           if length data \<noteq> length want \<or> constantTimeCompare data want \<noteq> 1 then s
           else (let k = f_next s;
                     s = s\<lparr>f_peer := (f_peer s)(k := peer), f_inbound := (f_inbound s)(k := make_chan 64),
                           f_lastActive := (f_lastActive s)(k := now), f_table := (f_table s)(peer \<mapsto> k), f_next := Suc k\<rparr>
                 in case try_send (f_ch s) k of
                      Sent ch \<Rightarrow> s\<lparr>f_ch := ch\<rparr>
                    | _ \<Rightarrow> s\<lparr>f_table := (f_table s)(peer := None)\<rparr>)))"

text \<open>\<open>udpFlowReaper\<close>: one tick removes every flow whose last datagram is too old from the table.\<close>

definition reap_flows :: "int \<Rightarrow> carrier \<Rightarrow> carrier" where
  "reap_flows now s =
     s\<lparr>f_table := (\<lambda>key. case f_table s key of
         None \<Rightarrow> None
       | Some k \<Rightarrow> if wrap64 (now - f_lastActive s k) > udpIdleTimeout then None else Some k)\<rparr>"

text \<open>
  \<open>obtainUDPFlow\<close> takes the next flow from the channel and announces the target to its peer: \<open>sendOk\<close> says
  whether that write succeeds. The result is the flow, what was sent to whom, and the state.
\<close>

fun obtainUDPFlow ::
    "(string \<Rightarrow> bool) \<Rightarrow> string \<Rightarrow> nat list \<Rightarrow> (nat \<Rightarrow> string) \<Rightarrow> nat option \<times> nat list" where
  "obtainUDPFlow sendOk target [] peer = (None, [])"
| "obtainUDPFlow sendOk target (k # ks) peer =
     (if sendOk (peer k) then (Some k, ks) else obtainUDPFlow sendOk target ks peer)"

definition claim_flow :: "(string \<Rightarrow> bool) \<Rightarrow> string \<Rightarrow> carrier \<Rightarrow> (nat \<times> string \<times> bytes) option \<times> carrier" where
  "claim_flow sendOk target s =
     (case obtainUDPFlow sendOk target (buf (f_ch s)) (f_peer s) of
        (Some k, ks) \<Rightarrow> (Some (k, f_peer s k, bytes_of_string target), s\<lparr>f_ch := (f_ch s)\<lparr>buf := ks\<rparr>\<rparr>)
      | (None, ks) \<Rightarrow> (None, s\<lparr>f_ch := (f_ch s)\<lparr>buf := ks\<rparr>\<rparr>))"

section \<open>The sessions of a forwarded port\<close>

record port_sessions =
  p_table :: "string \<rightharpoonup> nat"
  p_user :: "nat \<Rightarrow> string"
  p_flow :: "nat \<Rightarrow> nat"
  p_toFlow :: "nat \<Rightarrow> bytes chan"
  p_lastActive :: "nat \<Rightarrow> int"
  p_next :: nat

definition port_start :: port_sessions where
  "port_start = \<lparr>p_table = Map.empty, p_user = (\<lambda>k. []), p_flow = (\<lambda>k. 0), p_toFlow = (\<lambda>k. make_chan 64),
     p_lastActive = (\<lambda>k. 0), p_next = 0\<rparr>"

text \<open>
  \<open>runUDPCarrierPort\<close> on one datagram of a user: a known session's goes to its channel or is dropped; a new user
  needs a flow (\<open>flow\<close>, the result of \<open>obtainUDPFlow\<close>), and the datagram is the first in the new channel.
\<close>

definition port_datagram :: "int \<Rightarrow> string \<Rightarrow> bytes \<Rightarrow> nat option \<Rightarrow> port_sessions \<Rightarrow> port_sessions" where
  "port_datagram now user data flow p =
     (case p_table p user of
        Some k \<Rightarrow>
          (let p = p\<lparr>p_lastActive := (p_lastActive p)(k := now)\<rparr> in
           case try_send (p_toFlow p k) data of
             Sent ch \<Rightarrow> p\<lparr>p_toFlow := (p_toFlow p)(k := ch)\<rparr>
           | _ \<Rightarrow> p)
      | None \<Rightarrow>
          (case flow of
             None \<Rightarrow> p
           | Some f \<Rightarrow>
               (let k = p_next p in
                p\<lparr>p_user := (p_user p)(k := user), p_flow := (p_flow p)(k := f),
                  p_toFlow := (p_toFlow p)(k := (make_chan 64)\<lparr>buf := [data]\<rparr>),
                  p_lastActive := (p_lastActive p)(k := now), p_table := (p_table p)(user \<mapsto> k), p_next := Suc k\<rparr>)))"

definition reap_sessions :: "int \<Rightarrow> port_sessions \<Rightarrow> port_sessions" where
  "reap_sessions now p =
     p\<lparr>p_table := (\<lambda>key. case p_table p key of
         None \<Rightarrow> None
       | Some k \<Rightarrow> if wrap64 (now - p_lastActive p k) > udpIdleTimeout then None else Some k)\<rparr>"

text \<open>
  The two relaying cases of \<open>serveUDPCarrierSession\<close> for session \<open>k\<close>: a datagram goes out on the pool socket to the
  flow's peer, or on the port socket to the user. \<open>None\<close>: the channel is empty.
\<close>

definition session_out :: "nat \<Rightarrow> port_sessions \<Rightarrow> carrier \<Rightarrow> ((string \<times> bytes) \<times> port_sessions) option" where
  "session_out k p s =
     (case try_recv (p_toFlow p k) of
        None \<Rightarrow> None
      | Some (d, ch) \<Rightarrow> Some ((f_peer s (p_flow p k), d), p\<lparr>p_toFlow := (p_toFlow p)(k := ch)\<rparr>))"

definition session_in :: "nat \<Rightarrow> port_sessions \<Rightarrow> carrier \<Rightarrow> ((string \<times> bytes) \<times> carrier) option" where
  "session_in k p s =
     (case try_recv (f_inbound s (p_flow p k)) of
        None \<Rightarrow> None
      | Some (d, ch) \<Rightarrow> Some ((p_user p k, d), s\<lparr>f_inbound := (f_inbound s)(p_flow p k := ch)\<rparr>))"

text \<open>The \<open>defer\<close>: the session leaves its table if it is still there, the flow's peer leaves the flow table.\<close>

definition session_ends :: "nat \<Rightarrow> port_sessions \<Rightarrow> carrier \<Rightarrow> port_sessions \<times> carrier" where
  "session_ends k p s =
     ((if p_table p (p_user p k) = Some k then p\<lparr>p_table := (p_table p)(p_user p k := None)\<rparr> else p),
      s\<lparr>f_table := (f_table s)(f_peer s (p_flow p k) := None)\<rparr>)"

section \<open>The client's pool members\<close>

definition claimWait :: int where "claimWait = 5 * minute"

datatype member = Unclaimed | Claimed string

text \<open>
  \<open>udpCarrierSpawnOne\<close> up to the copy loop: what it sends first, and what the first datagram it
  receives makes of it.
\<close>

definition member_hello :: "mac \<Rightarrow> Config \<Rightarrow> bytes \<Rightarrow> bytes" where
  "member_hello mac cfg epoch = udpAuthTag mac (Token cfg) (Some epoch)"

definition member_claimed :: "goerror + bytes \<Rightarrow> member" where
  "member_claimed r = (case r of Inl e \<Rightarrow> Unclaimed | Inr d \<Rightarrow> Claimed (string_of_bytes d))"

text \<open>\<open>udpCarrierPump\<close> on the results of \<open>src.Read\<close>: the datagrams written to \<open>dst\<close>, until a read or a write fails.\<close>

fun udpCarrierPump :: "(bytes \<Rightarrow> bool) \<Rightarrow> (goerror + bytes) list \<Rightarrow> bytes list" where
  "udpCarrierPump writeOk [] = []"
| "udpCarrierPump writeOk (Inl e # rs) = []"
| "udpCarrierPump writeOk (Inr d # rs) = (if writeOk d then d # udpCarrierPump writeOk rs else [])"

text \<open>
  The whole of \<open>udpCarrierSpawnOne\<close>. \<open>me_first\<close> is the datagram it waits for, the last four fields are what the two sockets
  read and whether they can be written. The result is the end it comes to, what was sent on the carrier socket and
  what on the local one; both sockets are closed at every end.
\<close>

record member_env =
  me_remote :: bool
  me_socket :: bool
  me_hello :: bool
  me_first :: "goerror + bytes"
  me_resolves :: "string \<Rightarrow> bool"
  me_dials :: "string \<Rightarrow> bool"
  me_carrier_reads :: "(goerror + bytes) list"
  me_local_reads :: "(goerror + bytes) list"
  me_carrier_writes :: "bytes \<Rightarrow> bool"
  me_local_writes :: "bytes \<Rightarrow> bool"

datatype member_end = NoRemote | NoSocket | HelloFails | Retired | BadTarget string | NoLocal string | Relayed string

text \<open>\<open>udpCarrierCopy\<close>: what goes to the carrier and what to the local socket.\<close>

definition udpCarrierCopy :: "member_env \<Rightarrow> bytes list \<times> bytes list" where
  "udpCarrierCopy e =
     (udpCarrierPump (me_carrier_writes e) (me_local_reads e), udpCarrierPump (me_local_writes e) (me_carrier_reads e))"

definition udpCarrierSpawnOne :: "mac \<Rightarrow> Config \<Rightarrow> bytes \<Rightarrow> member_env \<Rightarrow> member_end \<times> bytes list \<times> bytes list" where
  "udpCarrierSpawnOne mac cfg epoch e =
     (let hello = member_hello mac cfg epoch in
      if \<not> me_remote e then (NoRemote, [], [])
      else if \<not> me_socket e then (NoSocket, [], [])
      else if \<not> me_hello e then (HelloFails, [], [])
      else (case member_claimed (me_first e) of
              Unclaimed \<Rightarrow> (Retired, [hello], [])
            | Claimed target \<Rightarrow>
                if \<not> me_resolves e target then (BadTarget target, [hello], [])
                else if \<not> me_dials e target then (NoLocal target, [hello], [])
                else (case udpCarrierCopy e of (out, inn) \<Rightarrow> (Relayed target, hello # out, inn))))"

section \<open>Invariant\<close>

text \<open>
  Flows in the table or in the channel exist, a flow's peer is the address it is stored under, and no channel
  exceeds its capacity.
\<close>

definition table_ok :: "(string \<rightharpoonup> nat) \<Rightarrow> (nat \<Rightarrow> string) \<Rightarrow> nat \<Rightarrow> bool" where
  "table_ok tab peer n \<longleftrightarrow> (\<forall>key k. tab key = Some k \<longrightarrow> k < n \<and> peer k = key)"

definition queue_ok :: "nat list \<Rightarrow> nat \<Rightarrow> bool" where
  "queue_ok ks n \<longleftrightarrow> (\<forall>k \<in> set ks. k < n) \<and> distinct ks \<and> length ks \<le> 4096"

definition inbox_ok :: "bytes chan \<Rightarrow> bool" where
  "inbox_ok ch \<longleftrightarrow> length (buf ch) \<le> 64 \<and> ccap ch = 64 \<and> \<not> cclosed ch"

definition carrier_ok :: "carrier \<Rightarrow> bool" where
  "carrier_ok s \<longleftrightarrow>
     table_ok (f_table s) (f_peer s) (f_next s) \<and> queue_ok (buf (f_ch s)) (f_next s) \<and>
     ccap (f_ch s) = 4096 \<and> \<not> cclosed (f_ch s) \<and> (\<forall>k. inbox_ok (f_inbound s k))"

lemma table_okD: "table_ok tab peer n \<Longrightarrow> tab key = Some k \<Longrightarrow> k < n \<and> peer k = key"
  unfolding table_ok_def by blast

lemma table_ok_sub:
  "table_ok tab peer n \<Longrightarrow> (\<And>key k. tab' key = Some k \<Longrightarrow> tab key = Some k) \<Longrightarrow> table_ok tab' peer n"
  unfolding table_ok_def by blast

lemma table_ok_del: "table_ok tab peer n \<Longrightarrow> table_ok (tab(x := None)) peer n"
  by (erule table_ok_sub) (auto split: if_splits)

lemma table_ok_add: "table_ok tab peer n \<Longrightarrow> table_ok (tab(x \<mapsto> n)) (peer(n := x)) (Suc n)"
  by (auto simp: table_ok_def less_Suc_eq split: if_splits)

lemma queue_ok_ops:
  "queue_ok ks n \<Longrightarrow> length ks < 4096 \<Longrightarrow> queue_ok (ks @ [n]) (Suc n)"
  "queue_ok ks n \<Longrightarrow> queue_ok ks (Suc n)"
  "queue_ok (ds @ ks) n \<Longrightarrow> queue_ok ks n"
  by (auto simp: queue_ok_def less_Suc_eq)

lemma inbox_ok_ops [simp]:
  "inbox_ok (make_chan 64)"
  "inbox_ok ch \<Longrightarrow> buf ch = d # ds \<Longrightarrow> inbox_ok (ch\<lparr>buf := ds\<rparr>)"
  "inbox_ok ch \<Longrightarrow> length (buf ch) < 64 \<Longrightarrow> inbox_ok (ch\<lparr>buf := buf ch @ [d]\<rparr>)"
  by (simp_all add: inbox_ok_def make_chan_def)

lemma carrier_ok_start: "carrier_ok carrier_start"
  by (simp add: carrier_ok_def carrier_start_def table_ok_def queue_ok_def make_chan_def inbox_ok_def)

lemma try_send_open: "\<not> cclosed ch \<Longrightarrow>
    try_send ch x = (if length (buf ch) < ccap ch then Sent (ch\<lparr>buf := buf ch @ [x]\<rparr>) else WouldBlock)"
  by (simp add: try_send_def)

lemma carrier_okD:
  assumes "carrier_ok s"
  shows "table_ok (f_table s) (f_peer s) (f_next s)" "queue_ok (buf (f_ch s)) (f_next s)"
    "ccap (f_ch s) = 4096" "\<not> cclosed (f_ch s)" "inbox_ok (f_inbound s k)" "length (buf (f_ch s)) \<le> 4096"
  using assms by (simp_all add: carrier_ok_def queue_ok_def)

lemma pool_datagram_known:
  assumes "carrier_ok s" "f_table s peer = Some k"
  shows "pool_datagram mac token epoch now peer data s =
    s\<lparr>f_lastActive := (f_lastActive s)(k := now),
      f_inbound := (if length (buf (f_inbound s k)) < 64
                    then (f_inbound s)(k := (f_inbound s k)\<lparr>buf := buf (f_inbound s k) @ [data]\<rparr>) else f_inbound s)\<rparr>"
proof -
  have "\<not> cclosed (f_inbound s k)" "ccap (f_inbound s k) = 64"
    using carrier_okD(5) [OF assms(1), of k] by (simp_all add: inbox_ok_def)
  with assms(2) show ?thesis by (simp add: pool_datagram_def Let_def try_send_open)
qed

lemma carrier_ok_known:
  assumes "carrier_ok s" "f_table s peer = Some k"
  shows "carrier_ok (pool_datagram mac token epoch now peer data s)"
  unfolding pool_datagram_known [OF assms] using assms(1) by (simp add: carrier_ok_def)

text \<open>The flow a right tag makes; it stays in the table only if there is room in the channel.\<close>

lemma pool_datagram_new:
  assumes "carrier_ok s" "f_table s peer = None"
  shows "pool_datagram mac token epoch now peer data s =
    (if data \<noteq> udpAuthTag mac token epoch then s
     else (let s1 = s\<lparr>f_peer := (f_peer s)(f_next s := peer), f_inbound := (f_inbound s)(f_next s := make_chan 64),
                f_lastActive := (f_lastActive s)(f_next s := now), f_table := (f_table s)(peer \<mapsto> f_next s),
                f_next := Suc (f_next s)\<rparr>
           in if length (buf (f_ch s)) < 4096 then s1\<lparr>f_ch := (f_ch s)\<lparr>buf := buf (f_ch s) @ [f_next s]\<rparr>\<rparr>
              else s1\<lparr>f_table := (f_table s1)(peer := None)\<rparr>))"
proof -
  note o = carrier_okD(4,3) [OF assms(1)]
  show ?thesis
    using assms(2) by (simp add: pool_datagram_def Let_def try_send_open [OF o(1)] o(2))
qed

lemma carrier_ok_new:
  assumes "carrier_ok s" "f_table s peer = None"
  shows "carrier_ok (pool_datagram mac token epoch now peer data s)"
proof -
  note o = carrier_okD [OF assms(1)]
  have t: "table_ok ((f_table s)(peer \<mapsto> f_next s)) ((f_peer s)(f_next s := peer)) (Suc (f_next s))"
    by (rule table_ok_add [OF o(1)])
  note t' = table_ok_del [OF t, of peer]
  show ?thesis
    unfolding pool_datagram_new [OF assms]
    using assms(1) t t' queue_ok_ops(1,2) [OF o(2)] o(3-5)
    by (simp add: Let_def carrier_ok_def del: fun_upd_apply) simp
qed

lemma carrier_ok_reap:
  assumes "carrier_ok s"
  shows "carrier_ok (reap_flows now s)"
proof -
  have "table_ok (f_table (reap_flows now s)) (f_peer s) (f_next s)"
    by (rule table_ok_sub [OF carrier_okD(1) [OF assms]]) (simp add: reap_flows_def split: option.splits if_splits)
  with assms show ?thesis by (simp add: carrier_ok_def) (simp add: reap_flows_def)
qed

lemma obtain_suffix:
  "obtainUDPFlow sendOk target ks peer = (r, ks') \<Longrightarrow>
     \<exists>ds. ks = ds @ (case r of None \<Rightarrow> [] | Some k \<Rightarrow> [k]) @ ks' \<and> (r = None \<longrightarrow> ks' = [])"
proof (induction ks)
  case (Cons k ks)
  show ?case
  proof (cases "sendOk (peer k)")
    case True
    with Cons.prems show ?thesis by auto
  next
    case False
    with Cons.prems Cons.IH obtain ds where "ks = ds @ (case r of None \<Rightarrow> [] | Some k \<Rightarrow> [k]) @ ks'" "r = None \<longrightarrow> ks' = []"
      by auto
    then show ?thesis by (intro exI [of _ "k # ds"]) simp
  qed
qed simp

lemma carrier_ok_claim:
  assumes "carrier_ok s" "claim_flow sendOk target s = (r, s')"
  shows "carrier_ok s'"
proof -
  obtain k ks where o: "obtainUDPFlow sendOk target (buf (f_ch s)) (f_peer s) = (k, ks)" by fastforce
  then have s': "s' = s\<lparr>f_ch := (f_ch s)\<lparr>buf := ks\<rparr>\<rparr>"
    using assms(2) by (auto simp: claim_flow_def split: option.splits)
  from obtain_suffix [OF o] obtain ds where ds: "buf (f_ch s) = ds @ (case k of None \<Rightarrow> [] | Some k \<Rightarrow> [k]) @ ks" by blast
  then have "queue_ok ks (f_next s)"
    using carrier_okD(2) [OF assms(1)] queue_ok_ops(3) [of "ds @ (case k of None \<Rightarrow> [] | Some k \<Rightarrow> [k])" ks] by simp
  with assms(1) show ?thesis unfolding s' by (simp add: carrier_ok_def)
qed

lemma carrier_ok_in:
  assumes "carrier_ok s" "session_in k p s = Some (x, s')"
  shows "carrier_ok s'"
proof -
  obtain d ds where d: "buf (f_inbound s (p_flow p k)) = d # ds"
      "s' = s\<lparr>f_inbound := (f_inbound s)(p_flow p k := (f_inbound s (p_flow p k))\<lparr>buf := ds\<rparr>)\<rparr>"
    using assms(2) by (auto simp: session_in_def try_recv_def split: option.splits list.splits)
  have "inbox_ok ((f_inbound s (p_flow p k))\<lparr>buf := ds\<rparr>)"
    using carrier_okD(5) [OF assms(1)] d(1) by (rule inbox_ok_ops(2))
  with assms(1) show ?thesis by (simp add: carrier_ok_def d(2))
qed

lemma carrier_ok_end:
  assumes "carrier_ok s"
  shows "carrier_ok (snd (session_ends k p s))"
  using assms table_ok_del by (simp add: carrier_ok_def session_ends_def)

text \<open>The server's flow table under any order of datagrams, reaper ticks, claims, relaying and ends of sessions.\<close>

inductive carrier_step :: "mac \<Rightarrow> string \<Rightarrow> carrier \<Rightarrow> carrier \<Rightarrow> bool" for mac token where
  on_datagram: "carrier_step mac token s (pool_datagram mac token epoch now peer data s)"
| on_reap: "carrier_step mac token s (reap_flows now s)"
| on_claim: "claim_flow sendOk target s = (r, s') \<Longrightarrow> carrier_step mac token s s'"
| on_relay: "session_in k p s = Some (x, s') \<Longrightarrow> carrier_step mac token s s'"
| on_end: "carrier_step mac token s (snd (session_ends k p s))"

inductive_cases carrier_stepE: "carrier_step mac token s s'"

lemma carrier_ok_step: "carrier_step mac token s s' \<Longrightarrow> carrier_ok s \<Longrightarrow> carrier_ok s'"
proof (induction rule: carrier_step.induct)
  case (on_datagram s epoch now peer data)
  then show ?case by (cases "f_table s peer") (simp_all add: carrier_ok_new carrier_ok_known)
qed (blast intro: carrier_ok_reap carrier_ok_claim carrier_ok_in carrier_ok_end)+

section \<open>Properties\<close>



text \<open>
  Without a control channel the epoch is nil and the expected tag is the code of the empty message, which
  anyone who knows the token can compute: the pool socket then admits a flow although no generation is in force.
\<close>
theorem flow_admitted_without_control:
  "\<exists>data. data = hmacTag mac token [] \<and>
     f_table (pool_datagram mac token (currentEpoch NewServer) now peer data carrier_start) peer = Some 0"
  by (simp add: pool_datagram_def carrier_start_def currentEpoch_def NewServer_def udpAuthTag_def make_chan_def
      try_send_def Let_def)

text \<open>
  The reaper forgets a flow by its table entry only. A flow it has removed is still handed out
  from the channel, and its target announced to its peer, but whatever that peer then sends is taken for a login
  attempt and dropped: nothing reaches the flow's inbound channel any more.
\<close>
theorem reaped_flow_is_deaf:
  assumes "carrier_ok s" "f_table s peer = Some k" "buf (f_ch s) = k # ks" "sendOk peer"
    and "now - f_lastActive s k > udpIdleTimeout" "0 \<le> f_lastActive s k" "now < 2 ^ 62"
  shows "\<exists>s'. claim_flow sendOk target (reap_flows now s) = (Some (k, peer, bytes_of_string target), s') \<and>
    (\<forall>data t. data \<noteq> udpAuthTag mac token epoch \<longrightarrow> pool_datagram mac token epoch t peer data s' = s')"
proof -
  let ?r = "reap_flows now s"
  have w: "wrap64 (now - f_lastActive s k) = now - f_lastActive s k"
    using assms(5-7) by (intro wrap64_id) (simp_all add: udpIdleTimeout_def)
  have r: "f_table ?r peer = None" "f_peer ?r = f_peer s" "f_ch ?r = f_ch s"
    using assms(2,5) w by (simp_all add: reap_flows_def)
  have pk: "f_peer s k = peer" using table_okD [OF carrier_okD(1) [OF assms(1)] assms(2)] by blast
  let ?s = "?r\<lparr>f_ch := (f_ch s)\<lparr>buf := ks\<rparr>\<rparr>"
  have c: "claim_flow sendOk target ?r = (Some (k, peer, bytes_of_string target), ?s)"
    using assms(3,4) by (simp add: claim_flow_def r pk)
  have ok: "carrier_ok ?s" using carrier_ok_claim [OF carrier_ok_reap [OF assms(1)] c] .
  have "f_table ?s peer = None" using r(1) by simp
  from pool_datagram_new [OF ok this] c show ?thesis by (intro exI [of _ ?s]) simp
qed

definition sample_carrier :: carrier where
  "sample_carrier = carrier_start\<lparr>f_table := [''c:9'' \<mapsto> 0], f_peer := (\<lambda>k. ''c:9''),
     f_lastActive := (\<lambda>k. 5), f_ch := (make_chan 4096)\<lparr>buf := [0]\<rparr>, f_next := 1\<rparr>"

lemma sample_carrier_ok: "carrier_ok sample_carrier"
  by (simp add: carrier_ok_def sample_carrier_def carrier_start_def make_chan_def table_ok_def queue_ok_def inbox_ok_def)

theorem reaped_flow_is_deaf_witness:
  "\<exists>s'. claim_flow (\<lambda>p. True) ''h:53'' (reap_flows (100 * second) sample_carrier) =
      (Some (0, ''c:9'', bytes_of_string ''h:53''), s') \<and>
     pool_datagram toy_mac ''secret'' (Some [1]) (101 * second) ''c:9'' [1, 2, 3] s' = s'"
proof -
  have "length (udpAuthTag toy_mac ''secret'' (Some [1])) = 32" by (simp add: udpAuthTag_def hmacTag_def)
  then have tag: "[1, 2, 3] \<noteq> udpAuthTag toy_mac ''secret'' (Some [1])"
    by (intro notI) (drule sym, simp)
  have s: "f_table sample_carrier ''c:9'' = Some 0" "buf (f_ch sample_carrier) = [0]" "f_lastActive sample_carrier 0 = 5"
    by (simp_all add: sample_carrier_def make_chan_def)
  obtain s' where "claim_flow (\<lambda>p. True) ''h:53'' (reap_flows (100 * second) sample_carrier) =
      (Some (0, ''c:9'', bytes_of_string ''h:53''), s')"
      "\<forall>data t. data \<noteq> udpAuthTag toy_mac ''secret'' (Some [1]) \<longrightarrow>
         pool_datagram toy_mac ''secret'' (Some [1]) t ''c:9'' data s' = s'"
    using reaped_flow_is_deaf [OF sample_carrier_ok s(1,2), of "\<lambda>p. True" "100 * second" "''h:53''" toy_mac "''secret''" "Some [1]"]
    unfolding s(3) udpIdleTimeout_def by auto
  with tag show ?thesis by blast
qed

section \<open>Mailboxes\<close>

text \<open>
  The contract of a bounded channel between the goroutine that receives datagrams and the one that relays them: a
  datagram is kept unless \<open>cap\<close> are waiting, and they come out in order.
\<close>

locale mailbox =
  fixes put :: "'m \<Rightarrow> 's \<Rightarrow> 's"
    and get :: "'s \<Rightarrow> ('m \<times> 's) option"
    and waiting :: "'s \<Rightarrow> 'm list"
    and ok :: "'s \<Rightarrow> bool"
    and cap :: nat
  assumes put_ok: "ok s \<Longrightarrow> ok (put m s)"
    and put_waiting: "ok s \<Longrightarrow> waiting (put m s) = (if length (waiting s) < cap then waiting s @ [m] else waiting s)"
    and get_Cons: "ok s \<Longrightarrow> waiting s = m # ms \<Longrightarrow> \<exists>s'. get s = Some (m, s') \<and> waiting s' = ms \<and> ok s'"

text \<open>Taking \<open>n\<close> datagrams out of a mailbox.\<close>

fun get_all :: "('s \<Rightarrow> ('m \<times> 's) option) \<Rightarrow> nat \<Rightarrow> 's \<Rightarrow> 'm list" where
  "get_all g 0 s = []"
| "get_all g (Suc n) s = (case g s of None \<Rightarrow> [] | Some (m, s') \<Rightarrow> m # get_all g n s')"

context mailbox
begin

lemma puts_waiting:
  "ok s \<Longrightarrow> length (waiting s) \<le> cap \<Longrightarrow>
     ok (fold put ms s) \<and> waiting (fold put ms s) = waiting s @ take (cap - length (waiting s)) ms"
proof (induction ms arbitrary: s)
  case (Cons m ms)
  show ?case
  proof (cases "length (waiting s) < cap")
    case True
    then have "cap - length (waiting s) = Suc (cap - length (waiting (put m s)))"
      using Cons.prems put_waiting by simp
    with True Cons put_ok put_waiting show ?thesis by simp
  next
    case False
    with Cons put_ok put_waiting show ?thesis by simp
  qed
qed simp

lemma get_all_waiting: "ok s \<Longrightarrow> get_all get (length (waiting s)) s = waiting s"
proof (induction "waiting s" arbitrary: s)
  case Nil
  then show ?case by (metis get_all.simps(1) list.size(3))
next
  case (Cons m ms)
  from get_Cons [OF Cons.prems Cons.hyps(2) [symmetric]] obtain s' where s': "get s = Some (m, s')" "waiting s' = ms" "ok s'"
    by blast
  from Cons.hyps(1) [OF s'(2) [symmetric] s'(3)] s' Cons.hyps(2) [symmetric] show ?case by simp
qed

lemma fifo_up_to_cap:
  assumes "ok s" "waiting s = []"
  shows "get_all get (length (waiting (fold put ms s))) (fold put ms s) = take cap ms"
  using puts_waiting [OF assms(1), of ms] assms(2) get_all_waiting [of "fold put ms s"] by simp

end

text \<open>The inbound channel of flow \<open>k\<close>, between the pool socket and session \<open>j\<close>.\<close>

definition inbound_ok :: "string \<Rightarrow> nat \<Rightarrow> carrier \<Rightarrow> bool" where
  "inbound_ok peer k s \<longleftrightarrow> carrier_ok s \<and> f_table s peer = Some k"

definition inbound_get :: "nat \<Rightarrow> port_sessions \<Rightarrow> carrier \<Rightarrow> (bytes \<times> carrier) option" where
  "inbound_get j p s = map_option (\<lambda>((user, d), s'). (d, s')) (session_in j p s)"

lemma inbound_put:
  assumes "inbound_ok peer k s"
  shows "f_table (pool_datagram mac token epoch now peer d s) = f_table s"
    "buf (f_inbound (pool_datagram mac token epoch now peer d s) k) =
       (if length (buf (f_inbound s k)) < 64 then buf (f_inbound s k) @ [d] else buf (f_inbound s k))"
proof -
  have ok: "carrier_ok s" "f_table s peer = Some k" using assms by (simp_all add: inbound_ok_def)
  show "f_table (pool_datagram mac token epoch now peer d s) = f_table s"
    "buf (f_inbound (pool_datagram mac token epoch now peer d s) k) =
       (if length (buf (f_inbound s k)) < 64 then buf (f_inbound s k) @ [d] else buf (f_inbound s k))"
    by (simp_all add: pool_datagram_known [OF ok])
qed

lemma inbound_mailbox:
  assumes "p_flow p j = k"
  shows "mailbox (pool_datagram mac token epoch now peer) (inbound_get j p) (\<lambda>s. buf (f_inbound s k)) (inbound_ok peer k) 64"
proof
  fix s :: carrier and m :: bytes
  assume ok: "inbound_ok peer k s"
  show "inbound_ok peer k (pool_datagram mac token epoch now peer m s)"
    using ok inbound_put(1) [OF ok] by (simp add: inbound_ok_def carrier_ok_known)
  show "buf (f_inbound (pool_datagram mac token epoch now peer m s) k) =
      (if length (buf (f_inbound s k)) < 64 then buf (f_inbound s k) @ [m] else buf (f_inbound s k))"
    by (rule inbound_put(2) [OF ok])
  fix ms
  assume b: "buf (f_inbound s k) = m # ms"
  let ?s = "s\<lparr>f_inbound := (f_inbound s)(k := (f_inbound s k)\<lparr>buf := ms\<rparr>)\<rparr>"
  have i: "session_in j p s = Some ((p_user p j, m), ?s)"
    using b assms by (simp add: session_in_def try_recv_def)
  have "carrier_ok s" using ok by (simp add: inbound_ok_def)
  then have "carrier_ok ?s" by (rule carrier_ok_in [OF _ i])
  with i ok show "\<exists>s'. inbound_get j p s = Some (m, s') \<and> buf (f_inbound s' k) = ms \<and> inbound_ok peer k s'"
    by (simp add: inbound_get_def inbound_ok_def)
qed

interpretation inbound: mailbox "pool_datagram mac token epoch now peer" "inbound_get j p"
    "\<lambda>s. buf (f_inbound s (p_flow p j))" "inbound_ok peer (p_flow p j)" 64
  for mac token epoch now peer j p
  by (rule inbound_mailbox) (rule refl)

text \<open>The channel of a session towards its flow.\<close>

definition outbound_ok :: "string \<Rightarrow> nat \<Rightarrow> port_sessions \<Rightarrow> bool" where
  "outbound_ok user k p \<longleftrightarrow> p_table p user = Some k \<and> \<not> cclosed (p_toFlow p k) \<and> ccap (p_toFlow p k) = 64"

definition outbound_get :: "nat \<Rightarrow> carrier \<Rightarrow> port_sessions \<Rightarrow> (bytes \<times> port_sessions) option" where
  "outbound_get k s p = map_option (\<lambda>((peer, d), p'). (d, p')) (session_out k p s)"

interpretation outbound: mailbox "\<lambda>d. port_datagram now user d flow" "outbound_get k s"
    "\<lambda>p. buf (p_toFlow p k)" "outbound_ok user k" 64
  for now user flow k s
proof
  fix p :: port_sessions and m :: bytes
  assume ok: "outbound_ok user k p"
  then have o: "\<not> cclosed (p_toFlow p k)" "ccap (p_toFlow p k) = 64" "p_table p user = Some k"
    by (simp_all add: outbound_ok_def)
  show "outbound_ok user k (port_datagram now user m flow p)"
    using o by (simp add: port_datagram_def Let_def try_send_open outbound_ok_def)
  show "buf (p_toFlow (port_datagram now user m flow p) k) =
      (if length (buf (p_toFlow p k)) < 64 then buf (p_toFlow p k) @ [m] else buf (p_toFlow p k))"
    using o by (simp add: port_datagram_def Let_def try_send_open)
  fix ms
  assume "buf (p_toFlow p k) = m # ms"
  then show "\<exists>p'. outbound_get k s p = Some (m, p') \<and> buf (p_toFlow p' k) = ms \<and> outbound_ok user k p'"
    using o by (simp add: outbound_get_def session_out_def try_recv_def outbound_ok_def)
qed



text \<open>The datagrams of a series of reads, up to the first that fails.\<close>

definition datagrams :: "(goerror + bytes) list \<Rightarrow> bytes list" where
  "datagrams rs = map projr (takeWhile (\<lambda>r. \<not> isl r) rs)"

lemma pump_datagrams: "udpCarrierPump ok rs = takeWhile ok (datagrams rs)"
  by (induction ok rs rule: udpCarrierPump.induct) (simp_all add: datagrams_def)

text \<open>
  A pool member that says anything says first who it is: the tag for the generation it was started in. It touches the local
  network only after it was told a target, and then each side gets the other side's datagrams, whole, in order and from the
  first one on, up to the first read or write that fails; while none fails, all of them.
\<close>

theorem member_relays_after_claim:
  assumes "udpCarrierSpawnOne mac cfg epoch e = (r, out, inn)"
  shows "(out = [] \<or> hd out = udpAuthTag mac (Token cfg) (Some epoch)) \<and>
     (case r of
        Relayed target \<Rightarrow>
          me_first e = Inr (bytes_of_string target) \<and>
          tl out = takeWhile (me_carrier_writes e) (datagrams (me_local_reads e)) \<and>
          inn = takeWhile (me_local_writes e) (datagrams (me_carrier_reads e))
      | _ \<Rightarrow> tl out = [] \<and> inn = [])"
  using assms
  by (cases "me_first e")
    (auto simp: udpCarrierSpawnOne_def udpCarrierCopy_def member_claimed_def member_hello_def pump_datagrams Let_def go_simps
      split: if_splits)

theorem member_relays_after_claim_witness:
  "takeWhile (\<lambda>d. True) (datagrams [Inr [7], Inr [8], Inl Timeout, Inr [9]]) = [[7], [8 :: byte]]"
proof -
  let ?e = "\<lparr>me_remote = True, me_socket = True, me_hello = True, me_first = Inr (bytes_of_string ''h:1''),
     me_resolves = (\<lambda>t. True), me_dials = (\<lambda>t. True), me_carrier_reads = [],
     me_local_reads = [Inr [7], Inr [8], Inl Timeout, Inr [9]], me_carrier_writes = (\<lambda>d. True), me_local_writes = (\<lambda>d. True)\<rparr>"
  have "string_of_bytes (bytes_of_string ''h:1'') = ''h:1''" by (simp add: go_simps)
  then have run: "udpCarrierSpawnOne (\<lambda>t m. []) defaultConfig [1] ?e =
      (Relayed ''h:1'', member_hello (\<lambda>t m. []) defaultConfig [1] # [[7], [8]], [])"
    by (simp add: udpCarrierSpawnOne_def udpCarrierCopy_def member_claimed_def Let_def)
  from member_relays_after_claim [OF run] show ?thesis by simp
qed

end
