(* ===== verification/Pipe.thy ===== *)
theory Pipe
  imports Config
begin

text \<open>
  Carrying one TCP flow, \<open>pipe.go\<close>: the copy loop of one direction over the connection model, with its counters
  and the half-close, and when \<open>Pipe\<close> closes the two connections.
\<close>

definition pipeTrailingGrace :: int where "pipeTrailingGrace = 30 * second"

record counters =
  totalBytes :: int
  bytesIn :: int
  bytesOut :: int

text \<open>\<open>getBuf\<close>: the length of the buffer; \<open>None\<close> is the panic of \<open>make\<close> on a negative size.\<close>

definition getBuf :: "int \<Rightarrow> nat option" where
  "getBuf sz = (if sz < 0 then None else Some (nat sz))"

text \<open>
  One read of the copy loop: at most \<open>n\<close> of the bytes that have arrived, or the error that follows them.
\<close>

definition read_some :: "nat \<Rightarrow> conn \<Rightarrow> conn \<times> (goerror + bytes)" where
  "read_some n c =
     (if isclosed c then (c, Inl ConnClosed)
      else if rd c = [] then (c, Inl (rend c))
      else (c\<lparr>rd := drop n (rd c)\<rparr>, Inr (take n (rd c))))"

text \<open>
  \<open>io.CopyBuffer\<close> with a buffer of \<open>n\<close> bytes, without the panic on an empty buffer: the destination, the source and
  the number of bytes written.
\<close>

function copy_loop :: "nat \<Rightarrow> conn \<Rightarrow> conn \<Rightarrow> int \<Rightarrow> conn \<times> conn \<times> int" where
  "copy_loop n dst src written =
     (if n = 0 then (dst, src, written)
      else case read_some n src of
        (src', Inl e) \<Rightarrow> (dst, src', written)
      | (src', Inr chunk) \<Rightarrow>
          (case conn_write chunk dst of
             (dst', None) \<Rightarrow> copy_loop n dst' src' (written + int (length chunk))
           | (dst', Some e) \<Rightarrow> (dst', src', written + int (length (wr dst') - length (wr dst)))))"
  by pat_completeness auto
termination
  by (relation "measure (\<lambda>(n, dst, src, w). length (rd src))")
    (auto simp: read_some_def split: if_splits)

declare copy_loop.simps [simp del]

datatype direction = FromTunnel | ToTunnel

definition add_bytes :: "direction \<Rightarrow> int \<Rightarrow> counters \<Rightarrow> counters" where
  "add_bytes d n k =
     (let k = k\<lparr>totalBytes := totalBytes k + n\<rparr> in
      case d of FromTunnel \<Rightarrow> k\<lparr>bytesIn := bytesIn k + n\<rparr> | ToTunnel \<Rightarrow> k\<lparr>bytesOut := bytesOut k + n\<rparr>)"

text \<open>
  \<open>copyDirection\<close>; \<open>closeWrite\<close> is what half-closing does to the destination, for the types that
  can. \<open>None\<close>: the goroutine panics.
\<close>

definition copyDirection ::
    "(conn \<Rightarrow> conn) option \<Rightarrow> direction \<Rightarrow> conn \<Rightarrow> conn \<Rightarrow> int \<Rightarrow> counters \<Rightarrow> (conn \<times> conn \<times> counters) option" where
  "copyDirection closeWrite d dst src bufSize k =
     (case getBuf bufSize of
        None \<Rightarrow> None
      | Some n \<Rightarrow>
          if n = 0 then None
          else (case copy_loop n dst src 0 of
                  (dst', src', w) \<Rightarrow>
                    Some ((case closeWrite of None \<Rightarrow> dst' | Some f \<Rightarrow> f dst'), src', add_bytes d w k)))"

text \<open>
  \<open>Pipe\<close>: the two directions end by themselves at the given times (\<open>None\<close>: never). The result is when the
  connections are closed.
\<close>

definition pipe_closes :: "int option \<Rightarrow> int option \<Rightarrow> int option" where
  "pipe_closes a b =
     (case (a, b) of
        (None, None) \<Rightarrow> None
      | (Some t, None) \<Rightarrow> Some (t + pipeTrailingGrace)
      | (None, Some t) \<Rightarrow> Some (t + pipeTrailingGrace)
      | (Some t, Some u) \<Rightarrow> Some (min (max t u) (min t u + pipeTrailingGrace)))"

section \<open>Properties\<close>

lemma copy_loop_all:
  assumes "0 < n"
  shows "writable dst \<Longrightarrow> \<not> isclosed src \<Longrightarrow>
    copy_loop n dst src w = (dst\<lparr>wr := wr dst @ rd src\<rparr>, src\<lparr>rd := []\<rparr>, w + int (length (rd src)))"
proof (induction "length (rd src)" arbitrary: dst src w rule: less_induct)
  case less
  show ?case
  proof (cases "rd src = []")
    case True
    with less.prems assms show ?thesis by (simp add: copy_loop.simps [of n dst src] read_some_def)
  next
    case False
    let ?src = "src\<lparr>rd := drop n (rd src)\<rparr>" and ?dst = "dst\<lparr>wr := wr dst @ take n (rd src)\<rparr>"
    have r: "read_some n src = (?src, Inr (take n (rd src)))" using less.prems False by (simp add: read_some_def)
    have "length (rd ?src) < length (rd src)" using False assms by simp
    from less.hyps [OF this, of ?dst "w + int (length (take n (rd src)))"] less.prems
    have ih: "copy_loop n ?dst ?src (w + int (length (take n (rd src)))) =
        (?dst\<lparr>wr := wr ?dst @ rd ?src\<rparr>, ?src\<lparr>rd := []\<rparr>,
         w + int (length (take n (rd src))) + int (length (rd ?src)))"
      by (simp add: writable_frame)
    have "copy_loop n dst src w = copy_loop n ?dst ?src (w + int (length (take n (rd src))))"
      using assms r less.prems(1) by (simp add: copy_loop.simps [of n dst src] conn_write_writable)
    also have "\<dots> = (dst\<lparr>wr := wr dst @ rd src\<rparr>, src\<lparr>rd := []\<rparr>, w + int (length (rd src)))"
      unfolding ih by simp
    finally show ?thesis .
  qed
qed

text \<open>
  One direction of a flow delivers every byte the source sends, unchanged and in order, whatever the
  size of the copy buffer, counts exactly that many, and tells the other end that no more will come when it can.
\<close>
theorem copy_delivers_all:
  assumes "0 < bufSize" "writable dst" "\<not> isclosed src"
  shows "\<exists>k'. copyDirection cw d dst src bufSize k =
      Some ((case cw of None \<Rightarrow> id | Some f \<Rightarrow> f) (dst\<lparr>wr := wr dst @ rd src\<rparr>), src\<lparr>rd := []\<rparr>, k') \<and>
    totalBytes k' = totalBytes k + int (length (rd src)) \<and>
    bytesIn k' = bytesIn k + (if d = FromTunnel then int (length (rd src)) else 0) \<and>
    bytesOut k' = bytesOut k + (if d = ToTunnel then int (length (rd src)) else 0)"
proof -
  have n: "0 < nat bufSize" using assms(1) by simp
  show ?thesis
    using assms copy_loop_all [OF n assms(2,3), of 0]
    by (cases d) (auto simp: copyDirection_def getBuf_def add_bytes_def split: option.splits)
qed

theorem copy_delivers_all_witness:
  "\<exists>k'. copyDirection None ToTunnel (fresh_conn []) (fresh_conn [1, 2, 3]) 2 \<lparr>totalBytes = 5, bytesIn = 5, bytesOut = 0\<rparr> =
     Some ((fresh_conn [])\<lparr>wr := [1, 2, 3]\<rparr>, (fresh_conn [])\<lparr>rd := []\<rparr>, k') \<and> totalBytes k' = 8"
  using copy_delivers_all [of 2 "fresh_conn []" "fresh_conn [1, 2, 3]" None ToTunnel "\<lparr>totalBytes = 5, bytesIn = 5, bytesOut = 0\<rparr>"]
  by (auto simp: fresh_conn_def writable_def)

text \<open>
  A buffer size of zero is accepted by the configuration check and makes the first flow panic: \<open>validate\<close> does
  not look at \<open>buffer_size\<close>, and copying with an empty buffer is a panic.
\<close>
theorem zero_buffer_accepted_but_panics:
  assumes "validate c = (c', None)"
  shows "validate (c\<lparr>BufferSize := 0\<rparr>) = (c'\<lparr>BufferSize := 0\<rparr>, None) \<and>
    copyDirection cw d dst src (BufferSize (c'\<lparr>BufferSize := 0\<rparr>)) k = None"
proof -
  have "valid_config (c\<lparr>BufferSize := 0\<rparr>) = valid_config c" by (simp add: valid_config_def dialsOut_def)
  with assms show ?thesis by (simp add: validate_None_iff copyDirection_def getBuf_def)
qed

theorem zero_buffer_accepted_but_panics_witness:
  "snd (validate ((sample_config ''server'')\<lparr>BufferSize := 0\<rparr>)) = None"
proof -
  have "validate (sample_config ''server'') =
      ((sample_config ''server'')\<lparr>Disguise := map default_path (Disguise (sample_config ''server''))\<rparr>, None)"
    using sample_config_valid [of "''server''"] by (simp add: validate_None_iff)
  from zero_buffer_accepted_but_panics [OF this] show ?thesis by simp
qed

text \<open>
  The end of a flow: both connections stay open until both directions are done or 30 seconds after the first
  one, so a reply that ends within the grace period is never cut, and a direction that never ends does not keep
  the flow open.
\<close>
theorem pipe_grace:
  assumes "a = Some t"
  shows "\<exists>c. pipe_closes a b = Some c \<and> pipe_closes b a = Some c \<and> c \<le> t + pipeTrailingGrace \<and>
    (b = None \<longrightarrow> c = t + pipeTrailingGrace) \<and>
    (\<forall>u. b = Some u \<longrightarrow> \<bar>u - t\<bar> \<le> pipeTrailingGrace \<longrightarrow> c = max t u) \<and>
    (\<forall>u. b = Some u \<longrightarrow> min t u \<le> c)"
  using assms
  by (cases b) (auto simp: pipe_closes_def pipeTrailingGrace_def)

theorem pipe_grace_witness:
  "pipe_closes (Some second) (Some (20 * second)) = Some (20 * second) \<and> pipe_closes (Some second) None = Some (31 * second)"
  using pipe_grace [of "Some second" second "Some (20 * second)"] pipe_grace [of "Some second" second None]
  by (simp add: pipeTrailingGrace_def)

end
