(* ===== verification/Tunnels.thy ===== *)
theory Tunnels
  imports Go_Prelude "HOL-Library.Char_ord" "HOL-Library.List_Lexorder" "HOL-Library.Product_Lexorder"
begin

text \<open>
  The tunnels on a box, \<open>tunnels.go\<close>: names, the files and units they stand for, and the listing of what is
  configured. \<open>filepath.Join\<close> of clean elements joins them with slashes. The directories are an argument: the
  entries with whether they are directories, or \<open>None\<close> for an error.
\<close>

section \<open>Names and paths\<close>

definition tunnelsRoot :: string where "tunnelsRoot = ''/etc/rmtunnel/tunnels''"

definition tunnelRoles :: "string list" where
  "tunnelRoles = [''server'', ''client'', ''paqet-server'', ''paqet-client'']"

definition name_char :: "char \<Rightarrow> bool" where
  "name_char c \<longleftrightarrow> (let n = (of_char c :: nat) in
     (65 \<le> n \<and> n \<le> 90) \<or> (97 \<le> n \<and> n \<le> 122) \<or> (48 \<le> n \<and> n \<le> 57) \<or> c = CHR ''_'' \<or> c = CHR ''-'')"

definition isValidTunnelName :: "string \<Rightarrow> bool" where
  "isValidTunnelName name \<longleftrightarrow> name \<noteq> [] \<and> length name \<le> 64 \<and> list_all name_char name"

definition tunnelDir :: "string \<Rightarrow> string" where
  "tunnelDir role = tunnelsRoot @ ''/'' @ role"

definition tunnelConfigExt :: "string \<Rightarrow> string" where
  "tunnelConfigExt role = (if hasPrefix role ''paqet-'' then ''.yaml'' else ''.toml'')"

definition tunnelConfigPath :: "string \<Rightarrow> string \<Rightarrow> string" where
  "tunnelConfigPath role name = tunnelDir role @ ''/'' @ name @ tunnelConfigExt role"

definition systemdUnitInstance :: "string \<Rightarrow> string \<Rightarrow> string" where
  "systemdUnitInstance role name = ''rmtunnel-'' @ role @ ''@'' @ name"

record tunnelRef =
  tr_Role :: string
  tr_Name :: string
  tr_Path :: string

definition tunnel_unit :: "tunnelRef \<Rightarrow> string" where
  "tunnel_unit t = systemdUnitInstance (tr_Role t) (tr_Name t)"

definition isPaqet :: "tunnelRef \<Rightarrow> bool" where
  "isPaqet t = hasPrefix (tr_Role t) ''paqet-''"

section \<open>Listing\<close>

definition list_role :: "(string \<Rightarrow> (string \<times> bool) list option) \<Rightarrow> string \<Rightarrow> tunnelRef list" where
  "list_role readDir role =
     (let ext = tunnelConfigExt role in
      case readDir (tunnelDir role) of
        None \<Rightarrow> []
      | Some entries \<Rightarrow>
          map (\<lambda>e. let name = trimSuffix (fst e) ext in
                 \<lparr>tr_Role = role, tr_Name = name, tr_Path = tunnelConfigPath role name\<rparr>)
            (filter (\<lambda>e. \<not> snd e \<and> hasSuffix (fst e) ext) entries))"

text \<open>The order of \<open>sort.Slice\<close>: by role, then by name, byte by byte.\<close>

definition listTunnels :: "(string \<Rightarrow> (string \<times> bool) list option) \<Rightarrow> tunnelRef list" where
  "listTunnels readDir = sort_key (\<lambda>t. (tr_Role t, tr_Name t)) (concat (map (list_role readDir) tunnelRoles))"

definition containsPath :: "string list \<Rightarrow> string \<Rightarrow> bool" where
  "containsPath paths p = list_ex (\<lambda>x. x = p) paths"

section \<open>Facts\<close>

lemma hasSuffix_iff: "hasSuffix s p \<longleftrightarrow> (\<exists>r. s = r @ p)"
proof
  assume "hasSuffix s p"
  then show "\<exists>r. s = r @ p" by (metis append_take_drop_id hasSuffix_def)
qed (auto simp: hasSuffix_def)

lemma trimSuffix_ext [simp]: "trimSuffix (r @ p) p = r"
  by (simp add: trimSuffix_def hasSuffix_def)

lemma valid_name_chars:
  assumes "isValidTunnelName name"
  shows "CHR ''/'' \<notin> set name" "CHR ''@'' \<notin> set name" "CHR ''.'' \<notin> set name"
  using assms by (auto simp: isValidTunnelName_def list_all_iff name_char_def)

lemma role_chars:
  assumes "role \<in> set tunnelRoles"
  shows "CHR ''/'' \<notin> set role" "CHR ''@'' \<notin> set role"
  using assms by (auto simp: tunnelRoles_def)

lemma split_at_char:
  "c \<notin> set a \<Longrightarrow> c \<notin> set a' \<Longrightarrow> a @ c # b = a' @ c # b' \<longleftrightarrow> a = a' \<and> b = b'"
  by (auto simp: append_eq_append_conv2 Cons_eq_append_conv append_eq_Cons_conv)

lemma list_role_iff:
  "t \<in> set (list_role readDir role) \<longleftrightarrow>
     tr_Role t = role \<and> tr_Path t = tunnelConfigPath role (tr_Name t) \<and>
     (\<exists>es. readDir (tunnelDir role) = Some es \<and> (tr_Name t @ tunnelConfigExt role, False) \<in> set es)"
proof (cases "readDir (tunnelDir role)")
  case None
  then show ?thesis by (simp add: list_role_def)
next
  case (Some es)
  have "t \<in> set (list_role readDir role) \<longleftrightarrow>
      (\<exists>n. (n @ tunnelConfigExt role, False) \<in> set es \<and> t = \<lparr>tr_Role = role, tr_Name = n, tr_Path = tunnelConfigPath role n\<rparr>)"
    by (auto simp: list_role_def Some Let_def image_iff Bex_def hasSuffix_iff)
      (metis hasSuffix_iff trimSuffix_ext)+
  with Some show ?thesis by (cases t) auto
qed

lemma listTunnels_distinct:
  assumes "\<And>dir es. readDir dir = Some es \<Longrightarrow> distinct es"
  shows "distinct (listTunnels readDir)"
proof -
  have d: "distinct (list_role readDir role)" for role
  proof (cases "readDir (tunnelDir role)")
    case (Some es)
    let ?ext = "tunnelConfigExt role"
    have "inj_on (\<lambda>e. \<lparr>tr_Role = role, tr_Name = trimSuffix (fst e) ?ext, tr_Path = tunnelConfigPath role (trimSuffix (fst e) ?ext)\<rparr>)
        {e \<in> set es. \<not> snd e \<and> hasSuffix (fst e) ?ext}"
      by (rule inj_onI) (auto simp: hasSuffix_iff prod_eq_iff)
    with assms [OF Some] show ?thesis
      by (simp add: list_role_def Some Let_def distinct_map)
  qed (simp add: list_role_def)
  have "set (list_role readDir r) \<inter> set (list_role readDir r') = {}" if "r \<noteq> r'" for r r'
    using that by (auto simp: list_role_iff)
  moreover have "distinct tunnelRoles" by (simp add: tunnelRoles_def)
  ultimately show "distinct (listTunnels readDir)"
    by (auto simp: listTunnels_def d tunnelRoles_def list_role_iff)
qed

section \<open>Properties\<close>

text \<open>
  Two tunnels never share a configuration file or a unit: for known roles and valid names, the path
  and the unit determine role and name.
\<close>
theorem tunnel_paths_injective:
  assumes "role \<in> set tunnelRoles" "role' \<in> set tunnelRoles" "isValidTunnelName name" "isValidTunnelName name'"
  shows "(tunnelConfigPath role name = tunnelConfigPath role' name' \<longleftrightarrow> role = role' \<and> name = name') \<and>
    (systemdUnitInstance role name = systemdUnitInstance role' name' \<longleftrightarrow> role = role' \<and> name = name')"
proof -
  note c = role_chars [OF assms(1)] role_chars [OF assms(2)]
  have "tunnelConfigPath role name = tunnelConfigPath role' name' \<longleftrightarrow>
      role @ CHR ''/'' # (name @ tunnelConfigExt role) = role' @ CHR ''/'' # (name' @ tunnelConfigExt role')"
    by (simp add: tunnelConfigPath_def tunnelDir_def)
  also have "\<dots> \<longleftrightarrow> role = role' \<and> name @ tunnelConfigExt role = name' @ tunnelConfigExt role'"
    by (rule split_at_char [OF c(1) c(3)])
  finally have "tunnelConfigPath role name = tunnelConfigPath role' name' \<longleftrightarrow> role = role' \<and> name = name'" by auto
  moreover have "systemdUnitInstance role name = systemdUnitInstance role' name' \<longleftrightarrow> role = role' \<and> name = name'"
    unfolding systemdUnitInstance_def by (simp add: split_at_char [OF c(2) c(4)])
  ultimately show ?thesis by blast
qed

theorem tunnel_paths_injective_witness:
  "tunnelConfigPath ''server'' ''main'' \<noteq> tunnelConfigPath ''paqet-server'' ''main''"
  using tunnel_paths_injective [of "''server''" "''paqet-server''" "''main''" "''main''"]
  by (simp add: tunnelRoles_def isValidTunnelName_def name_char_def)

text \<open>
  The listing holds exactly the configuration files of the four directories that exist, each once and in
  order of role and name; in particular a tunnel that was saved under its path is found again.
\<close>
theorem listTunnels_exact:
  assumes "\<And>dir es. readDir dir = Some es \<Longrightarrow> distinct es"
  shows "(\<forall>t. t \<in> set (listTunnels readDir) \<longleftrightarrow>
      tr_Role t \<in> set tunnelRoles \<and> tr_Path t = tunnelConfigPath (tr_Role t) (tr_Name t) \<and>
      (\<exists>es. readDir (tunnelDir (tr_Role t)) = Some es \<and> (tr_Name t @ tunnelConfigExt (tr_Role t), False) \<in> set es)) \<and>
    sorted (map (\<lambda>t. (tr_Role t, tr_Name t)) (listTunnels readDir)) \<and> distinct (listTunnels readDir)"
proof (intro conjI allI)
  show "t \<in> set (listTunnels readDir) \<longleftrightarrow>
      tr_Role t \<in> set tunnelRoles \<and> tr_Path t = tunnelConfigPath (tr_Role t) (tr_Name t) \<and>
      (\<exists>es. readDir (tunnelDir (tr_Role t)) = Some es \<and> (tr_Name t @ tunnelConfigExt (tr_Role t), False) \<in> set es)" for t
    by (auto simp: listTunnels_def list_role_iff)
  show "sorted (map (\<lambda>t. (tr_Role t, tr_Name t)) (listTunnels readDir))"
    by (simp add: listTunnels_def)
  show "distinct (listTunnels readDir)" using assms by (rule listTunnels_distinct)
qed

theorem listTunnels_exact_witness:
  "let rd = (\<lambda>dir. if dir = tunnelDir ''client'' then Some [(''b.toml'', False), (''a.toml'', False), (''x.bak'', False)] else None)
   in map tr_Name (listTunnels rd) = [''a'', ''b''] \<and> distinct (listTunnels rd)"
proof -
  let ?rd = "\<lambda>dir. if dir = tunnelDir ''client'' then Some [(''b.toml'', False), (''a.toml'', False), (''x.bak'', False)] else None"
  have "distinct (listTunnels ?rd)"
    by (rule listTunnels_exact [THEN conjunct2, THEN conjunct2]) (auto split: if_splits)
  moreover have "map tr_Name (listTunnels ?rd) = [''a'', ''b'']"
    by (simp add: listTunnels_def tunnelRoles_def list_role_def tunnelDir_def tunnelConfigExt_def hasPrefix_def
        hasSuffix_def trimSuffix_def Let_def less_char_def less_eq_char_def)
  ultimately show ?thesis by simp
qed

end
