(* ===== verification/Box.thy ===== *)
theory Box
  imports Tunnels Console "HOL-Library.AList"
begin

text \<open>
  The box a menu works on: its files, and the commands that were run on it. \<open>os.WriteFile\<close>, \<open>os.Remove\<close>,
  \<open>os.ReadDir\<close> and \<open>run\<close> act on it; which writes fail, and what a failing write leaves, is an argument.
  On top of it the service files of \<open>service.go\<close>, \<open>metricsPath\<close>, and \<open>deleteTunnel\<close> of \<open>tunnels.go\<close>.
\<close>

section \<open>Files and commands\<close>

record box =
  files :: "(string \<times> string) list"
  ran :: "string list list"

definition stat :: "box \<Rightarrow> string \<Rightarrow> bool" where
  "stat b p \<longleftrightarrow> map_of (files b) p \<noteq> None"

definition readFile :: "box \<Rightarrow> string \<Rightarrow> string option" where
  "readFile b p = map_of (files b) p"

text \<open>What the operating system answers: failing writes with what they leave in the file, failing \<open>MkdirAll\<close>s,
  \<open>exec.LookPath\<close>, \<open>os.Executable\<close>, the state of the services and the working directory.\<close>

record host =
  h_io :: "string \<Rightarrow> (goerror \<times> string option) option"
  h_mkdir :: "string \<Rightarrow> goerror option"
  h_look :: "string \<Rightarrow> string option"
  h_self :: "string option"
  h_active :: "string \<Rightarrow> bool"
  h_cwd :: string

definition writeFile :: "host \<Rightarrow> string \<Rightarrow> string \<Rightarrow> box \<Rightarrow> box \<times> goerror option" where
  "writeFile h p data b =
     (case h_io h p of
        None \<Rightarrow> (b\<lparr>files := AList.update p data (files b)\<rparr>, None)
      | Some (e, Some left) \<Rightarrow> (b\<lparr>files := AList.update p left (files b)\<rparr>, Some e)
      | Some (e, None) \<Rightarrow> (b\<lparr>files := AList.delete p (files b)\<rparr>, Some e))"

definition removeFile :: "string \<Rightarrow> box \<Rightarrow> box" where
  "removeFile p b = b\<lparr>files := AList.delete p (files b)\<rparr>"

definition runCmd :: "string list \<Rightarrow> box \<Rightarrow> box" where
  "runCmd cmd b = b\<lparr>ran := ran b @ [cmd]\<rparr>"

text \<open>\<open>os.ReadDir\<close>: the entries below a directory by name, a directory when something lies below the entry.\<close>

definition dir_entry :: "string \<Rightarrow> string \<times> bool" where
  "dir_entry rest = (takeWhile (\<lambda>c. c \<noteq> CHR ''/'') rest, CHR ''/'' \<in> set rest)"

definition readDir :: "box \<Rightarrow> string \<Rightarrow> (string \<times> bool) list option" where
  "readDir b dir =
     (case filter (\<lambda>p. hasPrefix p (dir @ ''/'')) (map fst (files b)) of
        [] \<Rightarrow> None
      | ps \<Rightarrow> Some (sort_key fst (remdups (map (\<lambda>p. dir_entry (trimPrefix p (dir @ ''/''))) ps))))"

section \<open>Service files\<close>

definition newline :: char where "newline = CHR 0x0A"

definition unlines :: "string list \<Rightarrow> string" where
  "unlines ls = concat (map (\<lambda>l. l @ [newline]) ls)"

definition serviceTemplate :: "string \<Rightarrow> string \<Rightarrow> string \<Rightarrow> string" where
  "serviceTemplate description execStart extra =
     unlines [''[Unit]'', ''Description='' @ description, ''After=network-online.target'', ''Wants=network-online.target'',
       '''', ''[Service]'', ''Type=simple'', ''ExecStart='' @ execStart, ''Restart=on-failure'', ''RestartSec=2'',
       ''LimitNOFILE=1048576''] @ extra @
     unlines [''NoNewPrivileges=true'', '''', ''[Install]'', ''WantedBy=multi-user.target'']"

definition unitPath :: "string \<Rightarrow> string" where
  "unitPath unit = ''/etc/systemd/system/'' @ unit @ ''.service''"

definition writeAndEnableUnit :: "host \<Rightarrow> string \<Rightarrow> string \<Rightarrow> string \<Rightarrow> string \<Rightarrow> box \<Rightarrow> box" where
  "writeAndEnableUnit h unit description execStart extra b =
     (case writeFile h (unitPath unit) (serviceTemplate description execStart extra) b of
        (b', Some e) \<Rightarrow> b'
      | (b', None) \<Rightarrow> runCmd [''systemctl'', ''enable'', ''--now'', unit] (runCmd [''systemctl'', ''daemon-reload''] b'))"

definition rmtunnelBin :: string where "rmtunnelBin = ''/usr/local/bin/rmtunnel''"

definition installService :: "host \<Rightarrow> string \<Rightarrow> string \<Rightarrow> string \<Rightarrow> box \<Rightarrow> box" where
  "installService h unit role configPath b =
     (let (binPath, b') = (case h_look h ''rmtunnel'' of
            Some p \<Rightarrow> (p, b)
          | None \<Rightarrow> (rmtunnelBin,
              case h_self h of
                None \<Rightarrow> b
              | Some self \<Rightarrow>
                  if self = rmtunnelBin then b
                  else (case readFile b self of None \<Rightarrow> b | Some data \<Rightarrow> fst (writeFile h rmtunnelBin data b))));
          extra = (if role = ''server'' then ''AmbientCapabilities=CAP_NET_BIND_SERVICE'' @ [newline] else [])
      in writeAndEnableUnit h unit (''rmtunnel '' @ role) (binPath @ '' '' @ role @ '' '' @ configPath) extra b')"

definition installTunnelService :: "host \<Rightarrow> string \<Rightarrow> string \<Rightarrow> string \<Rightarrow> box \<Rightarrow> box" where
  "installTunnelService h role name configPath = installService h (systemdUnitInstance role name) role configPath"

definition paqetBinPath :: string where "paqetBinPath = ''/usr/local/bin/paqet''"

definition installPaqetService :: "host \<Rightarrow> string \<Rightarrow> string \<Rightarrow> box \<Rightarrow> box" where
  "installPaqetService h unit configPath =
     writeAndEnableUnit h unit (''paqet ('' @ unit @ '')'') (paqetBinPath @ '' run -c '' @ configPath) []"

section \<open>Tunnels as services\<close>

text \<open>\<open>filepath.Ext\<close>: from the last dot of the last element.\<close>

definition pathExt :: "string \<Rightarrow> string" where
  "pathExt p =
     (let r = rev p;
          tail = takeWhile (\<lambda>c. c \<noteq> CHR ''.'' \<and> c \<noteq> CHR ''/'') r;
          rest = drop (length tail) r
      in if rest \<noteq> [] \<and> hd rest = CHR ''.'' then CHR ''.'' # rev tail else [])"

definition metricsPath :: "string \<Rightarrow> string" where
  "metricsPath configPath = trimSuffix configPath (pathExt configPath) @ ''.metrics.json''"

definition installTunnel :: "host \<Rightarrow> tunnelRef \<Rightarrow> box \<Rightarrow> box" where
  "installTunnel h t b =
     (if isPaqet t then installPaqetService h (tunnel_unit t) (tr_Path t) b
      else installTunnelService h (tr_Role t) (tr_Name t) (tr_Path t) b)"

definition deleted :: "tunnelRef \<Rightarrow> box \<Rightarrow> box" where
  "deleted t b =
     (let b1 = runCmd [''systemctl'', ''disable'', ''--now'', tunnel_unit t] b;
          b2 = runCmd [''systemctl'', ''daemon-reload''] (removeFile (unitPath (tunnel_unit t)) b1);
          b3 = removeFile (tr_Path t) (runCmd [''systemctl'', ''reset-failed'', tunnel_unit t] b2)
      in if isPaqet t then b3 else removeFile (metricsPath (tr_Path t)) b3)"

definition deleteTunnel :: "tunnelRef \<Rightarrow> box \<Rightarrow> (bool \<times> box) ask" where
  "deleteTunnel t b =
     then_ask (confirm False) (\<lambda>sure.
       if \<not> sure then answer (False, b) else then_ask pressEnter (\<lambda>u. answer (True, deleted t b)))"

definition restartAllTunnelsCLI :: "box \<Rightarrow> box" where
  "restartAllTunnelsCLI b =
     fold (\<lambda>t. runCmd [''systemctl'', ''restart'', tunnel_unit t]) (listTunnels (readDir b)) b"

definition restartAllTunnels :: "tunnelRef list \<Rightarrow> box \<Rightarrow> box ask" where
  "restartAllTunnels ts b =
     then_ask (confirm True) (\<lambda>sure.
       if \<not> sure then answer b
       else then_ask pressEnter (\<lambda>u. answer (fold (\<lambda>t. runCmd [''systemctl'', ''restart'', tunnel_unit t]) ts b)))"

definition uninstalled :: "tunnelRef list \<Rightarrow> box \<Rightarrow> box" where
  "uninstalled ts b =
     (let b1 = fold (\<lambda>t b. removeFile (unitPath (tunnel_unit t)) (runCmd [''systemctl'', ''disable'', ''--now'', tunnel_unit t] b)) ts b;
          b2 = removeFile rmtunnelBin (runCmd [''systemctl'', ''daemon-reload''] b1)
      in if stat b2 paqetBinPath then removeFile paqetBinPath b2 else b2)"

definition menuUninstall :: "box \<Rightarrow> box ask" where
  "menuUninstall b =
     then_ask (confirm False) (\<lambda>sure.
       if \<not> sure then answer b
       else let b1 = uninstalled (listTunnels (readDir b)) b in
         then_ask (confirm False) (\<lambda>configs. then_ask pressEnter (\<lambda>u.
           answer (if configs then b1\<lparr>files := filter (\<lambda>f. \<not> hasPrefix (fst f) ''/etc/rmtunnel/'') (files b1)\<rparr> else b1))))"

section \<open>Facts\<close>

named_theorems box_simps "rewrite rules for the files of a box"

lemma readFile_write [box_simps]:
  "readFile (fst (writeFile h p data b)) q =
     (if q = p then (case h_io h p of None \<Rightarrow> Some data | Some (e, left) \<Rightarrow> left) else readFile b q)"
  by (auto simp: writeFile_def readFile_def AList.update_conv' AList.delete_conv' split: option.splits)

lemma snd_write [box_simps]: "snd (writeFile h p data b) = map_option fst (h_io h p)"
  by (auto simp: writeFile_def split: option.splits)

lemma readFile_remove [box_simps]: "readFile (removeFile p b) q = (if q = p then None else readFile b q)"
  by (simp add: removeFile_def readFile_def AList.delete_conv')

lemma readFile_run [box_simps]: "readFile (runCmd cmd b) q = readFile b q"
  by (simp add: runCmd_def readFile_def)

lemma stat_readFile [box_simps]: "stat b p \<longleftrightarrow> readFile b p \<noteq> None"
  by (simp add: stat_def readFile_def)

lemma writeFile_other: "writeFile h q data b = (c, err) \<Longrightarrow> p \<noteq> q \<Longrightarrow> readFile c p = readFile b p"
  using readFile_write [of h q data b p] by simp

lemma readFile_enable: "p \<noteq> unitPath u \<Longrightarrow> readFile (writeAndEnableUnit h u x y z b) p = readFile b p"
proof -
  assume p: "p \<noteq> unitPath u"
  obtain c r where "writeFile h (unitPath u) (serviceTemplate x y z) b = (c, r)" by fastforce
  with writeFile_other [OF this p] show ?thesis
    by (auto simp: writeAndEnableUnit_def readFile_run split: option.splits)
qed

text \<open>Installing a tunnel writes its unit file and, when the binary is not on the path, the binary.\<close>

lemma readFile_install:
  assumes "p \<noteq> unitPath (systemdUnitInstance role name)" "p \<noteq> rmtunnelBin"
  shows "readFile (installTunnelService h role name path b) p = readFile b p"
proof -
  let ?b = "snd (case h_look h ''rmtunnel'' of
      Some q \<Rightarrow> (q, b)
    | None \<Rightarrow> (rmtunnelBin, case h_self h of
          None \<Rightarrow> b
        | Some self \<Rightarrow>
            if self = rmtunnelBin then b
            else (case readFile b self of None \<Rightarrow> b | Some data \<Rightarrow> fst (writeFile h rmtunnelBin data b))))"
  have "readFile ?b p = readFile b p" using assms(2) by (auto simp: readFile_write split: option.splits)
  then show ?thesis
    by (simp add: installTunnelService_def installService_def readFile_enable [OF assms(1)] case_prod_unfold Let_def)
qed

lemma readFile_installTunnel:
  assumes "p \<noteq> unitPath (tunnel_unit t)" "p \<noteq> rmtunnelBin"
  shows "readFile (installTunnel h t b) p = readFile b p"
  using assms by (simp add: installTunnel_def installPaqetService_def readFile_enable readFile_install tunnel_unit_def)

lemma takeWhile_no_slash: "takeWhile (\<lambda>c. c \<noteq> x) s = n \<and> x \<notin> set s \<longleftrightarrow> s = n \<and> x \<notin> set n"
proof (cases "x \<in> set s")
  case False
  then have "takeWhile (\<lambda>c. c \<noteq> x) s = s" by (simp add: takeWhile_eq_all_conv) blast
  with False show ?thesis by (metis (mono_tags))
qed auto

lemma under_prefix:
  "(\<exists>p\<in>set (filter (\<lambda>p. hasPrefix p d) ps). P (trimPrefix p d)) \<longleftrightarrow> (\<exists>n. d @ n \<in> set ps \<and> P n)"
proof
  assume "\<exists>p\<in>set (filter (\<lambda>p. hasPrefix p d) ps). P (trimPrefix p d)"
  then show "\<exists>n. d @ n \<in> set ps \<and> P n" by (auto simp: hasPrefix_iff trimPrefix_append)
next
  assume "\<exists>n. d @ n \<in> set ps \<and> P n"
  then obtain n where "d @ n \<in> set ps" "P n" by blast
  then show "\<exists>p\<in>set (filter (\<lambda>p. hasPrefix p d) ps). P (trimPrefix p d)"
    by (intro bexI [of _ "d @ n"]) (simp_all add: hasPrefix_append trimPrefix_append)
qed

lemma readDir_file:
  "(\<exists>es. readDir b dir = Some es \<and> (n, False) \<in> set es) \<longleftrightarrow> CHR ''/'' \<notin> set n \<and> stat b (dir @ ''/'' @ n)"
proof -
  let ?ps = "filter (\<lambda>p. hasPrefix p (dir @ ''/'')) (map fst (files b))"
  have "(\<exists>es. readDir b dir = Some es \<and> (n, False) \<in> set es) \<longleftrightarrow>
      (\<exists>p\<in>set ?ps. dir_entry (trimPrefix p (dir @ ''/'')) = (n, False))"
  proof (cases ?ps)
    case (Cons p ps)
    then have "readDir b dir = Some (sort_key fst (remdups (map (\<lambda>p. dir_entry (trimPrefix p (dir @ ''/''))) ?ps)))"
      by (simp add: readDir_def del: map_map)
    then show ?thesis by (simp add: image_iff eq_commute del: filter.simps)
  qed (simp add: readDir_def)
  also have "\<dots> \<longleftrightarrow> (\<exists>r. (dir @ ''/'') @ r \<in> set (map fst (files b)) \<and> dir_entry r = (n, False))"
    by (rule under_prefix)
  also have "\<dots> \<longleftrightarrow> CHR ''/'' \<notin> set n \<and> dir @ ''/'' @ n \<in> fst ` set (files b)"
    by (auto simp: dir_entry_def takeWhile_no_slash)
  also have "\<dots> \<longleftrightarrow> CHR ''/'' \<notin> set n \<and> stat b (dir @ ''/'' @ n)"
    by (simp add: stat_def map_of_eq_None_iff)
  finally show ?thesis .
qed

lemma listed_iff:
  "t \<in> set (listTunnels (readDir b)) \<longleftrightarrow>
     tr_Role t \<in> set tunnelRoles \<and> tr_Path t = tunnelConfigPath (tr_Role t) (tr_Name t) \<and>
     CHR ''/'' \<notin> set (tr_Name t) \<and> stat b (tr_Path t)"
proof -
  have "CHR ''/'' \<notin> set (tunnelConfigExt r)" for r by (simp add: tunnelConfigExt_def)
  then show ?thesis
    by (auto simp: listTunnels_def list_role_iff readDir_file tunnelConfigPath_def)
qed

section \<open>Deleting a tunnel\<close>

lemma pathExt_dot:
  assumes "CHR ''.'' \<notin> set ext" "CHR ''/'' \<notin> set ext"
  shows "pathExt (p @ CHR ''.'' # ext) = CHR ''.'' # ext"
proof -
  have t: "takeWhile (\<lambda>c. c \<noteq> CHR ''.'' \<and> c \<noteq> CHR ''/'') (rev ext @ CHR ''.'' # rev p) = rev ext"
    using assms by (subst takeWhile_append2) auto
  show ?thesis by (simp add: pathExt_def t Let_def)
qed

lemma tunnelConfigExt_dot: "\<exists>e. tunnelConfigExt role = CHR ''.'' # e \<and> CHR ''.'' \<notin> set e \<and> CHR ''/'' \<notin> set e"
  by (simp add: tunnelConfigExt_def)

lemma metricsPath_config: "metricsPath (tunnelConfigPath role name) = tunnelDir role @ ''/'' @ name @ ''.metrics.json''"
proof -
  obtain e where e: "tunnelConfigExt role = CHR ''.'' # e" "CHR ''.'' \<notin> set e" "CHR ''/'' \<notin> set e"
    using tunnelConfigExt_dot by blast
  have "tunnelConfigPath role name = (tunnelDir role @ ''/'' @ name) @ tunnelConfigExt role"
    by (simp add: tunnelConfigPath_def)
  moreover have "pathExt ((tunnelDir role @ ''/'' @ name) @ tunnelConfigExt role) = tunnelConfigExt role"
    unfolding e(1) by (rule pathExt_dot [OF e(2,3)])
  ultimately show ?thesis by (simp add: metricsPath_def) (metis append.assoc append_Cons trimSuffix_ext append_Nil)
qed

lemma readFile_deleted:
  "readFile (deleted t b) p =
     (if p = unitPath (tunnel_unit t) \<or> p = tr_Path t \<or> (\<not> isPaqet t \<and> p = metricsPath (tr_Path t))
      then None else readFile b p)"
  by (simp add: deleted_def Let_def box_simps)

lemma same_dir_file:
  assumes "r \<in> set tunnelRoles" "r' \<in> set tunnelRoles"
  shows "tunnelDir r @ ''/'' @ x = tunnelDir r' @ ''/'' @ y \<longleftrightarrow> r = r' \<and> x = y"
  using role_chars [OF assms(1)] role_chars [OF assms(2)] by (simp add: tunnelDir_def split_at_char)

lemma config_not_metrics:
  "name @ tunnelConfigExt role \<noteq> name' @ ''.metrics.json''" "name' @ ''.metrics.json'' \<noteq> name @ tunnelConfigExt role"
proof -
  have "last (name @ tunnelConfigExt role) = CHR ''l''" by (simp add: tunnelConfigExt_def)
  moreover have "last (name' @ ''.metrics.json'') = CHR ''n''" by simp
  ultimately show "name @ tunnelConfigExt role \<noteq> name' @ ''.metrics.json''"
      "name' @ ''.metrics.json'' \<noteq> name @ tunnelConfigExt role" by fastforce+
qed

lemma unitPath_outside: "unitPath unit \<noteq> tunnelDir role @ x" "tunnelDir role @ x \<noteq> unitPath unit"
  by (simp_all add: unitPath_def tunnelDir_def tunnelsRoot_def)

text \<open>The files of two listed tunnels are different files.\<close>

lemma tunnel_files_apart:
  assumes "t \<in> set (listTunnels (readDir b))" "u \<in> set (listTunnels (readDir b))" "u \<noteq> t"
    "p \<in> {tr_Path u, unitPath (tunnel_unit u), metricsPath (tr_Path u)}"
  shows "p \<notin> {tr_Path t, unitPath (tunnel_unit t), metricsPath (tr_Path t)}"
proof -
  have t: "tr_Role t \<in> set tunnelRoles" "tr_Path t = tunnelConfigPath (tr_Role t) (tr_Name t)"
    and u: "tr_Role u \<in> set tunnelRoles" "tr_Path u = tunnelConfigPath (tr_Role u) (tr_Name u)"
    using assms(1,2) by (simp_all add: listed_iff)
  have ne: "\<not> (tr_Role u = tr_Role t \<and> tr_Name u = tr_Name t)" using assms(3) t(2) u(2) by (cases u, cases t) auto
  have unit: "unitPath (tunnel_unit u) = unitPath (tunnel_unit t) \<longleftrightarrow> tr_Role u = tr_Role t \<and> tr_Name u = tr_Name t"
    using role_chars(2) [OF t(1)] role_chars(2) [OF u(1)]
    by (simp add: unitPath_def tunnel_unit_def systemdUnitInstance_def split_at_char)
  have conf: "tr_Path x = tunnelDir (tr_Role x) @ ''/'' @ (tr_Name x @ tunnelConfigExt (tr_Role x))"
    "metricsPath (tr_Path x) = tunnelDir (tr_Role x) @ ''/'' @ (tr_Name x @ ''.metrics.json'')" if "x \<in> {t, u}" for x
  proof -
    have "tr_Path x = tunnelConfigPath (tr_Role x) (tr_Name x)" using that t(2) u(2) by auto
    then show "tr_Path x = tunnelDir (tr_Role x) @ ''/'' @ (tr_Name x @ tunnelConfigExt (tr_Role x))"
      "metricsPath (tr_Path x) = tunnelDir (tr_Role x) @ ''/'' @ (tr_Name x @ ''.metrics.json'')"
      by (simp only: tunnelConfigPath_def append.assoc, simp only: metricsPath_config)
  qed
  have same: "tunnelDir (tr_Role u) @ ''/'' @ x = tunnelDir (tr_Role t) @ ''/'' @ y \<longleftrightarrow> tr_Role u = tr_Role t \<and> x = y" for x y
    by (rule same_dir_file [OF u(1) t(1)])
  have cu: "tr_Path u = tunnelDir (tr_Role u) @ ''/'' @ (tr_Name u @ tunnelConfigExt (tr_Role u))"
      "metricsPath (tr_Path u) = tunnelDir (tr_Role u) @ ''/'' @ (tr_Name u @ ''.metrics.json'')"
    and ct: "tr_Path t = tunnelDir (tr_Role t) @ ''/'' @ (tr_Name t @ tunnelConfigExt (tr_Role t))"
      "metricsPath (tr_Path t) = tunnelDir (tr_Role t) @ ''/'' @ (tr_Name t @ ''.metrics.json'')"
    by (rule conf, simp)+
  have "tr_Path u \<noteq> tr_Path t" unfolding cu(1) ct(1) same using ne by auto
  moreover have "metricsPath (tr_Path u) \<noteq> metricsPath (tr_Path t)" unfolding cu(2) ct(2) same using ne by auto
  moreover have "tr_Path u \<noteq> metricsPath (tr_Path t)" unfolding cu(1) ct(2) same by (simp add: config_not_metrics)
  moreover have "metricsPath (tr_Path u) \<noteq> tr_Path t" unfolding cu(2) ct(1) same by (simp add: config_not_metrics)
  moreover have "unitPath w \<noteq> tr_Path x" "unitPath w \<noteq> metricsPath (tr_Path x)" if "x \<in> {t, u}" for w x
    by (subst conf(1) [OF that], rule unitPath_outside, subst conf(2) [OF that], rule unitPath_outside)
  ultimately show ?thesis using assms(4) unit ne by (auto dest: sym)
qed

text \<open>
  Deleting a tunnel removes its configuration, its unit file and its metrics, and nothing of any other tunnel:
  afterwards the listing holds exactly the others, and every other tunnel has the configuration, unit file
  and metrics it had.
\<close>
theorem delete_removes_exactly:
  assumes "t \<in> set (listTunnels (readDir b))"
  shows "set (listTunnels (readDir (deleted t b))) = set (listTunnels (readDir b)) - {t} \<and>
    \<not> stat (deleted t b) (unitPath (tunnel_unit t)) \<and>
    (isPaqet t \<or> \<not> stat (deleted t b) (metricsPath (tr_Path t))) \<and>
    (\<forall>u \<in> set (listTunnels (readDir b)) - {t}. \<forall>p \<in> {tr_Path u, unitPath (tunnel_unit u), metricsPath (tr_Path u)}.
       readFile (deleted t b) p = readFile b p)"
proof (intro conjI ballI)
  fix u p assume "u \<in> set (listTunnels (readDir b)) - {t}" "p \<in> {tr_Path u, unitPath (tunnel_unit u), metricsPath (tr_Path u)}"
  with tunnel_files_apart [OF assms, of u p] show "readFile (deleted t b) p = readFile b p"
    by (simp add: readFile_deleted)
  next
  show "\<not> stat (deleted t b) (unitPath (tunnel_unit t))" "isPaqet t \<or> \<not> stat (deleted t b) (metricsPath (tr_Path t))"
    by (simp_all add: box_simps readFile_deleted)
  next
  show "set (listTunnels (readDir (deleted t b))) = set (listTunnels (readDir b)) - {t}"
  proof (intro set_eqI)
    fix u
    show "u \<in> set (listTunnels (readDir (deleted t b))) \<longleftrightarrow> u \<in> set (listTunnels (readDir b)) - {t}"
    proof (cases "u \<in> set (listTunnels (readDir b)) \<and> u \<noteq> t")
      case True
      then have "readFile (deleted t b) (tr_Path u) = readFile b (tr_Path u)"
        using tunnel_files_apart [OF assms, of u "tr_Path u"] by (simp add: readFile_deleted)
      with True show ?thesis by (simp add: listed_iff box_simps)
    next
      case False
      then show ?thesis by (auto simp: listed_iff box_simps readFile_deleted)
    qed
  qed
qed

theorem delete_removes_exactly_witness:
  "let t = \<lparr>tr_Role = ''client'', tr_Name = ''a'', tr_Path = tunnelConfigPath ''client'' ''a''\<rparr>;
       b = \<lparr>files = [(tunnelConfigPath ''client'' ''a'', ''x''), (tunnelConfigPath ''client'' ''b'', ''y'')], ran = []\<rparr> in
   set (listTunnels (readDir (deleted t b))) =
     {\<lparr>tr_Role = ''client'', tr_Name = ''b'', tr_Path = tunnelConfigPath ''client'' ''b''\<rparr>}"
proof -
  let ?t = "\<lparr>tr_Role = ''client'', tr_Name = ''a'', tr_Path = tunnelConfigPath ''client'' ''a''\<rparr>"
  let ?u = "\<lparr>tr_Role = ''client'', tr_Name = ''b'', tr_Path = tunnelConfigPath ''client'' ''b''\<rparr>"
  let ?b = "\<lparr>files = [(tunnelConfigPath ''client'' ''a'', ''x''), (tunnelConfigPath ''client'' ''b'', ''y'')], ran = []\<rparr>"
  have all: "set (listTunnels (readDir ?b)) = {?t, ?u}"
    by (rule set_eqI, simp add: listed_iff tunnelRoles_def stat_def) (auto simp: tunnelConfigPath_def tunnelDir_def)
  then have "?t \<in> set (listTunnels (readDir ?b))" by simp
  from delete_removes_exactly [OF this] all show ?thesis by (simp add: Let_def)
qed

end
