(* ===== verification/Tiers.thy ===== *)
theory Tiers
  imports Complex_Main Config Console
begin

text \<open>
  Sizing a tunnel: the performance tiers of \<open>bench.go\<close> and their application to a configuration
  (\<open>tunnels.go\<close>). A \<open>float64\<close> is a real number and \<open>rnd\<close> rounds the exact result of an operation to one; the
  theorems hold whatever \<open>rnd\<close> does. The \<open>blurb\<close> of a tier, only printed, is left out.
\<close>

section \<open>Floating point\<close>

text \<open>\<open>time.Duration.Seconds\<close>, and the conversion of a \<open>float64\<close> in range to an integer.\<close>

definition duration_seconds :: "(real \<Rightarrow> real) \<Rightarrow> int \<Rightarrow> real" where
  "duration_seconds rnd d =
     rnd (rnd (of_int (go_quot d second)) + rnd (rnd (of_int (go_rem d second)) / 1000000000))"

definition int_of_float :: "real \<Rightarrow> int" where
  "int_of_float x = (if 0 \<le> x then \<lfloor>x\<rfloor> else \<lceil>x\<rceil>)"

section \<open>Tiers\<close>

record tierPreset =
  t_name :: string
  t_minIdle :: int
  t_maxIdle :: int
  t_maxStreamsPerSession :: int
  t_bufferSize :: int
  t_recvBuf :: int
  t_sendBuf :: int
  t_muxRecvBuffer :: int
  t_muxStreamBuffer :: int
  t_muxFrameSize :: int

definition tiers :: "tierPreset list" where
  "tiers =
    [\<lparr>t_name = ''light'', t_minIdle = 2, t_maxIdle = 6, t_maxStreamsPerSession = 16,
       t_bufferSize = 16 * 1024, t_recvBuf = 65536, t_sendBuf = 65536,
       t_muxRecvBuffer = 1 * 2 ^ 20, t_muxStreamBuffer = 256 * 2 ^ 10, t_muxFrameSize = 16 * 2 ^ 10\<rparr>,
     \<lparr>t_name = ''medium'', t_minIdle = 4, t_maxIdle = 16, t_maxStreamsPerSession = 64,
       t_bufferSize = 32 * 1024, t_recvBuf = 256 * 2 ^ 10, t_sendBuf = 256 * 2 ^ 10,
       t_muxRecvBuffer = 4 * 2 ^ 20, t_muxStreamBuffer = 1 * 2 ^ 20, t_muxFrameSize = 32 * 2 ^ 10\<rparr>,
     \<lparr>t_name = ''heavy'', t_minIdle = 8, t_maxIdle = 32, t_maxStreamsPerSession = 128,
       t_bufferSize = 64 * 1024, t_recvBuf = 1 * 2 ^ 20, t_sendBuf = 1 * 2 ^ 20,
       t_muxRecvBuffer = 8 * 2 ^ 20, t_muxStreamBuffer = 2 * 2 ^ 20, t_muxFrameSize = 65535\<rparr>,
     \<lparr>t_name = ''extreme'', t_minIdle = 12, t_maxIdle = 48, t_maxStreamsPerSession = 192,
       t_bufferSize = 96 * 1024, t_recvBuf = 2 * 2 ^ 20, t_sendBuf = 2 * 2 ^ 20,
       t_muxRecvBuffer = 12 * 2 ^ 20, t_muxStreamBuffer = 3 * 2 ^ 20, t_muxFrameSize = 65535\<rparr>,
     \<lparr>t_name = ''insane'', t_minIdle = 20, t_maxIdle = 80, t_maxStreamsPerSession = 320,
       t_bufferSize = 192 * 1024, t_recvBuf = 6 * 2 ^ 20, t_sendBuf = 6 * 2 ^ 20,
       t_muxRecvBuffer = 24 * 2 ^ 20, t_muxStreamBuffer = 6 * 2 ^ 20, t_muxFrameSize = 65535\<rparr>]"

definition pickTier :: "int \<Rightarrow> int \<Rightarrow> real \<Rightarrow> tierPreset" where
  "pickTier cores ramMB minMbps =
     (if cores \<ge> 16 \<and> minMbps \<ge> 800 then tiers ! 4
      else if cores \<ge> 8 \<and> minMbps \<ge> 500 then tiers ! 3
      else if cores \<ge> 4 \<and> minMbps \<ge> 100 then tiers ! 2
      else if cores \<ge> 2 \<and> minMbps \<ge> 20 then tiers ! 1
      else tiers ! 0)"

definition bdpBytes :: "(real \<Rightarrow> real) \<Rightarrow> real \<Rightarrow> int \<Rightarrow> int" where
  "bdpBytes rnd mbps rtt =
     int_of_float (rnd (rnd (rnd (mbps * 1000000) / 8) * duration_seconds rnd rtt))"

record benchResult =
  minRTT :: int
  avgRTT :: int
  maxRTT :: int
  downMbps :: real
  upMbps :: real

record tunedTier =
  tt_base :: tierPreset
  tt_cores :: int
  tt_ramMB :: int
  tt_haveRAM :: bool
  tt_minMbps :: real
  tt_rtt :: int
  tt_bdp :: int

text \<open>\<open>cores\<close> is \<open>runtime.NumCPU()\<close>, \<open>(ramMB, haveRAM)\<close> what \<open>localRAMMB\<close> read.\<close>

definition computeTier :: "(real \<Rightarrow> real) \<Rightarrow> int \<Rightarrow> int \<times> bool \<Rightarrow> benchResult \<Rightarrow> tunedTier" where
  "computeTier rnd cores ram res =
     (let minMbps = (if upMbps res < downMbps res then upMbps res else downMbps res) in
      \<lparr>tt_base = pickTier cores (fst ram) minMbps, tt_cores = cores, tt_ramMB = fst ram, tt_haveRAM = snd ram,
       tt_minMbps = minMbps, tt_rtt = avgRTT res, tt_bdp = bdpBytes rnd minMbps (avgRTT res)\<rparr>)"

definition resolved :: "tunedTier \<Rightarrow> tierPreset" where
  "resolved t =
     (let out = tt_base t;
          out = (if tt_bdp t > t_recvBuf out then out\<lparr>t_recvBuf := tt_bdp t, t_sendBuf := tt_bdp t\<rparr> else out);
          out = (if tt_bdp t > t_muxStreamBuffer out then out\<lparr>t_muxStreamBuffer := tt_bdp t\<rparr> else out);
          least = wrap64 (t_muxStreamBuffer out * 4)
      in if t_muxRecvBuffer out < least then out\<lparr>t_muxRecvBuffer := least\<rparr> else out)"

definition applyTierToConfig :: "Config \<Rightarrow> tierPreset \<Rightarrow> Config" where
  "applyTierToConfig cfg t =
     cfg\<lparr>MinIdle := t_minIdle t, MaxIdle := t_maxIdle t, BufferSize := t_bufferSize t, RecvBuf := t_recvBuf t,
         SendBuf := t_sendBuf t, MaxStreamsPerSession := t_maxStreamsPerSession t, MuxFrameSize := t_muxFrameSize t,
         MuxRecvBuffer := t_muxRecvBuffer t, MuxStreamBuffer := t_muxStreamBuffer t\<rparr>"

section \<open>What a tier guarantees\<close>

text \<open>The settings of a tier that a configuration and the multiplexer depend on.\<close>

definition usable_tier :: "tierPreset \<Rightarrow> bool" where
  "usable_tier t \<longleftrightarrow>
     1 \<le> t_minIdle t \<and> t_minIdle t \<le> t_maxIdle t \<and> 0 < t_bufferSize t \<and> 0 < t_maxStreamsPerSession t \<and>
     0 < t_muxFrameSize t \<and> t_muxFrameSize t < 2 ^ 16"

lemma tiers_facts:
  "\<forall>t\<in>set tiers. usable_tier t \<and> t_recvBuf t = t_sendBuf t \<and> 0 < t_recvBuf t \<and> 0 < t_muxStreamBuffer t \<and>
     t_muxStreamBuffer t * 4 < 2 ^ 63"
  by (simp add: tiers_def usable_tier_def)

lemma pickTier_tiers: "pickTier cores ram mbps \<in> set tiers"
  by (simp add: pickTier_def tiers_def)

lemma resolved_unchanged [simp]:
  "t_minIdle (resolved t) = t_minIdle (tt_base t)" "t_maxIdle (resolved t) = t_maxIdle (tt_base t)"
  "t_bufferSize (resolved t) = t_bufferSize (tt_base t)" "t_name (resolved t) = t_name (tt_base t)"
  "t_maxStreamsPerSession (resolved t) = t_maxStreamsPerSession (tt_base t)"
  "t_muxFrameSize (resolved t) = t_muxFrameSize (tt_base t)"
  by (simp_all add: resolved_def Let_def)

lemma resolved_buffers:
  assumes "t_recvBuf (tt_base t) = t_sendBuf (tt_base t)"
  shows "t_recvBuf (resolved t) = max (t_recvBuf (tt_base t)) (tt_bdp t)"
    "t_sendBuf (resolved t) = max (t_sendBuf (tt_base t)) (tt_bdp t)"
    "t_muxStreamBuffer (resolved t) = max (t_muxStreamBuffer (tt_base t)) (tt_bdp t)"
    "t_muxRecvBuffer (resolved t) =
       max (t_muxRecvBuffer (tt_base t)) (wrap64 (max (t_muxStreamBuffer (tt_base t)) (tt_bdp t) * 4))"
  using assms by (simp_all add: resolved_def Let_def max_def)

lemma valid_config_applyTier:
  assumes "valid_config cfg" "usable_tier t"
  shows "valid_config (applyTierToConfig cfg t)"
  using assms by (simp add: valid_config_def dialsOut_def applyTierToConfig_def usable_tier_def)

lemma usable_resolved: "usable_tier (resolved t) = usable_tier (tt_base t)"
  by (simp add: usable_tier_def)

lemma resolved_four_streams:
  assumes "tt_base t \<in> set tiers" "tt_bdp t < 2 ^ 61"
  shows "t_muxStreamBuffer (resolved t) * 4 \<le> t_muxRecvBuffer (resolved t)"
proof -
  have b: "t_recvBuf (tt_base t) = t_sendBuf (tt_base t)"
    "0 < t_muxStreamBuffer (tt_base t)" "t_muxStreamBuffer (tt_base t) * 4 < 2 ^ 63"
    using tiers_facts assms(1) by blast+
  have "wrap64 (max (t_muxStreamBuffer (tt_base t)) (tt_bdp t) * 4) = max (t_muxStreamBuffer (tt_base t)) (tt_bdp t) * 4"
    using b(2,3) assms(2) by (intro wrap64_id) (auto simp: max_def)
  then show ?thesis by (simp add: resolved_buffers [OF b(1)])
qed

section \<open>Properties\<close>

text \<open>
  A measured tier fits the measured link: the socket buffers and the stream window hold at least
  the bandwidth-delay product of the weaker direction and are the tier's own where those are larger, the
  session's window holds four streams, and a valid configuration stays valid when the tier is applied to it,
  with everything but the nine tuned settings as it was. The product is assumed to be below 2^61.
\<close>
theorem tier_fits_link:
  assumes "tt = computeTier rnd cores ram res" "bdp = bdpBytes rnd (min (downMbps res) (upMbps res)) (avgRTT res)"
    and "bdp < 2 ^ 61" "valid_config cfg"
  shows "let c = applyTierToConfig cfg (resolved tt); b = tt_base tt in
    RecvBuf c = max (t_recvBuf b) bdp \<and> SendBuf c = RecvBuf c \<and>
    MuxStreamBuffer c = max (t_muxStreamBuffer b) bdp \<and> 4 * MuxStreamBuffer c \<le> MuxRecvBuffer c \<and>
    0 < BufferSize c \<and> 0 < MaxStreamsPerSession c \<and> valid_config c \<and>
    c\<lparr>MinIdle := MinIdle cfg, MaxIdle := MaxIdle cfg, BufferSize := BufferSize cfg, RecvBuf := RecvBuf cfg,
      SendBuf := SendBuf cfg, MaxStreamsPerSession := MaxStreamsPerSession cfg, MuxFrameSize := MuxFrameSize cfg,
      MuxRecvBuffer := MuxRecvBuffer cfg, MuxStreamBuffer := MuxStreamBuffer cfg\<rparr> = cfg"
proof -
  have base: "tt_base tt \<in> set tiers" and bdp: "tt_bdp tt = bdp"
    using assms(1,2) by (simp_all add: computeTier_def Let_def pickTier_tiers min_def)
  with tiers_facts have b: "t_recvBuf (tt_base tt) = t_sendBuf (tt_base tt)" and u: "usable_tier (tt_base tt)"
    by blast+
  note r = resolved_buffers [OF b]
  have v: "valid_config (applyTierToConfig cfg (resolved tt))"
    by (rule valid_config_applyTier [OF assms(4)]) (simp add: usable_resolved u)
  have pos: "0 < t_bufferSize (tt_base tt)" "0 < t_maxStreamsPerSession (tt_base tt)"
    using u by (simp_all add: usable_tier_def)
  have four: "4 * MuxStreamBuffer (applyTierToConfig cfg (resolved tt)) \<le> MuxRecvBuffer (applyTierToConfig cfg (resolved tt))"
    using resolved_four_streams [OF base, unfolded bdp, OF assms(3)] by (simp add: applyTierToConfig_def)
  show ?thesis
    unfolding Let_def
    by (intro conjI v four) (simp_all add: applyTierToConfig_def r bdp pos b)
qed

theorem tier_fits_link_witness:
  "RecvBuf (applyTierToConfig (sample_config ''server'')
     (resolved (computeTier (\<lambda>x. x) 8 (4096, True) \<lparr>minRTT = 0, avgRTT = 80 * millisecond, maxRTT = 0, downMbps = 600, upMbps = 500\<rparr>)))
   = 5000000"
proof -
  let ?res = "\<lparr>minRTT = 0, avgRTT = 80 * millisecond, maxRTT = 0, downMbps = 600, upMbps = 500\<rparr> :: benchResult"
  have bdp: "5000000 = bdpBytes (\<lambda>x. x) (min (downMbps ?res) (upMbps ?res)) (avgRTT ?res)"
    by (simp add: bdpBytes_def int_of_float_def duration_seconds_def go_quot_def go_rem_def)
  have base: "t_recvBuf (tt_base (computeTier (\<lambda>x. x) 8 (4096, True) ?res)) = 2 * 2 ^ 20"
    by (simp add: computeTier_def pickTier_def tiers_def)
  from tier_fits_link [OF refl bdp _ sample_config_valid [of "''server''"], of 8 "(4096, True)"] base
  show ?thesis by (simp add: Let_def)
qed

text \<open>
  More processors and more bandwidth never get a smaller tier: the choice is monotone in both, in every
  setting. The memory of the box, which \<open>pickTier\<close> is also given, plays no part.
\<close>
theorem pickTier_monotone:
  assumes "cores \<le> cores'" "mbps \<le> mbps'"
  shows "let t = pickTier cores ram mbps; t' = pickTier cores' ram' mbps' in
    t_minIdle t \<le> t_minIdle t' \<and> t_maxIdle t \<le> t_maxIdle t' \<and> t_maxStreamsPerSession t \<le> t_maxStreamsPerSession t' \<and>
    t_bufferSize t \<le> t_bufferSize t' \<and> t_recvBuf t \<le> t_recvBuf t' \<and> t_sendBuf t \<le> t_sendBuf t' \<and>
    t_muxRecvBuffer t \<le> t_muxRecvBuffer t' \<and> t_muxStreamBuffer t \<le> t_muxStreamBuffer t' \<and>
    t_muxFrameSize t \<le> t_muxFrameSize t'"
proof -
  define k where "k c m = (if c \<ge> 16 \<and> m \<ge> 800 then 4 else if c \<ge> 8 \<and> m \<ge> 500 then 3
    else if c \<ge> 4 \<and> m \<ge> 100 then 2 else if c \<ge> 2 \<and> m \<ge> 20 then 1 else (0::nat))" for c :: int and m :: real
  have p: "pickTier c r m = tiers ! k c m" for c r m by (simp add: pickTier_def k_def)
  have "k cores mbps \<le> k cores' mbps'" "k cores' mbps' < 5" using assms by (auto simp: k_def)
  then have "(k cores mbps, k cores' mbps') \<in> set (concat (map (\<lambda>j. map (\<lambda>i. (i, j)) [0..<Suc j]) [0..<5]))"
    by (simp del: upt_Suc) (metis atLeastLessThan_iff le0 le_imp_less_Suc rev_image_eqI)
  moreover have "\<forall>(i, j)\<in>set (concat (map (\<lambda>j. map (\<lambda>i. (i, j)) [0..<Suc j]) [0..<5])).
    t_minIdle (tiers ! i) \<le> t_minIdle (tiers ! j) \<and> t_maxIdle (tiers ! i) \<le> t_maxIdle (tiers ! j) \<and>
    t_maxStreamsPerSession (tiers ! i) \<le> t_maxStreamsPerSession (tiers ! j) \<and>
    t_bufferSize (tiers ! i) \<le> t_bufferSize (tiers ! j) \<and> t_recvBuf (tiers ! i) \<le> t_recvBuf (tiers ! j) \<and>
    t_sendBuf (tiers ! i) \<le> t_sendBuf (tiers ! j) \<and> t_muxRecvBuffer (tiers ! i) \<le> t_muxRecvBuffer (tiers ! j) \<and>
    t_muxStreamBuffer (tiers ! i) \<le> t_muxStreamBuffer (tiers ! j) \<and> t_muxFrameSize (tiers ! i) \<le> t_muxFrameSize (tiers ! j)"
    by (simp add: tiers_def upt_rec)
  ultimately show ?thesis unfolding p Let_def by blast
qed

theorem pickTier_monotone_witness: "t_recvBuf (pickTier 4 512 150) \<le> t_recvBuf (pickTier 8 256 600)"
  using pickTier_monotone [of 4 8 150 600 512 256] by (simp add: Let_def)

end
