(* ===== verification/Upkeep.thy ===== *)
theory Upkeep
  imports Box Tiers
begin

text \<open>
  The upkeep menus that write system files: the kernel tuning and open-file limits of \<open>tune.go\<close>, and the
  periodic restart of \<open>autorefresh.go\<close>, whose interval is read back from the timer it wrote.
\<close>

section \<open>Kernel tuning\<close>

text \<open>The dash of the generated texts, in UTF-8.\<close>

definition dash :: string where "dash = [CHR 0xE2, CHR 0x80, CHR 0x94]"

datatype conf_line = Gap | Note string | Setting string string

fun conf_text :: "conf_line \<Rightarrow> string" where
  "conf_text Gap = []"
| "conf_text (Note s) = ''# '' @ s"
| "conf_text (Setting k v) = k @ '' = '' @ v"

definition sysctlConfPath :: string where "sysctlConfPath = ''/etc/sysctl.d/99-rmtunnel.conf''"

definition limitsConfPath :: string where "limitsConfPath = ''/etc/security/limits.d/99-rmtunnel.conf''"

definition systemdLimitsConfPath :: string where
  "systemdLimitsConfPath = ''/etc/systemd/system.conf.d/99-rmtunnel-limits.conf''"

definition sysctl_lines :: "conf_line list" where
  "sysctl_lines =
    [Note (''rmtunnel '' @ dash @ '' generated by the interactive menu ('' @ [CHR 0x22] @ ''Optimize'' @ [CHR 0x22] @ '')''),
     Gap,
     Note (''BBR: a high-RTT, lossy path benefits far more from this than cubic, the''),
     Note (''kernel default on most distros.''),
     Setting ''net.core.default_qdisc'' ''fq'',
     Setting ''net.ipv4.tcp_congestion_control'' ''bbr'',
     Gap,
     Note (''Socket buffer ceilings '' @ dash @ '' recv_buf/send_buf/mux_stream_buffer in the''),
     Note (''tunnel'' @ [CHR 0x27] @ ''s own config can only ever be as large as these allow.''),
     Setting ''net.core.rmem_max'' ''67108864'',
     Setting ''net.core.wmem_max'' ''67108864'',
     Setting ''net.ipv4.tcp_rmem'' ''4096 87380 67108864'',
     Setting ''net.ipv4.tcp_wmem'' ''4096 65536 67108864'',
     Gap,
     Note (''Larger accept/SYN backlogs and packet backlog for a server taking a heavy''),
     Note (''rate of new connections (many forwarded ports, many concurrent users, or''),
     Note (''just a public IP'' @ [CHR 0x27] @ ''s own background scanner traffic).''),
     Setting ''net.core.somaxconn'' ''8192'',
     Setting ''net.ipv4.tcp_max_syn_backlog'' ''8192'',
     Setting ''net.core.netdev_max_backlog'' ''16384'',
     Gap,
     Note (''A box proxying many concurrent flows needs the kernel'' @ [CHR 0x27] @ ''s own connection''),
     Note (''tracking table sized to match, or new connections start getting silently''),
     Note (''dropped long before the tunnel'' @ [CHR 0x27] @ ''s own pool limits are ever the bottleneck.''),
     Setting ''net.netfilter.nf_conntrack_max'' ''262144'',
     Gap,
     Note (''Fast reuse of TIME_WAIT sockets and a wider ephemeral port range '' @ dash @ '' a''),
     Note (''tunnel opens and closes a lot of short-lived local connections (one per''),
     Note (''forwarded flow), and the default range/reuse policy is sized for an''),
     Note (''ordinary client, not a box doing this constantly.''),
     Setting ''net.ipv4.tcp_tw_reuse'' ''1'',
     Setting ''net.ipv4.tcp_fin_timeout'' ''15'',
     Setting ''net.ipv4.ip_local_port_range'' ''1024 65535'',
     Gap,
     Note (''Detect a dead peer faster than the 2-hour kernel default '' @ dash @ '' this project'' @ [CHR 0x27] @ ''s''),
     Note (''own heartbeat/keepalive (see config.go) already does this at the''),
     Note (''application layer, but a shorter kernel-level keepalive helps every other''),
     Note (''process on the box too, and costs nothing at idle.''),
     Setting ''net.ipv4.tcp_keepalive_time'' ''300'',
     Setting ''net.ipv4.tcp_keepalive_intvl'' ''30'',
     Setting ''net.ipv4.tcp_keepalive_probes'' ''5'',
     Gap,
     Note (''Prefer reclaiming page cache over swapping a running process'' @ [CHR 0x27] @ ''s memory '' @ dash @ []),
     Note (''most VPS boxes this runs on have modest RAM and no need to swap a tunnel''),
     Note (''out under light memory pressure.''),
     Setting ''vm.swappiness'' ''10'',
     Gap,
     Note (''A high file-descriptor ceiling '' @ dash @ '' see limits.conf/system.conf.d below for''),
     Note (''the per-process/per-service limits that actually use this headroom.''),
     Setting ''fs.file-max'' ''2097152'']"

definition sysctlContent :: string where "sysctlContent = unlines (map conf_text sysctl_lines)"

definition limitsContent :: string where
  "limitsContent = unlines
    [''# rmtunnel '' @ dash @ '' generated by the interactive menu ('' @ [CHR 0x22] @ ''Optimize'' @ [CHR 0x22] @ '')'',
     ''*    soft nofile 1048576'',
     ''*    hard nofile 1048576'',
     ''root soft nofile 1048576'',
     ''root hard nofile 1048576'']"

definition systemdLimitsContent :: string where
  "systemdLimitsContent = unlines
    [''# rmtunnel '' @ dash @ '' generated by the interactive menu ('' @ [CHR 0x22] @ ''Optimize'' @ [CHR 0x22] @ '')'',
     ''[Manager]'',
     ''DefaultLimitNOFILE=1048576'']"

definition applySysctlTuning :: "host \<Rightarrow> box \<Rightarrow> box" where
  "applySysctlTuning h b =
     (let b1 = runCmd [''modprobe'', ''nf_conntrack''] (runCmd [''modprobe'', ''tcp_bbr''] b) in
      case writeFile h sysctlConfPath sysctlContent b1 of
        (b2, Some e) \<Rightarrow> b2
      | (b2, None) \<Rightarrow> runCmd [''sysctl'', ''--system''] b2)"

definition applyLimitsTuning :: "host \<Rightarrow> box \<Rightarrow> box" where
  "applyLimitsTuning h b =
     (let b1 = (if h_mkdir h ''/etc/security/limits.d'' = None then fst (writeFile h limitsConfPath limitsContent b) else b) in
      if h_mkdir h ''/etc/systemd/system.conf.d'' = None
      then fst (writeFile h systemdLimitsConfPath systemdLimitsContent b1) else b1)"

definition menuTune :: "host \<Rightarrow> box \<Rightarrow> box ask" where
  "menuTune h b =
     then_ask (confirm True) (\<lambda>yes.
       if \<not> yes then answer b
       else then_ask pressEnter (\<lambda>u. answer (applyLimitsTuning h (applySysctlTuning h b))))"

section \<open>Periodic restart\<close>

definition autoRefreshTimerUnit :: string where "autoRefreshTimerUnit = ''rmtunnel-autorefresh.timer''"

definition autoRefreshTimerPath :: string where
  "autoRefreshTimerPath = ''/etc/systemd/system/'' @ autoRefreshTimerUnit"

definition autoRefreshServicePath :: string where
  "autoRefreshServicePath = ''/etc/systemd/system/rmtunnel-autorefresh.service''"

definition timer_line :: "string \<Rightarrow> int option" where
  "timer_line line =
     (let l = trimSpace line in
      if hasPrefix l ''OnUnitActiveSec='' then atoi (trimSuffix (trimPrefix l ''OnUnitActiveSec='') ''h'') else None)"

fun timer_hours :: "string list \<Rightarrow> int" where
  "timer_hours [] = 0"
| "timer_hours (l # ls) = (case timer_line l of Some n \<Rightarrow> n | None \<Rightarrow> timer_hours ls)"

definition currentAutoRefreshHours :: "box \<Rightarrow> int" where
  "currentAutoRefreshHours b =
     (case readFile b autoRefreshTimerPath of None \<Rightarrow> 0 | Some data \<Rightarrow> timer_hours (split_char data newline))"

definition autoRefreshService :: "string \<Rightarrow> string" where
  "autoRefreshService binPath = unlines
     [''[Unit]'', ''Description=rmtunnel '' @ dash @ '' restart every configured tunnel'', [],
      ''[Service]'', ''Type=oneshot'', ''ExecStart='' @ binPath @ '' restart-all'']"

definition autoRefreshTimer :: "int \<Rightarrow> string" where
  "autoRefreshTimer hours = unlines
     [''[Unit]'', ''Description=rmtunnel '' @ dash @ '' periodic tunnel restart, every '' @ itoa hours @ ''h'', [],
      ''[Timer]'', ''OnBootSec='' @ itoa hours @ ''h'', ''OnUnitActiveSec='' @ itoa hours @ ''h'', ''Persistent=true'', [],
      ''[Install]'', ''WantedBy=timers.target'']"

definition disableAutoRefresh :: "box \<Rightarrow> box" where
  "disableAutoRefresh b =
     runCmd [''systemctl'', ''daemon-reload'']
       (removeFile autoRefreshServicePath (removeFile autoRefreshTimerPath
         (runCmd [''systemctl'', ''disable'', ''--now'', autoRefreshTimerUnit] b)))"

definition enableAutoRefresh :: "host \<Rightarrow> int \<Rightarrow> box \<Rightarrow> box" where
  "enableAutoRefresh h hours b =
     (let binPath = (case h_look h ''rmtunnel'' of Some p \<Rightarrow> p | None \<Rightarrow> rmtunnelBin) in
      case writeFile h autoRefreshServicePath (autoRefreshService binPath) b of
        (b1, Some e) \<Rightarrow> b1
      | (b1, None) \<Rightarrow>
          (case writeFile h autoRefreshTimerPath (autoRefreshTimer hours) b1 of
             (b2, Some e) \<Rightarrow> b2
           | (b2, None) \<Rightarrow>
               runCmd [''systemctl'', ''enable'', ''--now'', autoRefreshTimerUnit] (runCmd [''systemctl'', ''daemon-reload''] b2)))"

definition menuAutoRefresh :: "host \<Rightarrow> box \<Rightarrow> box ask" where
  "menuAutoRefresh h b =
     (let current = currentAutoRefreshHours b in
      then_ask (readLineDefault (itoa current)) (\<lambda>line.
        let b' = (case atoi (trimSpace line) of
              None \<Rightarrow> b
            | Some hours \<Rightarrow>
                if hours < 0 then b
                else if hours = 0 then (if current = 0 then b else disableAutoRefresh b)
                else enableAutoRefresh h hours b)
        in then_ask pressEnter (\<lambda>u. answer b')))"

section \<open>The ceilings fit the tiers\<close>

definition setting :: "string \<Rightarrow> int option" where
  "setting k = (case [v. Setting k' v \<leftarrow> sysctl_lines, k' = k] of [v] \<Rightarrow> atoi v | _ \<Rightarrow> None)"

text \<open>The kernel ceilings that are written admit the socket buffers of every tier.\<close>

lemma ceilings_cover_tiers:
  assumes "t \<in> set tiers"
  shows "\<exists>r w. setting ''net.core.rmem_max'' = Some r \<and> setting ''net.core.wmem_max'' = Some w \<and>
    t_recvBuf t \<le> r \<and> t_sendBuf t \<le> w"
proof -
  have "setting ''net.core.rmem_max'' = Some 67108864" "setting ''net.core.wmem_max'' = Some 67108864"
    by (simp_all add: setting_def sysctl_lines_def atoi_def char_digit_def)
  moreover have "t_recvBuf t \<le> 67108864 \<and> t_sendBuf t \<le> 67108864" using assms by (auto simp: tiers_def)
  ultimately show ?thesis by blast
qed

section \<open>Reading the interval back\<close>

lemma split_unlines:
  assumes "\<forall>l\<in>set ls. newline \<notin> set l"
  shows "split_char (unlines ls) newline = ls @ [[]]"
  using assms by (induction ls) (simp_all add: unlines_def split_char_append split_char_none)

lemma timer_hours_skip: "\<forall>l\<in>set ls. timer_line l = None \<Longrightarrow> timer_hours (ls @ l # ls') = timer_hours (l # ls')"
  by (induction ls) simp_all

lemma timer_read:
  assumes "- (2 ^ 63) \<le> n" "n < 2 ^ 63"
  shows "timer_hours (split_char (autoRefreshTimer n) newline) = n"
proof -
  let ?h = "itoa n @ ''h''"
  have nl: "newline \<notin> set ?h" using newline_itoa by (simp add: newline_def)
  have sp: "split_char (autoRefreshTimer n) newline =
     [''[Unit]'', ''Description=rmtunnel '' @ dash @ '' periodic tunnel restart, every '' @ ?h, [],
      ''[Timer]'', ''OnBootSec='' @ ?h] @ (''OnUnitActiveSec='' @ ?h) # [''Persistent=true'', [],
      ''[Install]'', ''WantedBy=timers.target'', []]"
    unfolding autoRefreshTimer_def using nl by (subst split_unlines) (simp_all add: newline_def dash_def)
  have tight: "trimSpace (c # s @ ?h) = c # s @ ?h" if "\<not> is_space c" for c s
    using that by (intro trimSpace_tight) (simp_all add: is_space_def)
  have "trimSpace (''Description=rmtunnel '' @ dash @ '' periodic tunnel restart, every '' @ ?h) =
      ''Description=rmtunnel '' @ dash @ '' periodic tunnel restart, every '' @ ?h"
    using tight [of "CHR ''D''" "''escription=rmtunnel '' @ dash @ '' periodic tunnel restart, every ''"] by (simp add: is_space_def)
  then have 1: "timer_line (''Description=rmtunnel '' @ dash @ '' periodic tunnel restart, every '' @ ?h) = None"
    by (simp add: timer_line_def hasPrefix_def)
  have "trimSpace (''OnBootSec='' @ ?h) = ''OnBootSec='' @ ?h"
    using tight [of "CHR ''O''" "''nBootSec=''"] by (simp add: is_space_def)
  then have 2: "timer_line (''OnBootSec='' @ ?h) = None"
    by (simp add: timer_line_def hasPrefix_def)
  have "trimSpace (''OnUnitActiveSec='' @ ?h) = ''OnUnitActiveSec='' @ ?h"
    using tight [of "CHR ''O''" "''nUnitActiveSec=''"] by (simp add: is_space_def)
  then have 3: "timer_line (''OnUnitActiveSec='' @ ?h) = Some n"
    using atoi_itoa [OF assms] trimSuffix_append [of "itoa n" "''h''"]
    by (simp only: timer_line_def Let_def hasPrefix_append trimPrefix_append if_True)
  have 4: "timer_line ''[Unit]'' = None" "timer_line ''[Timer]'' = None" "timer_line [] = None"
    by (simp_all add: timer_line_def hasPrefix_def trimSpace_def is_space_def)
  have "\<forall>l\<in>set [''[Unit]'', ''Description=rmtunnel '' @ dash @ '' periodic tunnel restart, every '' @ ?h, [],
      ''[Timer]'', ''OnBootSec='' @ ?h]. timer_line l = None"
    using 1 2 4 by simp
  from timer_hours_skip [OF this] show ?thesis by (simp only: sp timer_hours.simps(2) 3 option.case)
qed

lemma atoi_range: "atoi s = Some n \<Longrightarrow> - (2 ^ 63) \<le> n \<and> n < 2 ^ 63"
  by (auto simp: atoi_def Let_def split: option.splits if_splits)

lemma hours_enabled:
  assumes "h_io h autoRefreshTimerPath = None" "h_io h autoRefreshServicePath = None" "- (2 ^ 63) \<le> n" "n < 2 ^ 63"
  shows "currentAutoRefreshHours (enableAutoRefresh h n b) = n"
  using assms timer_read [OF assms(3,4)]
  by (simp add: enableAutoRefresh_def currentAutoRefreshHours_def writeFile_def runCmd_def readFile_def AList.update_conv')

lemma hours_disabled: "currentAutoRefreshHours (disableAutoRefresh b) = 0"
  by (simp add: disableAutoRefresh_def currentAutoRefreshHours_def box_simps)

text \<open>
  The menu of the periodic restart reads back what it wrote: after a valid answer of \<open>n\<close> hours the timer
  file says \<open>n\<close>, after zero there is no timer, and any other answer changes nothing. An empty answer keeps
  the interval. The writes are assumed to succeed.
\<close>
theorem refresh_interval_read_back:
  assumes "h_io h autoRefreshTimerPath = None" "h_io h autoRefreshServicePath = None"
  shows "\<exists>b'. menuAutoRefresh h b (line # enter # rest) = Answer b' rest \<and>
    currentAutoRefreshHours b' =
      (case atoi (if trimSpace line = [] then itoa (currentAutoRefreshHours b) else trimSpace line) of
         Some n \<Rightarrow> if 0 \<le> n then n else currentAutoRefreshHours b
       | None \<Rightarrow> currentAutoRefreshHours b)"
proof -
  let ?cur = "currentAutoRefreshHours b"
  let ?ans = "if trimSpace line = [] then itoa ?cur else trimSpace line"
  have tr: "trimSpace ?ans = ?ans" using is_space_itoa by (auto intro: trimSpace_id)
  let ?b = "case atoi (trimSpace ?ans) of None \<Rightarrow> b | Some hours \<Rightarrow> if hours < 0 then b
      else if hours = 0 then (if ?cur = 0 then b else disableAutoRefresh b) else enableAutoRefresh h hours b"
  have "menuAutoRefresh h b (line # enter # rest) = Answer ?b rest"
    by (simp add: menuAutoRefresh_def readLineDefault_def readLine_def then_ask_def answer_def pressEnter_def Let_def)
  moreover have "currentAutoRefreshHours ?b = (case atoi ?ans of Some n \<Rightarrow> if 0 \<le> n then n else ?cur | None \<Rightarrow> ?cur)"
  proof (cases "atoi ?ans")
    case (Some n)
    with atoi_range [OF Some] show ?thesis unfolding tr
      by (simp add: hours_enabled [OF assms] hours_disabled)
  qed (simp only: tr option.case)
  ultimately show ?thesis by blast
qed

theorem refresh_interval_read_back_witness:
  "\<exists>b'. menuAutoRefresh \<lparr>h_io = (\<lambda>p. None), h_mkdir = (\<lambda>p. None), h_look = (\<lambda>p. None), h_self = None, h_active = (\<lambda>u. False), h_cwd = ''/root''\<rparr>
      \<lparr>files = [], ran = []\<rparr> [''6'', []] = Answer b' [] \<and> currentAutoRefreshHours b' = 6"
  using refresh_interval_read_back [of "\<lparr>h_io = (\<lambda>p. None), h_mkdir = (\<lambda>p. None), h_look = (\<lambda>p. None), h_self = None, h_active = (\<lambda>u. False), h_cwd = ''/root''\<rparr>"
      "\<lparr>files = [], ran = []\<rparr>" "''6''" "[]" "[]"]
  by (simp add: trimSpace_def is_space_def atoi_def char_digit_def)

end
