(* ===== verification/Update.thy ===== *)
theory Update
  imports Upkeep "HOL-Library.Countable"
begin

text \<open>
  The update menu of \<open>update.go\<close>: replacing the binary, and the two migrations that follow it, of tunnels in the layout
  from before they had names, and of buffer sizes that an earlier version got wrong. GitHub, the download
  and the TOML codec are arguments: \<open>dec\<close> decodes a text into the defaults, \<open>enc\<close> encodes a configuration.
\<close>

section \<open>Replacing the binary\<close>

record release =
  rel_Tag :: string
  rel_Assets :: "(string \<times> string) list"

definition Version :: string where "Version = ''0.13.0''"

definition isNewerVersion :: "string \<Rightarrow> bool" where
  "isNewerVersion tag \<longleftrightarrow> tag \<noteq> ''v'' @ Version \<and> tag \<noteq> Version"

definition archAssetSuffix :: "string \<Rightarrow> string" where
  "archAssetSuffix goarch = (if goarch = ''arm64'' then ''arm64'' else ''amd64'')"

fun asset_url :: "string \<Rightarrow> (string \<times> string) list \<Rightarrow> string \<Rightarrow> string" where
  "asset_url name [] url = url"
| "asset_url name ((n, u) # as) url = asset_url name as (if n = name then u else url)"

text \<open>\<open>Inl\<close> is a failing request or status; a body that breaks off is what was read of it and the error.\<close>

definition downloadAndReplaceSelf ::
    "host \<Rightarrow> (string \<Rightarrow> goerror + (string \<times> goerror option)) \<Rightarrow> string \<Rightarrow> box \<Rightarrow> box \<times> goerror option" where
  "downloadAndReplaceSelf h get url b =
     (case get url of
        Inl e \<Rightarrow> (b, Some e)
      | Inr (body, copyErr) \<Rightarrow>
          (case h_self h of
             None \<Rightarrow> (b, Some (Msg ''executable''))
           | Some self \<Rightarrow>
               let tmp = self @ ''.new'' in
               (case writeFile h tmp body b of
                  (b1, Some e) \<Rightarrow> (removeFile tmp b1, Some e)
                | (b1, None) \<Rightarrow>
                    (case copyErr of
                       Some e \<Rightarrow> (removeFile tmp b1, Some e)
                     | None \<Rightarrow> (removeFile tmp (b1\<lparr>files := AList.update self body (files b1)\<rparr>), None)))))"

section \<open>Configurations on the box\<close>

definition loadFile ::
    "(string \<Rightarrow> Config \<Rightarrow> goerror + (Config \<times> string list)) \<Rightarrow> box \<Rightarrow> string \<Rightarrow> string \<Rightarrow> load_error + Config" where
  "loadFile dec b path role =
     (case readFile b path of
        None \<Rightarrow> Inl (DecodeFailed (Msg ''open''))
      | Some txt \<Rightarrow> LoadConfig (\<lambda>p. dec txt) path role)"

definition saveConfig :: "host \<Rightarrow> (Config \<Rightarrow> goerror + string) \<Rightarrow> Config \<Rightarrow> string \<Rightarrow> box \<Rightarrow> box \<times> goerror option" where
  "saveConfig h enc cfg path b =
     (case enc cfg of Inl e \<Rightarrow> (b, Some e) | Inr txt \<Rightarrow> writeFile h path txt b)"

section \<open>Tunnels without names\<close>

record legacyTunnel =
  l_role :: string
  l_unit :: string
  l_unitFile :: string
  l_configPath :: string

definition legacyTunnel_of :: "string \<Rightarrow> legacyTunnel" where
  "legacyTunnel_of role =
     \<lparr>l_role = role, l_unit = ''rmtunnel-'' @ role, l_unitFile = ''/etc/systemd/system/rmtunnel-'' @ role @ ''.service'',
      l_configPath = ''/etc/rmtunnel/'' @ role @ ''.toml''\<rparr>"

definition legacyTunnels :: "legacyTunnel list" where
  "legacyTunnels = map legacyTunnel_of [''server'', ''client'']"

definition legacy_cand :: "nat \<Rightarrow> string" where
  "legacy_cand i = (if i > 1 then ''legacy'' @ itoa (int i) else ''legacy'')"

text \<open>The loop that looks for a free name ends: only finitely many files exist.\<close>

lemma itoa_inj: "itoa (int i) = itoa (int j) \<longleftrightarrow> i = j"
proof
  assume "itoa (int i) = itoa (int j)"
  then have "digits_value 0 (itoa_nat i) = digits_value 0 (itoa_nat j)" by (simp add: itoa_def)
  then show "i = j" by (simp add: digits_value_itoa_nat)
qed simp

lemma legacy_cand_inj: "inj_on legacy_cand {1..}"
  using itoa_nonempty [symmetric] by (auto simp: inj_on_def legacy_cand_def itoa_inj)

lemma finite_taken: "finite {j. i \<le> j \<and> stat b (tunnelConfigPath role (legacy_cand j))}"
proof -
  let ?T = "{j. 1 \<le> j \<and> stat b (tunnelConfigPath role (legacy_cand j))}"
  have "(\<lambda>j. tunnelConfigPath role (legacy_cand j)) ` ?T \<subseteq> fst ` set (files b)"
    by (auto simp: stat_def map_of_eq_None_iff)
  then have "finite ((\<lambda>j. tunnelConfigPath role (legacy_cand j)) ` ?T)" by (rule finite_subset) simp
  moreover have "inj_on (\<lambda>j. tunnelConfigPath role (legacy_cand j)) ?T"
    using legacy_cand_inj by (auto simp: inj_on_def tunnelConfigPath_def)
  ultimately have "finite ?T" by (rule finite_imageD)
  then have "finite (insert 0 ?T)" by simp
  then show ?thesis by (rule rev_finite_subset) auto
qed

function legacy_name :: "box \<Rightarrow> string \<Rightarrow> nat \<Rightarrow> string" where
  "legacy_name b role i =
     (if stat b (tunnelConfigPath role (legacy_cand i)) then legacy_name b role (Suc i) else legacy_cand i)"
  by auto

termination
proof (relation "measure (\<lambda>(b, role, i). card {j. i \<le> j \<and> stat b (tunnelConfigPath role (legacy_cand j))})")
  fix b role i
  assume s: "stat b (tunnelConfigPath role (legacy_cand i))"
  let ?T = "\<lambda>i. {j. i \<le> j \<and> stat b (tunnelConfigPath role (legacy_cand j))}"
  have "?T (Suc i) \<subseteq> ?T i" "i \<in> ?T i" "i \<notin> ?T (Suc i)" using s by auto
  then have "?T (Suc i) \<subset> ?T i" by blast
  from psubset_card_mono [OF finite_taken this]
  show "((b, role, Suc i), b, role, i) \<in> measure (\<lambda>(b, role, i). card {j. i \<le> j \<and> stat b (tunnelConfigPath role (legacy_cand j))})"
    by simp
qed simp

declare legacy_name.simps [simp del]

definition free_name :: "box \<Rightarrow> string \<Rightarrow> string" where
  "free_name b role = (if stat b (tunnelConfigPath role ''main'') then legacy_name b role 1 else ''main'')"

definition migrate_one ::
    "host \<Rightarrow> (string \<Rightarrow> Config \<Rightarrow> goerror + (Config \<times> string list)) \<Rightarrow> legacyTunnel \<Rightarrow> box \<Rightarrow> box \<times> string list" where
  "migrate_one h dec lt b =
     (if \<not> stat b (l_unitFile lt) then (b, [])
      else case readFile b (l_configPath lt) of
        None \<Rightarrow> (removeFile (l_unitFile lt) (runCmd [''systemctl'', ''disable'', ''--now'', l_unit lt] b), [])
      | Some data \<Rightarrow>
          let name = free_name b (l_role lt); newPath = tunnelConfigPath (l_role lt) name in
          if h_mkdir h (tunnelDir (l_role lt)) \<noteq> None then (b, [])
          else case writeFile h newPath data b of
            (b1, Some e) \<Rightarrow> (b1, [])
          | (b1, None) \<Rightarrow>
              let b2 = removeFile (l_unitFile lt) (runCmd [''systemctl'', ''disable'', ''--now'', l_unit lt] b1) in
              (case loadFile dec b2 newPath (l_role lt) of
                 Inl e \<Rightarrow> (b2, [l_role lt @ ''/'' @ name])
               | Inr cfg \<Rightarrow>
                   (removeFile (l_configPath lt) (installTunnelService h (l_role lt) name newPath b2),
                    [l_role lt @ ''/'' @ name])))"

fun migrate_all ::
    "host \<Rightarrow> (string \<Rightarrow> Config \<Rightarrow> goerror + (Config \<times> string list)) \<Rightarrow> legacyTunnel list \<Rightarrow> box \<Rightarrow> box \<times> string list" where
  "migrate_all h dec [] b = (b, [])"
| "migrate_all h dec (lt # lts) b =
     (let (b1, m) = migrate_one h dec lt b; (b2, ms) = migrate_all h dec lts b1 in (b2, m @ ms))"

definition migrateLegacyTunnels ::
    "host \<Rightarrow> (string \<Rightarrow> Config \<Rightarrow> goerror + (Config \<times> string list)) \<Rightarrow> box \<Rightarrow> box \<times> string list" where
  "migrateLegacyTunnels h dec b = migrate_all h dec legacyTunnels b"

section \<open>Wrong buffer sizes\<close>

definition badCeilingMbps :: "real list" where "badCeilingMbps = [20, 100, 500, 800, 2000]"

definition staleTuningFingerprints :: "(real \<Rightarrow> real) \<Rightarrow> (nat \<times> int) list" where
  "staleTuningFingerprints rnd =
     map (\<lambda>i. (i, bdpBytes rnd (badCeilingMbps ! i) (80 * millisecond))) [0..<length tiers]"

definition stale_match :: "(nat \<times> int) list \<Rightarrow> Config \<Rightarrow> (nat \<times> int) option" where
  "stale_match fps cfg =
     find (\<lambda>fp. RecvBuf cfg = snd fp \<and> SendBuf cfg = snd fp \<and> MuxStreamBuffer cfg = snd fp) fps"

definition honest_tuning :: "nat \<times> int \<Rightarrow> Config \<Rightarrow> Config" where
  "honest_tuning fp cfg =
     (let honest = tiers ! fst fp;
          cfg = cfg\<lparr>RecvBuf := t_recvBuf honest, SendBuf := t_sendBuf honest, MuxStreamBuffer := t_muxStreamBuffer honest\<rparr>
      in if MuxRecvBuffer cfg = wrap64 (snd fp * 4) then cfg\<lparr>MuxRecvBuffer := t_muxRecvBuffer honest\<rparr> else cfg)"

fun stale_loop ::
    "host \<Rightarrow> (string \<Rightarrow> Config \<Rightarrow> goerror + (Config \<times> string list)) \<Rightarrow> (Config \<Rightarrow> goerror + string) \<Rightarrow> (nat \<times> int) list \<Rightarrow>
     tunnelRef list \<Rightarrow> box \<Rightarrow> box \<times> string list" where
  "stale_loop h dec enc fps [] b = (b, [])"
| "stale_loop h dec enc fps (t # ts) b =
     (if isPaqet t then stale_loop h dec enc fps ts b
      else case loadFile dec b (tr_Path t) (tr_Role t) of
        Inl e \<Rightarrow> stale_loop h dec enc fps ts b
      | Inr cfg \<Rightarrow>
          (case stale_match fps cfg of
             None \<Rightarrow> stale_loop h dec enc fps ts b
           | Some fp \<Rightarrow>
               (case saveConfig h enc (honest_tuning fp cfg) (tr_Path t) b of
                  (b1, Some e) \<Rightarrow> stale_loop h dec enc fps ts b1
                | (b1, None) \<Rightarrow>
                    (let (b2, fixed) = stale_loop h dec enc fps ts b1 in (b2, (tr_Role t @ ''/'' @ tr_Name t) # fixed)))))"

definition migrateStaleTuning ::
    "host \<Rightarrow> (string \<Rightarrow> Config \<Rightarrow> goerror + (Config \<times> string list)) \<Rightarrow> (Config \<Rightarrow> goerror + string) \<Rightarrow> (real \<Rightarrow> real) \<Rightarrow>
     box \<Rightarrow> box \<times> string list" where
  "migrateStaleTuning h dec enc rnd b =
     stale_loop h dec enc (staleTuningFingerprints rnd) (listTunnels (readDir b)) b"

section \<open>The menu\<close>

definition menuUpdate ::
    "host \<Rightarrow> string \<Rightarrow> goerror + release \<Rightarrow> (string \<Rightarrow> goerror + (string \<times> goerror option)) \<Rightarrow>
     (string \<Rightarrow> Config \<Rightarrow> goerror + (Config \<times> string list)) \<Rightarrow> (Config \<Rightarrow> goerror + string) \<Rightarrow> (real \<Rightarrow> real) \<Rightarrow> box \<Rightarrow> box ask" where
  "menuUpdate h goarch latest get dec enc rnd b =
     (case latest of
        Inl e \<Rightarrow> then_ask pressEnter (\<lambda>u. answer b)
      | Inr rel \<Rightarrow>
          let url = asset_url (''rmtunnel-linux-'' @ archAssetSuffix goarch) (rel_Assets rel) [] in
          if \<not> isNewerVersion (rel_Tag rel) \<or> url = [] then then_ask pressEnter (\<lambda>u. answer b)
          else then_ask (confirm True) (\<lambda>yes.
            if \<not> yes then answer b
            else case downloadAndReplaceSelf h get url b of
              (b1, Some e) \<Rightarrow> then_ask pressEnter (\<lambda>u. answer b1)
            | (b1, None) \<Rightarrow>
                (let b2 = fst (migrateLegacyTunnels h dec b1);
                     b3 = fst (migrateStaleTuning h dec enc rnd b2)
                 in then_ask pressEnter (\<lambda>u. answer (restartAllTunnelsCLI b3)))))"

section \<open>Nothing is lost by the first migration\<close>

lemma legacy_name_free: "\<not> stat b (tunnelConfigPath role (legacy_name b role i))"
proof (induction b role i rule: legacy_name.induct)
  case (1 b role i)
  then show ?case by (cases "stat b (tunnelConfigPath role (legacy_cand i))") (simp_all add: legacy_name.simps [of b role i])
qed

lemma free_name_free: "readFile b (tunnelConfigPath role (free_name b role)) = None"
  using legacy_name_free by (simp add: free_name_def stat_readFile)

lemma legacy_paths:
  assumes "role \<in> {''server'', ''client''}" "role' \<in> {''server'', ''client''}" "hasPrefix p (tunnelsRoot @ ''/'')"
  shows "l_unitFile (legacyTunnel_of role) \<noteq> unitPath (systemdUnitInstance role' name)"
    "l_unitFile (legacyTunnel_of role) \<noteq> rmtunnelBin" "l_configPath (legacyTunnel_of role) \<noteq> rmtunnelBin"
    "l_configPath (legacyTunnel_of role) \<noteq> unitPath (systemdUnitInstance role' name)"
    "l_unitFile (legacyTunnel_of role) \<noteq> l_configPath (legacyTunnel_of role')"
    "p \<noteq> l_unitFile (legacyTunnel_of role)" "p \<noteq> l_configPath (legacyTunnel_of role)"
    "p \<noteq> unitPath (systemdUnitInstance role' name)" "p \<noteq> rmtunnelBin"
  using assms by (auto simp: legacyTunnel_of_def unitPath_def systemdUnitInstance_def rmtunnelBin_def tunnelsRoot_def hasPrefix_iff)

lemma tunnel_path_prefix: "hasPrefix (tunnelConfigPath role name) (tunnelsRoot @ ''/'')"
  using hasPrefix_append [of "tunnelsRoot @ ''/''" "role @ ''/'' @ name @ tunnelConfigExt role"]
  by (simp add: tunnelConfigPath_def tunnelDir_def)

text \<open>What one legacy tunnel does to the box, when no write fails.\<close>

text \<open>The box once the old configuration was copied and the old unit taken away.\<close>

definition legacy_moved :: "string \<Rightarrow> string \<Rightarrow> string \<Rightarrow> box \<Rightarrow> box" where
  "legacy_moved role name data b =
     removeFile (l_unitFile (legacyTunnel_of role)) (runCmd [''systemctl'', ''disable'', ''--now'', l_unit (legacyTunnel_of role)]
       (b\<lparr>files := AList.update (tunnelConfigPath role name) data (files b)\<rparr>))"

lemma readFile_legacy_moved:
  "readFile (legacy_moved role name data b) q =
     (if q = l_unitFile (legacyTunnel_of role) then None
      else if q = tunnelConfigPath role name then Some data else readFile b q)"
  by (simp add: legacy_moved_def readFile_remove readFile_run) (simp add: readFile_def AList.update_conv')

text \<open>How the migration of a role can go: nothing to do, nothing to copy, or copied and perhaps installed.\<close>

lemma migrate_one_cases:
  assumes "\<And>p. h_io h p = None" "\<And>p. h_mkdir h p = None" "migrate_one h dec (legacyTunnel_of role) b = (b', ms)"
  obtains (absent) "\<not> stat b (l_unitFile (legacyTunnel_of role))" "b' = b" "ms = []"
    | (empty) "stat b (l_unitFile (legacyTunnel_of role))" "readFile b (l_configPath (legacyTunnel_of role)) = None"
        "b' = removeFile (l_unitFile (legacyTunnel_of role))
           (runCmd [''systemctl'', ''disable'', ''--now'', l_unit (legacyTunnel_of role)] b)"
    | (copied) data where "stat b (l_unitFile (legacyTunnel_of role))"
        "readFile b (l_configPath (legacyTunnel_of role)) = Some data" "ms = [role @ ''/'' @ free_name b role]"
        "b' = legacy_moved role (free_name b role) data b"
    | (installed) data where "stat b (l_unitFile (legacyTunnel_of role))"
        "readFile b (l_configPath (legacyTunnel_of role)) = Some data" "ms = [role @ ''/'' @ free_name b role]"
        "b' = removeFile (l_configPath (legacyTunnel_of role)) (installTunnelService h role (free_name b role)
           (tunnelConfigPath role (free_name b role)) (legacy_moved role (free_name b role) data b))"
proof (cases "stat b (l_unitFile (legacyTunnel_of role))")
  case False
  then have "b' = b" "ms = []" using assms(3) by (simp_all add: migrate_one_def)
  with absent False show ?thesis by blast
next
  case True
  let ?lt = "legacyTunnel_of role" and ?nm = "free_name b role"
  have r: "l_role ?lt = role" by (simp add: legacyTunnel_of_def)
  have w: "writeFile h p data b = (b\<lparr>files := AList.update p data (files b)\<rparr>, None)" for p data
    by (simp add: writeFile_def assms(1))
  show ?thesis
  proof (cases "readFile b (l_configPath ?lt)")
    case None
    then have "b' = removeFile (l_unitFile ?lt) (runCmd [''systemctl'', ''disable'', ''--now'', l_unit ?lt] b)"
      using True assms(3) by (simp add: migrate_one_def)
    with empty True None show ?thesis by blast
  next
    case (Some data)
    then have "migrate_one h dec ?lt b =
        (case loadFile dec (legacy_moved role ?nm data b) (tunnelConfigPath role ?nm) role of
           Inl e \<Rightarrow> (legacy_moved role ?nm data b, [role @ ''/'' @ ?nm])
         | Inr cfg \<Rightarrow> (removeFile (l_configPath ?lt)
             (installTunnelService h role ?nm (tunnelConfigPath role ?nm) (legacy_moved role ?nm data b)), [role @ ''/'' @ ?nm]))"
      using True unfolding migrate_one_def r Let_def legacy_moved_def by (simp add: assms(2) w)
    then have "ms = [role @ ''/'' @ ?nm] \<and> (b' = legacy_moved role ?nm data b \<or> b' = removeFile (l_configPath ?lt)
        (installTunnelService h role ?nm (tunnelConfigPath role ?nm) (legacy_moved role ?nm data b)))"
      using assms(3) by (cases "loadFile dec (legacy_moved role ?nm data b) (tunnelConfigPath role ?nm) role") simp_all
    with copied [OF True Some] installed [OF True Some] show ?thesis by blast
  qed
qed

lemma migrate_one_spec:
  assumes "\<And>p. h_io h p = None" "\<And>p. h_mkdir h p = None" "role \<in> {''server'', ''client''}"
    and "migrate_one h dec (legacyTunnel_of role) b = (b', ms)"
  shows "\<not> stat b' (l_unitFile (legacyTunnel_of role))"
    "stat b (l_unitFile (legacyTunnel_of role)) \<Longrightarrow> readFile b (l_configPath (legacyTunnel_of role)) = Some data \<Longrightarrow>
       readFile b' (tunnelConfigPath role (free_name b role)) = Some data \<and> ms = [role @ ''/'' @ free_name b role]"
    "p \<noteq> tunnelConfigPath role (free_name b role) \<Longrightarrow>
       p \<notin> {l_unitFile (legacyTunnel_of role), l_configPath (legacyTunnel_of role), rmtunnelBin} \<Longrightarrow>
       \<forall>name. p \<noteq> unitPath (systemdUnitInstance role name) \<Longrightarrow> readFile b' p = readFile b p"
    "\<not> stat b (l_unitFile (legacyTunnel_of role)) \<Longrightarrow> ms = []"
proof -
  let ?lt = "legacyTunnel_of role" and ?nm = "free_name b role"
  let ?u = "l_unitFile ?lt" and ?c = "l_configPath ?lt" and ?np = "tunnelConfigPath role (free_name b role)"
  note d = legacy_paths [OF assms(3) assms(3) tunnel_path_prefix [of role ?nm]]
  from assms(1,2,4) have main: "\<not> stat b' ?u \<and>
    (stat b ?u \<longrightarrow> readFile b ?c = Some data \<longrightarrow> readFile b' ?np = Some data \<and> ms = [role @ ''/'' @ ?nm]) \<and>
    (p \<noteq> ?np \<longrightarrow> p \<notin> {?u, ?c, rmtunnelBin} \<longrightarrow> (\<forall>name. p \<noteq> unitPath (systemdUnitInstance role name)) \<longrightarrow>
       readFile b' p = readFile b p) \<and> (\<not> stat b ?u \<longrightarrow> ms = [])"
  proof (cases rule: migrate_one_cases)
    case (installed dat)
    have i: "readFile b' q = (if q = ?c then None else readFile (legacy_moved role ?nm dat b) q)"
      if "q \<noteq> unitPath (systemdUnitInstance role ?nm)" "q \<noteq> rmtunnelBin" for q
      using readFile_install [OF that] by (simp add: installed(4) readFile_remove)
    have "readFile b' ?u = None" using i [OF d(1,2)] by (simp add: readFile_legacy_moved)
    moreover have "readFile b' ?np = Some dat" using i [OF d(8,9)] d(6,7) by (simp add: readFile_legacy_moved)
    moreover have "readFile b' p = readFile b p"
      if "p \<noteq> ?np" "p \<notin> {?u, ?c, rmtunnelBin}" "\<forall>name. p \<noteq> unitPath (systemdUnitInstance role name)"
      using i [of p] that by (simp add: readFile_legacy_moved)
    ultimately show ?thesis using installed(1-3) by (simp add: stat_readFile)
  qed (use d(6) in \<open>simp_all add: stat_readFile box_simps readFile_legacy_moved\<close>)
  from main show "\<not> stat b' ?u" by blast
  from main show "stat b ?u \<Longrightarrow> readFile b ?c = Some data \<Longrightarrow>
      readFile b' ?np = Some data \<and> ms = [role @ ''/'' @ ?nm]" by blast
  from main show "p \<noteq> ?np \<Longrightarrow> p \<notin> {?u, ?c, rmtunnelBin} \<Longrightarrow>
      \<forall>name. p \<noteq> unitPath (systemdUnitInstance role name) \<Longrightarrow> readFile b' p = readFile b p" by blast
  from main show "\<not> stat b ?u \<Longrightarrow> ms = []" by blast
qed

lemma legacy_apart:
  assumes "role \<in> {''server'', ''client''}" "role' \<in> {''server'', ''client''}" "role \<noteq> role'"
    "p \<in> {l_unitFile (legacyTunnel_of role), l_configPath (legacyTunnel_of role)}"
  shows "p \<notin> {l_unitFile (legacyTunnel_of role'), l_configPath (legacyTunnel_of role'), rmtunnelBin}"
    "p \<noteq> unitPath (systemdUnitInstance role' name)" "p \<noteq> tunnelConfigPath r n"
  using assms by (auto simp: legacyTunnel_of_def unitPath_def systemdUnitInstance_def rmtunnelBin_def tunnelConfigPath_def
      tunnelDir_def tunnelsRoot_def)

lemma migrate_one_tunnels:
  assumes "\<And>p. h_io h p = None" "\<And>p. h_mkdir h p = None" "role \<in> {''server'', ''client''}"
    and "migrate_one h dec (legacyTunnel_of role) b = (b', ms)"
    and "hasPrefix p (tunnelsRoot @ ''/'')" "readFile b p = Some txt"
  shows "readFile b' p = Some txt"
proof -
  have "p \<noteq> tunnelConfigPath role (free_name b role)" using free_name_free assms(6) by fastforce
  with migrate_one_spec(3) [OF assms(1-4), of p] legacy_paths [OF assms(3,3,5)] assms(6) show ?thesis by simp
qed

lemma migrate_one_other:
  assumes "\<And>p. h_io h p = None" "\<And>p. h_mkdir h p = None" "role \<in> {''server'', ''client''}"
    and "migrate_one h dec (legacyTunnel_of role) b = (b', ms)"
    and "role' \<in> {''server'', ''client''}" "role' \<noteq> role"
    and "p \<in> {l_unitFile (legacyTunnel_of role'), l_configPath (legacyTunnel_of role')}"
  shows "readFile b' p = readFile b p"
  using migrate_one_spec(3) [OF assms(1-4), of p] legacy_apart [OF assms(5,3,6,7)] by simp

text \<open>
  Property C29. Moving the tunnels from before they had names loses nothing: no configuration in the tunnel directory is
  changed or overwritten, the text of each old configuration that had a unit is afterwards a tunnel of its role
  under a name that was free, the old units are gone, and a second run does nothing. (No write fails.)
\<close>
theorem legacy_migration_loses_nothing:
  assumes "\<And>p. h_io h p = None" "\<And>p. h_mkdir h p = None" "migrateLegacyTunnels h dec b = (b', migrated)"
  shows "(\<forall>p c. hasPrefix p (tunnelsRoot @ ''/'') \<longrightarrow> readFile b p = Some c \<longrightarrow> readFile b' p = Some c) \<and>
    (\<forall>role \<in> {''server'', ''client''}. \<forall>c.
       stat b (l_unitFile (legacyTunnel_of role)) \<longrightarrow> readFile b (l_configPath (legacyTunnel_of role)) = Some c \<longrightarrow>
       (\<exists>name. readFile b (tunnelConfigPath role name) = None \<and> readFile b' (tunnelConfigPath role name) = Some c \<and>
          role @ ''/'' @ name \<in> set migrated)) \<and>
    (\<forall>role \<in> {''server'', ''client''}. \<not> stat b' (l_unitFile (legacyTunnel_of role))) \<and>
    migrateLegacyTunnels h dec b' = (b', [])"
proof -
  obtain b1 m1 m2 where 1: "migrate_one h dec (legacyTunnel_of ''server'') b = (b1, m1)"
    and 2: "migrate_one h dec (legacyTunnel_of ''client'') b1 = (b', m2)" and m: "migrated = m1 @ m2"
    using assms(3) by (auto simp: migrateLegacyTunnels_def legacyTunnels_def split: prod.splits)
  have s: "''server'' \<in> {''server'', ''client''}" "''client'' \<in> {''server'', ''client''}"
    "''client'' \<noteq> ''server''" "''server'' \<noteq> ''client''" by simp_all
  note one = migrate_one_spec [OF assms(1,2) s(1) 1] and two = migrate_one_spec [OF assms(1,2) s(2) 2]
  note tun1 = migrate_one_tunnels [OF assms(1,2) s(1) 1] and tun2 = migrate_one_tunnels [OF assms(1,2) s(2) 2]
  note oth1 = migrate_one_other [OF assms(1,2) s(1) 1 s(2,3)] and oth2 = migrate_one_other [OF assms(1,2) s(2) 2 s(1,4)]
  have kept: "readFile b' p = Some c" if "hasPrefix p (tunnelsRoot @ ''/'')" "readFile b p = Some c" for p c
    using tun2 [OF that(1) tun1 [OF that]] .
  have srv: "\<exists>name. readFile b (tunnelConfigPath ''server'' name) = None \<and> readFile b' (tunnelConfigPath ''server'' name) = Some c \<and>
      ''server'' @ ''/'' @ name \<in> set migrated"
    if "stat b (l_unitFile (legacyTunnel_of ''server''))" "readFile b (l_configPath (legacyTunnel_of ''server'')) = Some c" for c
    using one(2) [OF that] tun2 [OF tunnel_path_prefix] free_name_free m by fastforce
  have cli: "\<exists>name. readFile b (tunnelConfigPath ''client'' name) = None \<and> readFile b' (tunnelConfigPath ''client'' name) = Some c \<and>
      ''client'' @ ''/'' @ name \<in> set migrated"
    if "stat b (l_unitFile (legacyTunnel_of ''client''))" "readFile b (l_configPath (legacyTunnel_of ''client'')) = Some c" for c
  proof -
    let ?n = "free_name b1 ''client''"
    have "stat b1 (l_unitFile (legacyTunnel_of ''client''))" "readFile b1 (l_configPath (legacyTunnel_of ''client'')) = Some c"
      using that oth1 by (simp_all add: stat_readFile)
    note t = two(2) [OF this]
    have "readFile b (tunnelConfigPath ''client'' ?n) = None"
    proof (rule ccontr)
      assume "readFile b (tunnelConfigPath ''client'' ?n) \<noteq> None"
      then obtain x where "readFile b (tunnelConfigPath ''client'' ?n) = Some x" by blast
      from tun1 [OF tunnel_path_prefix this] free_name_free show False by simp
    qed
    with t m show ?thesis by auto
  qed
  have gone: "\<not> stat b' (l_unitFile (legacyTunnel_of ''server''))" "\<not> stat b' (l_unitFile (legacyTunnel_of ''client''))"
    using one(1) two(1) oth2 by (simp_all add: stat_readFile)
  then have "migrateLegacyTunnels h dec b' = (b', [])"
    by (simp add: migrateLegacyTunnels_def legacyTunnels_def migrate_one_def)
  with kept srv cli gone show ?thesis by blast
qed

section \<open>The second migration settles\<close>

text \<open>The text a tunnel's file is given, if it is.\<close>

definition retuned ::
    "(string \<Rightarrow> Config \<Rightarrow> goerror + (Config \<times> string list)) \<Rightarrow> (Config \<Rightarrow> goerror + string) \<Rightarrow> (nat \<times> int) list \<Rightarrow>
     box \<Rightarrow> tunnelRef \<Rightarrow> string option" where
  "retuned dec enc fps b t =
     (if isPaqet t then None
      else case loadFile dec b (tr_Path t) (tr_Role t) of
        Inl e \<Rightarrow> None
      | Inr cfg \<Rightarrow>
          (case stale_match fps cfg of
             None \<Rightarrow> None
           | Some fp \<Rightarrow> (case enc (honest_tuning fp cfg) of Inl e \<Rightarrow> None | Inr out \<Rightarrow> Some out)))"

lemma retuned_cong: "readFile b (tr_Path t) = readFile b' (tr_Path t) \<Longrightarrow> retuned dec enc fps b t = retuned dec enc fps b' t"
  by (simp add: retuned_def loadFile_def)

lemma stale_loop_step:
  assumes "\<And>p. h_io h p = None"
  shows "stale_loop h dec enc fps (t # ts) b =
     (case retuned dec enc fps b t of
        None \<Rightarrow> stale_loop h dec enc fps ts b
      | Some out \<Rightarrow>
          (let (b2, fixed) = stale_loop h dec enc fps ts (b\<lparr>files := AList.update (tr_Path t) out (files b)\<rparr>)
           in (b2, (tr_Role t @ ''/'' @ tr_Name t) # fixed)))"
  by (simp add: retuned_def saveConfig_def writeFile_def assms split: sum.splits option.splits)

declare stale_loop.simps(2) [simp del]

lemma stale_loop_files:
  assumes "\<And>p. h_io h p = None" "inj_on tr_Path (set ts)" "distinct ts" "stale_loop h dec enc fps ts b = (b', fixed)"
  shows "(\<forall>p. p \<notin> tr_Path ` set ts \<longrightarrow> readFile b' p = readFile b p) \<and>
    (\<forall>t\<in>set ts. readFile b' (tr_Path t) =
       (case retuned dec enc fps b t of Some out \<Rightarrow> Some out | None \<Rightarrow> readFile b (tr_Path t))) \<and>
    ((\<forall>t\<in>set ts. retuned dec enc fps b t = None) \<longrightarrow> b' = b \<and> fixed = [])"
  using assms(2-4)
proof (induction ts arbitrary: b fixed)
  case (Cons t ts)
  have t: "tr_Path t \<notin> tr_Path ` set ts" using Cons.prems(1,2) by (auto simp: inj_on_def)
  have ts: "inj_on tr_Path (set ts)" "distinct ts" using Cons.prems(1,2) by (auto simp: inj_on_def)
  show ?case
  proof (cases "retuned dec enc fps b t")
    case None
    then have "stale_loop h dec enc fps ts b = (b', fixed)" using Cons.prems(3) by (simp add: stale_loop_step [OF assms(1)])
    from Cons.IH [OF ts this] t None show ?thesis by auto
  next
    case (Some out)
    let ?c = "b\<lparr>files := AList.update (tr_Path t) out (files b)\<rparr>"
    have c: "readFile ?c p = (if p = tr_Path t then Some out else readFile b p)" for p
      by (simp add: readFile_def AList.update_conv')
    obtain fixed' where "stale_loop h dec enc fps ts ?c = (b', fixed')"
      using Cons.prems(3) Some by (auto simp: stale_loop_step [OF assms(1)] split: prod.splits)
    note ih = Cons.IH [OF ts this]
    have "retuned dec enc fps ?c u = retuned dec enc fps b u \<and> readFile ?c (tr_Path u) = readFile b (tr_Path u)"
      if "u \<in> set ts" for u
    proof -
      have "readFile ?c (tr_Path u) = readFile b (tr_Path u)" using that t c [of "tr_Path u"] by (metis image_eqI)
      then show ?thesis using retuned_cong by blast
    qed
    note cu = this
    have A: "readFile b' p = readFile ?c p" if "p \<notin> tr_Path ` set ts" for p using ih that by blast
    have B: "readFile b' (tr_Path u) = (case retuned dec enc fps b u of Some out \<Rightarrow> Some out | None \<Rightarrow> readFile b (tr_Path u))"
      if "u \<in> set ts" for u
    proof -
      have "readFile b' (tr_Path u) = (case retuned dec enc fps ?c u of Some out \<Rightarrow> Some out | None \<Rightarrow> readFile ?c (tr_Path u))"
        using ih that by blast
      with cu [OF that] show ?thesis by (cases "retuned dec enc fps b u") simp_all
    qed
    have "readFile b' (tr_Path t) = Some out" using A [OF t] c by simp
    then have "readFile b' (tr_Path u) = (case retuned dec enc fps b u of Some out \<Rightarrow> Some out | None \<Rightarrow> readFile b (tr_Path u))"
      if "u \<in> set (t # ts)" for u using that B Some by (cases "u = t") auto
    moreover have "readFile b' p = readFile b p" if "p \<notin> tr_Path ` set (t # ts)" for p using that A c by simp
    moreover have "\<not> (\<forall>u\<in>set (t # ts). retuned dec enc fps b u = None)" using Some by simp
    ultimately show ?thesis by blast
  qed
qed auto

definition exact_fingerprints :: "(real \<Rightarrow> real) \<Rightarrow> bool" where
  "exact_fingerprints rnd \<longleftrightarrow> map snd (staleTuningFingerprints rnd) = [200000, 1000000, 5000000, 8000000, 20000000]"

lemma honest_no_match:
  assumes "exact_fingerprints rnd" "fp \<in> set (staleTuningFingerprints rnd)"
  shows "stale_match (staleTuningFingerprints rnd) (honest_tuning fp c) = None"
proof -
  have "fst fp < 5" using assms(2) by (auto simp: staleTuningFingerprints_def tiers_def)
  moreover have "length tiers = 5" by (simp add: tiers_def)
  ultimately have "tiers ! fst fp \<in> set tiers" by (metis nth_mem)
  then have "t_recvBuf (tiers ! fst fp) \<in> {65536, 262144, 1048576, 2097152, 6291456}" by (auto simp: tiers_def)
  then have r: "RecvBuf (honest_tuning fp c) \<in> {65536, 262144, 1048576, 2097152, 6291456}"
    by (simp add: honest_tuning_def Let_def)
  have "snd q \<in> {200000, 1000000, 5000000, 8000000, 20000000}" if "q \<in> set (staleTuningFingerprints rnd)" for q
  proof -
    have "snd q \<in> set (map snd (staleTuningFingerprints rnd))" using that by simp
    then have "snd q \<in> set [200000, 1000000, 5000000, 8000000, 20000000]"
      using assms(1) unfolding exact_fingerprints_def by (simp only:)
    then show ?thesis by simp
  qed
  note f = this
  have "RecvBuf (honest_tuning fp c) \<noteq> snd q" if "q \<in> set (staleTuningFingerprints rnd)" for q
    using f [OF that] r by auto
  then show ?thesis unfolding stale_match_def find_None_iff by blast
qed

lemma honest_valid: "valid_config (honest_tuning fp c) = valid_config c"
  by (simp add: honest_tuning_def valid_config_def dialsOut_def Let_def)

text \<open>The codec, as far as the migration relies on it: a loaded configuration with other buffer sizes is read back as it was saved.\<close>

definition rereads :: "(string \<Rightarrow> Config \<Rightarrow> goerror + (Config \<times> string list)) \<Rightarrow> (Config \<Rightarrow> goerror + string) \<Rightarrow> bool" where
  "rereads dec enc \<longleftrightarrow>
     (\<forall>text path role c. LoadConfig (\<lambda>p. dec text) path role = Inr c \<longrightarrow>
       (\<forall>rb sb ms mr. let c' = c\<lparr>RecvBuf := rb, SendBuf := sb, MuxRecvBuffer := mr, MuxStreamBuffer := ms\<rparr> in
          \<exists>out. enc c' = Inr out \<and> dec out (defaultConfig\<lparr>Role := role\<rparr>) = Inr (c', [])))"

lemma retuned_once:
  assumes "rereads dec enc" "exact_fingerprints rnd" "fps = staleTuningFingerprints rnd"
    and "retuned dec enc fps b t = Some out" "readFile b' (tr_Path t) = Some out"
  shows "\<exists>c fp. loadFile dec b (tr_Path t) (tr_Role t) = Inr c \<and> stale_match fps c = Some fp \<and>
    loadFile dec b' (tr_Path t) (tr_Role t) = Inr (honest_tuning fp c) \<and> retuned dec enc fps b' t = None"
proof -
  obtain c fp where c: "loadFile dec b (tr_Path t) (tr_Role t) = Inr c" "stale_match fps c = Some fp"
      "enc (honest_tuning fp c) = Inr out"
    using assms(4) by (auto simp: retuned_def split: if_splits sum.splits option.splits)
  then obtain tx where l: "LoadConfig (\<lambda>p. dec tx) (tr_Path t) (tr_Role t) = Inr c"
    by (auto simp: loadFile_def split: option.splits)
  then obtain c0 where "validate c0 = (c, None)" by (auto simp: LoadConfig_def split: sum.splits prod.splits option.splits if_splits)
  then have v: "valid_config c" "map default_path (Disguise c) = Disguise c" by (auto simp: validate_None_iff)
  have "\<exists>rb sb ms mr. honest_tuning fp c = c\<lparr>RecvBuf := rb, SendBuf := sb, MuxRecvBuffer := mr, MuxStreamBuffer := ms\<rparr>"
    by (cases c) (auto simp: honest_tuning_def Let_def)
  with assms(1) l c(3) have d: "dec out (defaultConfig\<lparr>Role := tr_Role t\<rparr>) = Inr (honest_tuning fp c, [])"
    unfolding rereads_def Let_def by (metis sum.inject(2))
  have "Disguise (honest_tuning fp c) = Disguise c" by (simp add: honest_tuning_def Let_def)
  then have "validate (honest_tuning fp c) = (honest_tuning fp c, None)"
    using v by (simp add: validate_None_iff honest_valid)
  then have h: "loadFile dec b' (tr_Path t) (tr_Role t) = Inr (honest_tuning fp c)"
    by (simp add: loadFile_def assms(5) LoadConfig_def d)
  have "fp \<in> set fps" using c(2) by (auto simp: stale_match_def find_Some_iff)
  then have "retuned dec enc fps b' t = None"
    using honest_no_match [OF assms(2)] by (simp add: retuned_def h assms(3))
  with c h show ?thesis by blast
qed

text \<open>What the loop over all tunnels leaves in every file.\<close>

lemma migrateStaleTuning_files:
  assumes "\<And>p. h_io h p = None" "migrateStaleTuning h dec enc rnd b = (b', fixed)"
  shows "t \<in> set (listTunnels (readDir b)) \<Longrightarrow> readFile b' (tr_Path t) =
      (case retuned dec enc (staleTuningFingerprints rnd) b t of Some out \<Rightarrow> Some out | None \<Rightarrow> readFile b (tr_Path t))"
    "p \<notin> tr_Path ` set (listTunnels (readDir b)) \<Longrightarrow> readFile b' p = readFile b p"
    "(\<And>t. t \<in> set (listTunnels (readDir b)) \<Longrightarrow> retuned dec enc (staleTuningFingerprints rnd) b t = None) \<Longrightarrow> b' = b \<and> fixed = []"
proof -
  have inj: "inj_on tr_Path (set (listTunnels (readDir b)))"
    using tunnel_files_apart by (auto simp: inj_on_def)
  have dist: "distinct (listTunnels (readDir b))"
    by (rule listTunnels_distinct) (auto simp: readDir_def split: list.splits)
  have "stale_loop h dec enc (staleTuningFingerprints rnd) (listTunnels (readDir b)) b = (b', fixed)"
    using assms(2) by (simp add: migrateStaleTuning_def)
  note r = stale_loop_files [OF assms(1) inj dist this]
  show "t \<in> set (listTunnels (readDir b)) \<Longrightarrow> readFile b' (tr_Path t) =
      (case retuned dec enc (staleTuningFingerprints rnd) b t of Some out \<Rightarrow> Some out | None \<Rightarrow> readFile b (tr_Path t))"
    "p \<notin> tr_Path ` set (listTunnels (readDir b)) \<Longrightarrow> readFile b' p = readFile b p"
    "(\<And>t. t \<in> set (listTunnels (readDir b)) \<Longrightarrow> retuned dec enc (staleTuningFingerprints rnd) b t = None) \<Longrightarrow> b' = b \<and> fixed = []"
    using r by blast+
qed

text \<open>Nothing is stale a second time.\<close>

lemma migrateStaleTuning_again:
  assumes "\<And>p. h_io h p = None" "rereads dec enc" "exact_fingerprints rnd"
    and "migrateStaleTuning h dec enc rnd b = (b', fixed)" "t \<in> set (listTunnels (readDir b'))"
  shows "retuned dec enc (staleTuningFingerprints rnd) b' t = None"
proof -
  note r = migrateStaleTuning_files [OF assms(1,4)]
  have "t \<in> set (listTunnels (readDir b))"
  proof (rule ccontr)
    assume n: "t \<notin> set (listTunnels (readDir b))"
    then have "readFile b (tr_Path t) = None" using assms(5) unfolding listed_iff stat_readFile by blast
    moreover have "tr_Path t \<notin> tr_Path ` set (listTunnels (readDir b))"
      using calculation by (auto simp: listed_iff stat_readFile)
    ultimately show False using r(2) assms(5) by (simp add: listed_iff stat_readFile)
  qed
  note q = r(1) [OF this]
  show ?thesis
  proof (cases "retuned dec enc (staleTuningFingerprints rnd) b t")
    case None
    then have "readFile b' (tr_Path t) = readFile b (tr_Path t)" using q by simp
    from retuned_cong [OF this] None show ?thesis by simp
  next
    case (Some out)
    then have "readFile b' (tr_Path t) = Some out" using q by simp
    from retuned_once [OF assms(2,3) refl Some this] show ?thesis by blast
  qed
qed


section \<open>Witnesses\<close>

definition mild :: host where
  "mild = \<lparr>h_io = (\<lambda>p. None), h_mkdir = (\<lambda>p. None), h_look = (\<lambda>p. Some p), h_self = None, h_active = (\<lambda>u. False), h_cwd = ''/root''\<rparr>"

theorem legacy_migration_loses_nothing_witness:
  "let b = \<lparr>files = [(''/etc/systemd/system/rmtunnel-client.service'', ''u''), (''/etc/rmtunnel/client.toml'', ''old''),
       (tunnelConfigPath ''client'' ''main'', ''new'')], ran = []\<rparr>;
     b' = fst (migrateLegacyTunnels mild (\<lambda>tx c. Inl EOF) b) in
   readFile b' (tunnelConfigPath ''client'' ''main'') = Some ''new'' \<and>
   (\<exists>name. readFile b' (tunnelConfigPath ''client'' name) = Some ''old'')"
proof -
  let ?b = "\<lparr>files = [(''/etc/systemd/system/rmtunnel-client.service'', ''u''), (''/etc/rmtunnel/client.toml'', ''old''),
       (tunnelConfigPath ''client'' ''main'', ''new'')], ran = []\<rparr>"
  obtain b' m where b': "migrateLegacyTunnels mild (\<lambda>tx c. Inl EOF) ?b = (b', m)" by fastforce
  have "h_io mild p = None" "h_mkdir mild p = None" for p by (simp_all add: mild_def)
  note t = legacy_migration_loses_nothing [OF this b']
  have "readFile ?b (tunnelConfigPath ''client'' ''main'') = Some ''new''"
    "stat ?b (l_unitFile (legacyTunnel_of ''client''))" "readFile ?b (l_configPath (legacyTunnel_of ''client'')) = Some ''old''"
    by (simp_all add: readFile_def stat_def legacyTunnel_of_def tunnelConfigPath_def tunnelDir_def tunnelsRoot_def)
  with t tunnel_path_prefix b' show ?thesis by (auto simp: Let_def)
qed

definition toy_dec :: "string \<Rightarrow> Config \<Rightarrow> goerror + (Config \<times> string list)" where
  "toy_dec tx c = (let (rb, sb, mr, ms) = from_nat (length tx) in
     Inr ((sample_config (Role c))\<lparr>Disguise := map default_path (Disguise (sample_config (Role c))),
            RecvBuf := rb, SendBuf := sb, MuxRecvBuffer := mr, MuxStreamBuffer := ms\<rparr>, []))"

definition toy_save :: "Config \<Rightarrow> goerror + string" where
  "toy_save c = Inr (replicate (to_nat (RecvBuf c, SendBuf c, MuxRecvBuffer c, MuxStreamBuffer c)) CHR ''x'')"

lemma toy_rereads: "rereads toy_dec toy_save"
proof -
  have "toy_dec (replicate (to_nat (RecvBuf c', SendBuf c', MuxRecvBuffer c', MuxStreamBuffer c')) CHR ''x'') (defaultConfig\<lparr>Role := role\<rparr>) =
      Inr (c', [])"
    if l: "LoadConfig (\<lambda>p. toy_dec tx) path role = Inr c"
      and c': "c' = c\<lparr>RecvBuf := rb, SendBuf := sb, MuxRecvBuffer := mr, MuxStreamBuffer := ms\<rparr>"
    for tx path role c c' rb sb mr ms
  proof -
    obtain a1 a2 a3 a4 where "from_nat (length tx) = (a1 :: int, a2 :: int, a3 :: int, a4 :: int)" using prod_cases4 by blast
    then have "c = (sample_config role)\<lparr>Disguise := map default_path (Disguise (sample_config role)),
        RecvBuf := a1, SendBuf := a2, MuxRecvBuffer := a3, MuxStreamBuffer := a4\<rparr>"
      using l by (auto simp: LoadConfig_def toy_dec_def validate_None_iff comp_def split: prod.splits option.splits)
    with c' show ?thesis by (simp add: toy_dec_def)
  qed
  then show ?thesis by (simp add: rereads_def toy_save_def Let_def)
qed


end
