(* ===== verification/Link_Test.thy ===== *)
theory Link_Test
  imports Update
begin

text \<open>
  The link test of \<open>linktest.go\<close>: the statistics of a series of probes, the liveness timers it suggests and the
  transport it recommends, with what each saves to the configuration on the box, and the screen around them. Floating
  point is as in theory \<open>Tiers\<close>; \<open>math.Sqrt\<close> rounds the exact square root. The outcome of the dials is an argument.
\<close>

section \<open>Probes\<close>

record linkProbeResult =
  l_sent :: int
  l_answered :: int
  l_rtts :: "int list"

definition linkTestProbes :: nat where "linkTestProbes = 12"

text \<open>The loop of \<open>runLinkProbes\<close>: every attempt is the round trip of a dial, or \<open>None\<close> when it failed.\<close>

fun runLinkProbes :: "int option list \<Rightarrow> linkProbeResult \<Rightarrow> linkProbeResult" where
  "runLinkProbes [] res = res"
| "runLinkProbes (None # ps) res = runLinkProbes ps res"
| "runLinkProbes (Some rtt # ps) res =
     runLinkProbes ps (res\<lparr>l_rtts := l_rtts res @ [rtt], l_answered := l_answered res + 1\<rparr>)"

text \<open>The first loop of \<open>stats\<close>: best, worst and sum.\<close>

fun stats_loop :: "int list \<Rightarrow> int \<times> int \<times> int \<Rightarrow> int \<times> int \<times> int" where
  "stats_loop [] acc = acc"
| "stats_loop (rtt # rs) (best, worst, tot) =
     stats_loop rs (if rtt < best then rtt else best, if rtt > worst then rtt else worst, wrap64 (tot + rtt))"

fun var_loop :: "(real \<Rightarrow> real) \<Rightarrow> int \<Rightarrow> int list \<Rightarrow> real \<Rightarrow> real" where
  "var_loop rnd avg [] varSum = varSum"
| "var_loop rnd avg (rtt # rs) varSum =
     (let diff = rnd (of_int (wrap64 (rtt - avg))) in var_loop rnd avg rs (rnd (varSum + rnd (diff * diff))))"

record link_stats =
  avg :: int
  best :: int
  worst :: int
  jitter :: int
  lossPct :: real

definition stats :: "(real \<Rightarrow> real) \<Rightarrow> linkProbeResult \<Rightarrow> link_stats" where
  "stats rnd r =
     (case l_rtts r of
        [] \<Rightarrow> \<lparr>avg = 0, best = 0, worst = 0, jitter = 0, lossPct = 100\<rparr>
      | r0 # rs \<Rightarrow>
          (case stats_loop (l_rtts r) (r0, r0, 0) of (b, w, tot) \<Rightarrow>
             let n = int (length (l_rtts r)); a = go_quot tot n in
             \<lparr>avg = a, best = b, worst = w,
              jitter = int_of_float (rnd (sqrt (rnd (var_loop rnd a (l_rtts r) 0 / rnd (of_int n))))),
              lossPct = rnd (rnd (100 * rnd (of_int (l_sent r - l_answered r))) / rnd (of_int (l_sent r)))\<rparr>))"

section \<open>Liveness timers\<close>

definition roundUpSeconds :: "int \<Rightarrow> int" where
  "roundUpSeconds d = (let x = wrap64 (d + second - 1) in x - go_rem x second)"

definition suggestKeepAlive :: "int \<Rightarrow> int \<Rightarrow> int" where
  "suggestKeepAlive cur margin =
     (if margin > go_quot cur 2 then
        (let s = roundUpSeconds (wrap64 (margin * 3)) in if s < 15 * second then 15 * second else s)
      else cur)"

definition suggestHeartbeat :: "int \<Rightarrow> int \<Rightarrow> int" where
  "suggestHeartbeat cur margin =
     (if margin > cur then
        (let s = roundUpSeconds (wrap64 (margin * 2)) in if s < 5 * second then 5 * second else s)
      else cur)"

text \<open>\<open>None\<close>: nothing to suggest. Otherwise the configuration with the suggested timers.\<close>

definition suggestedTimers :: "string \<Rightarrow> Config \<Rightarrow> link_stats \<Rightarrow> Config option" where
  "suggestedTimers role cfg st =
     (let margin = wrap64 (worst st + jitter st);
          ka = suggestKeepAlive (KeepAlive cfg) margin;
          showHeartbeat = (role = ''server'');
          hb = (if showHeartbeat then suggestHeartbeat (Heartbeat cfg) margin else Heartbeat cfg)
      in if ka = KeepAlive cfg \<and> (\<not> showHeartbeat \<or> hb = Heartbeat cfg) then None
         else Some (if showHeartbeat then cfg\<lparr>KeepAlive := ka, Heartbeat := hb\<rparr> else cfg\<lparr>KeepAlive := ka\<rparr>))"

text \<open>Saving the changed configuration, and the offer to restart the tunnel when that worked.\<close>

definition saveAndRestart :: "host \<Rightarrow> (Config \<Rightarrow> goerror + string) \<Rightarrow> tunnelRef \<Rightarrow> Config \<Rightarrow> box \<Rightarrow> box ask" where
  "saveAndRestart h enc t cfg b =
     (case saveConfig h enc cfg (tr_Path t) b of
        (b1, Some e) \<Rightarrow> answer b1
      | (b1, None) \<Rightarrow>
          then_ask (confirm True) (\<lambda>restart.
            answer (if restart then runCmd [''systemctl'', ''restart'', tunnel_unit t] b1 else b1)))"

text \<open>\<open>suggestTimers\<close>: accepted timers stay in the configuration in memory, even when saving them fails.\<close>

definition suggestTimers ::
    "host \<Rightarrow> (Config \<Rightarrow> goerror + string) \<Rightarrow> tunnelRef \<Rightarrow> Config \<Rightarrow> link_stats \<Rightarrow> box \<Rightarrow> (Config \<times> box) ask" where
  "suggestTimers h enc t cfg st b =
     (case suggestedTimers (tr_Role t) cfg st of
        None \<Rightarrow> answer (cfg, b)
      | Some cfg' \<Rightarrow>
          then_ask (confirm False) (\<lambda>yes.
            if \<not> yes then answer (cfg, b)
            else then_ask (saveAndRestart h enc t cfg' b) (\<lambda>b1. answer (cfg', b1))))"

section \<open>Transport\<close>

datatype advice = KeepKCP | UseKCP | LeaveKCP | KeepTransport | KeepMode string | SwitchMode string

definition recommendedMode :: "real \<Rightarrow> int \<Rightarrow> string" where
  "recommendedMode loss jit = (if loss > 0 \<or> jit > 15 * millisecond then ''tcpmux'' else ''tcp'')"

definition transport_advice :: "Config \<Rightarrow> DisguiseConfig \<Rightarrow> link_stats \<Rightarrow> advice" where
  "transport_advice cfg d st =
     (if lossPct st > 5 \<or> jitter st > 60 * millisecond then (if DType d = ''kcp'' then KeepKCP else UseKCP)
      else if DType d = ''kcp'' \<and> lossPct st < 1 \<and> jitter st < 20 * millisecond then LeaveKCP
      else if Mode cfg \<noteq> ''tcp'' \<and> Mode cfg \<noteq> ''tcpmux'' then KeepTransport
      else (let recommended = recommendedMode (lossPct st) (jitter st) in
            if Mode cfg = recommended then KeepMode recommended else SwitchMode recommended))"

definition recommendTransport ::
    "host \<Rightarrow> (Config \<Rightarrow> goerror + string) \<Rightarrow> tunnelRef \<Rightarrow> Config \<Rightarrow> DisguiseConfig \<Rightarrow> link_stats \<Rightarrow> box \<Rightarrow> box ask" where
  "recommendTransport h enc t cfg d st b =
     (case transport_advice cfg d st of
        SwitchMode m \<Rightarrow>
          then_ask (confirm False) (\<lambda>yes. if \<not> yes then answer b else saveAndRestart h enc t (cfg\<lparr>Mode := m\<rparr>) b)
      | _ \<Rightarrow> answer b)"

section \<open>The screen\<close>

text \<open>The tunnels that can be tested: those whose file loads and whose side dials out, with their configurations.\<close>

definition link_candidates ::
    "(string \<Rightarrow> Config \<Rightarrow> goerror + (Config \<times> string list)) \<Rightarrow> box \<Rightarrow> tunnelRef list \<Rightarrow> (tunnelRef \<times> Config) list" where
  "link_candidates dec b tunnels =
     concat (map (\<lambda>t.
       if isPaqet t then []
       else case loadFile dec b (tr_Path t) (tr_Role t) of
         Inl e \<Rightarrow> []
       | Inr cfg \<Rightarrow> if \<not> dialsOut cfg \<or> Disguise cfg = [] then [] else [(t, cfg)]) tunnels)"

text \<open>\<open>probes cfg d\<close>: the round trips of the dials, \<open>linkTestProbes\<close> of them. The question is asked outside \<open>runWizard\<close>.\<close>

definition menuLinkTest ::
    "host \<Rightarrow> (string \<Rightarrow> Config \<Rightarrow> goerror + (Config \<times> string list)) \<Rightarrow> (Config \<Rightarrow> goerror + string) \<Rightarrow>
     (Config \<Rightarrow> DisguiseConfig \<Rightarrow> int option list) \<Rightarrow> (real \<Rightarrow> real) \<Rightarrow> tunnelRef list \<Rightarrow> box \<Rightarrow> box ask" where
  "menuLinkTest h dec enc probes rnd tunnels b =
     (let candidates = link_candidates dec b tunnels in
      if candidates = [] then then_ask pressEnter (\<lambda>u. answer b)
      else then_ask (askChoice ''1'') (\<lambda>choice.
        case indexFromChoice choice (length candidates) of
          None \<Rightarrow> then_ask pressEnter (\<lambda>u. answer b)
        | Some idx \<Rightarrow>
            (case candidates ! idx of (t, cfg) \<Rightarrow>
               let d = hd (Disguise cfg);
                   res = runLinkProbes (take linkTestProbes (probes cfg d)) \<lparr>l_sent = int linkTestProbes, l_answered = 0, l_rtts = []\<rparr> in
               if l_answered res = 0 then then_ask pressEnter (\<lambda>u. answer b)
               else
                 let st = stats rnd res in
                 then_ask (suggestTimers h enc t cfg st b) (\<lambda>(cfg', b1).
                 then_ask (recommendTransport h enc t cfg' d st b1) (\<lambda>b2.
                 then_ask pressEnter (\<lambda>u. answer b2))))))"

section \<open>The statistics\<close>

lemma runLinkProbes_counts:
  "runLinkProbes ps res =
     res\<lparr>l_rtts := l_rtts res @ map the (filter (\<lambda>p. p \<noteq> None) ps),
         l_answered := l_answered res + int (length (filter (\<lambda>p. p \<noteq> None) ps))\<rparr>"
  by (induction ps res rule: runLinkProbes.induct) simp_all

lemma stats_loop_bounds:
  "stats_loop rs (b, w, t) = (b', w', t') \<Longrightarrow> b' \<le> b \<and> w \<le> w' \<and> (\<forall>r\<in>set rs. b' \<le> r \<and> r \<le> w')"
proof (induction rs arbitrary: b w t)
  case (Cons r rs)
  from Cons.IH [OF Cons.prems [unfolded stats_loop.simps]] show ?case by (auto split: if_splits)
qed simp

lemma roundUpSeconds_bounds:
  assumes "0 \<le> d" "d < 2 ^ 62"
  shows "d \<le> roundUpSeconds d" "roundUpSeconds d < d + second" "roundUpSeconds d mod second = 0"
proof -
  have w: "wrap64 (d + second - 1) = d + second - 1" using assms by (intro wrap64_id) auto
  have r: "roundUpSeconds d = (d + second - 1) - (d + second - 1) mod second"
    unfolding roundUpSeconds_def Let_def w using assms by (subst go_rem_nonneg) auto
  show "d \<le> roundUpSeconds d" unfolding r using pos_mod_bound [of second "d + second - 1"] by simp
  show "roundUpSeconds d < d + second" unfolding r using pos_mod_sign [of second "d + second - 1"] by simp
  show "roundUpSeconds d mod second = 0" unfolding r by (simp add: minus_mod_eq_mult_div)
qed

lemma suggestKeepAlive_loosens:
  assumes "0 \<le> margin" "margin < 2 ^ 60" "0 \<le> cur"
  shows "cur \<le> suggestKeepAlive cur margin" "margin \<le> go_quot (suggestKeepAlive cur margin) 2"
    "suggestKeepAlive cur margin \<noteq> cur \<Longrightarrow> 15 * second \<le> suggestKeepAlive cur margin \<and> suggestKeepAlive cur margin mod second = 0"
proof -
  have w: "wrap64 (margin * 3) = margin * 3" using assms by (intro wrap64_id) auto
  note r = roundUpSeconds_bounds [of "margin * 3"]
  have q: "go_quot cur 2 = cur div 2" using assms(3) by (simp add: go_quot_nonneg)
  have s: "suggestKeepAlive cur margin = (if margin > cur div 2 then max (15 * second) (roundUpSeconds (margin * 3)) else cur)"
    unfolding suggestKeepAlive_def Let_def w q by (simp add: max_def)
  show "cur \<le> suggestKeepAlive cur margin" unfolding s using r(1) assms by (auto simp: max_def)
  show "margin \<le> go_quot (suggestKeepAlive cur margin) 2"
  proof (cases "margin > cur div 2")
    case True
    then show ?thesis unfolding s using r(1) assms by (subst go_quot_nonneg) (auto simp: max_def)
  qed (simp add: s q)
  show "15 * second \<le> suggestKeepAlive cur margin \<and> suggestKeepAlive cur margin mod second = 0"
    if "suggestKeepAlive cur margin \<noteq> cur"
  proof -
    have m: "roundUpSeconds (margin * 3) mod second = 0" using r(3) assms by simp
    from that have e: "suggestKeepAlive cur margin = max (15 * second) (roundUpSeconds (margin * 3))"
      unfolding s by presburger
    have "max (15 * second) k mod second = 0" if "k mod second = 0" for k using that by (simp add: max_def)
    with m show ?thesis unfolding e by simp
  qed
qed

lemma suggestHeartbeat_loosens:
  assumes "0 \<le> margin" "margin < 2 ^ 60"
  shows "cur \<le> suggestHeartbeat cur margin" "margin \<le> suggestHeartbeat cur margin"
proof -
  have w: "wrap64 (margin * 2) = margin * 2" using assms by (intro wrap64_id) auto
  note r = roundUpSeconds_bounds(1) [of "margin * 2"]
  have s: "suggestHeartbeat cur margin = (if margin > cur then max (5 * second) (roundUpSeconds (margin * 2)) else cur)"
    unfolding suggestHeartbeat_def Let_def w by (simp add: max_def)
  show "cur \<le> suggestHeartbeat cur margin" "margin \<le> suggestHeartbeat cur margin"
    unfolding s using r assms by (auto simp: max_def)
qed

section \<open>Properties\<close>

text \<open>
  The suggested timers only loosen: neither is lowered, afterwards the worst round trip and its
  jitter fit twice into the keep-alive (and once into a server's heartbeat), and the same measurement suggests
  nothing more. The configuration stays valid, and nothing else in it changes.
\<close>
theorem timers_only_loosen:
  assumes "suggestedTimers role cfg st = Some cfg'"
    and "0 \<le> worst st + jitter st" "worst st + jitter st < 2 ^ 60" "0 \<le> KeepAlive cfg"
  shows "KeepAlive cfg \<le> KeepAlive cfg' \<and> Heartbeat cfg \<le> Heartbeat cfg' \<and>
    worst st + jitter st \<le> KeepAlive cfg' div 2 \<and>
    (role = ''server'' \<longrightarrow> worst st + jitter st \<le> Heartbeat cfg') \<and>
    suggestedTimers role cfg' st = None \<and> valid_config cfg' = valid_config cfg \<and>
    cfg'\<lparr>KeepAlive := KeepAlive cfg, Heartbeat := Heartbeat cfg\<rparr> = cfg"
proof -
  let ?m = "worst st + jitter st"
  have w: "wrap64 ?m = ?m" using assms(2,3) by (intro wrap64_id) auto
  have c: "cfg' = (if role = ''server''
      then cfg\<lparr>KeepAlive := suggestKeepAlive (KeepAlive cfg) ?m, Heartbeat := suggestHeartbeat (Heartbeat cfg) ?m\<rparr>
      else cfg\<lparr>KeepAlive := suggestKeepAlive (KeepAlive cfg) ?m\<rparr>)"
    using assms(1) unfolding suggestedTimers_def w Let_def by (cases "role = ''server''") (simp_all split: if_splits)
  have ka: "KeepAlive cfg' = suggestKeepAlive (KeepAlive cfg) ?m"
    and hb: "Heartbeat cfg' = (if role = ''server'' then suggestHeartbeat (Heartbeat cfg) ?m else Heartbeat cfg)"
    and rest: "cfg'\<lparr>KeepAlive := KeepAlive cfg, Heartbeat := Heartbeat cfg\<rparr> = cfg" "valid_config cfg' = valid_config cfg"
    unfolding c by (simp_all add: valid_config_def dialsOut_def)
  note l = suggestKeepAlive_loosens [OF assms(2,3,4)] and h = suggestHeartbeat_loosens [OF assms(2,3)]
  have nonneg: "0 \<le> KeepAlive cfg'" using l(1) assms(4) unfolding ka by simp
  then have half: "?m \<le> KeepAlive cfg' div 2" using l(2) unfolding ka by (simp add: go_quot_nonneg)
  have "suggestKeepAlive (KeepAlive cfg') ?m = KeepAlive cfg'"
    using half nonneg by (simp add: suggestKeepAlive_def go_quot_nonneg)
  moreover have "suggestHeartbeat (Heartbeat cfg') ?m = Heartbeat cfg'" if "role = ''server''"
    using h(2) [of "Heartbeat cfg"] that by (simp add: hb suggestHeartbeat_def)
  ultimately have "suggestedTimers role cfg' st = None"
    by (auto simp: suggestedTimers_def w Let_def)
  with l(1) h half rest show ?thesis by (auto simp: ka hb)
qed

theorem timers_only_loosen_witness:
  "KeepAlive (the (suggestedTimers ''server'' (sample_config ''server'')
     \<lparr>avg = 0, best = 0, worst = 9 * second, jitter = 200 * millisecond, lossPct = 0\<rparr>)) \<ge> 18 * second"
proof -
  let ?st = "\<lparr>avg = 0, best = 0, worst = 9 * second, jitter = 200 * millisecond, lossPct = 0\<rparr> :: link_stats"
  have "suggestedTimers ''server'' (sample_config ''server'') ?st =
      Some ((sample_config ''server'')\<lparr>KeepAlive := 28 * second, Heartbeat := 19 * second\<rparr>)"
    by (simp add: suggestedTimers_def suggestKeepAlive_def suggestHeartbeat_def roundUpSeconds_def wrap64_def
        go_quot_def go_rem_def sample_config_def defaultConfig_def)
  from timers_only_loosen [OF this] this show ?thesis by (simp add: sample_config_def defaultConfig_def)
qed

text \<open>
  Accepting the recommended transport saves a configuration that loads exactly when its multiplexer
  frame size, which is not checked in mode "tcp", is in range: a switch to "tcp" always does, and a switch to "tcpmux" of a
  configuration with a frame size outside 1..65535 writes a file that \<open>LoadConfig\<close> refuses.
\<close>
theorem transport_switch_valid_iff:
  assumes "valid_config cfg" "transport_advice cfg d st = SwitchMode m"
    and "enc (cfg\<lparr>Mode := m\<rparr>) = Inr data" "h_io h (tr_Path t) = None"
  shows "(\<exists>b'. recommendTransport h enc t cfg d st b (''y'' # [] # rest) = Answer b' rest \<and> readFile b' (tr_Path t) = Some data) \<and>
    (valid_config (cfg\<lparr>Mode := m\<rparr>) \<longleftrightarrow> (m = ''tcpmux'' \<longrightarrow> 0 < MuxFrameSize cfg \<and> MuxFrameSize cfg < 2 ^ 16)) \<and>
    {Mode cfg, m} = {''tcp'', ''tcpmux''}"
proof -
  obtain b1 where w: "writeFile h (tr_Path t) data b = (b1, None)" using assms(4) by (simp add: writeFile_def)
  have r: "readFile b1 (tr_Path t) = Some data" using readFile_write [of h "tr_Path t" data b "tr_Path t"] assms(4) w by simp
  have "recommendTransport h enc t cfg d st b (''y'' # [] # rest) =
      Answer (runCmd [''systemctl'', ''restart'', tunnel_unit t] b1) rest"
    by (simp add: recommendTransport_def assms(2,3) saveAndRestart_def saveConfig_def w then_ask_def confirm_def readLine_def answer_def trimSpace_def is_space_def lower_char_def)
  moreover have "readFile (runCmd [''systemctl'', ''restart'', tunnel_unit t] b1) (tr_Path t) = Some data"
    using r by (simp add: readFile_run)
  moreover have m: "Mode cfg \<in> {''tcp'', ''tcpmux''}" "m \<in> {''tcp'', ''tcpmux''}" "Mode cfg \<noteq> m"
    using assms(2) by (auto simp: transport_advice_def recommendedMode_def Let_def split: if_splits)
  moreover have "valid_config (cfg\<lparr>Mode := m\<rparr>) \<longleftrightarrow> (m = ''tcpmux'' \<longrightarrow> 0 < MuxFrameSize cfg \<and> MuxFrameSize cfg < 2 ^ 16)"
    using assms(1) m by (auto simp: valid_config_def dialsOut_def)
  ultimately show ?thesis by auto
qed

theorem transport_switch_valid_iff_witness:
  "\<exists>cfg. valid_config cfg \<and> \<not> valid_config (cfg\<lparr>Mode := ''tcpmux''\<rparr>) \<and>
     transport_advice cfg sample_disguise \<lparr>avg = 0, best = 0, worst = 0, jitter = 30 * millisecond, lossPct = 0\<rparr> = SwitchMode ''tcpmux''"
proof -
  let ?st = "\<lparr>avg = 0, best = 0, worst = 0, jitter = 30 * millisecond, lossPct = 0\<rparr> :: link_stats"
  let ?cfg = "(sample_config ''server'')\<lparr>Mode := ''tcp'', MuxFrameSize := 65536\<rparr>"
  let ?h = "\<lparr>h_io = (\<lambda>p. None), h_mkdir = (\<lambda>p. None), h_look = (\<lambda>p. None), h_self = None, h_active = (\<lambda>u. False), h_cwd = []\<rparr>"
  have v: "valid_config ?cfg" using sample_config_valid [of "''server''"]
    by (simp add: valid_config_def dialsOut_def)
  have a: "transport_advice ?cfg sample_disguise ?st = SwitchMode ''tcpmux''"
    by (simp add: transport_advice_def recommendedMode_def sample_disguise_def zero_disguise_def)
  have "\<not> valid_config (?cfg\<lparr>Mode := ''tcpmux''\<rparr>)"
    using transport_switch_valid_iff [OF v a, of "\<lambda>c. Inr []" "[]" ?h] by simp
  with v a show ?thesis by blast
qed

lemma link_candidate:
  assumes "t \<in> set tunnels" "\<not> isPaqet t" "loadFile dec b (tr_Path t) (tr_Role t) = Inr cfg" "dialsOut cfg" "Disguise cfg \<noteq> []"
  shows "link_candidates dec b tunnels \<noteq> []"
proof -
  have "(t, cfg) \<in> set (link_candidates dec b tunnels)"
    using assms unfolding link_candidates_def by (auto intro!: bexI [of _ t])
  then show ?thesis by auto
qed

text \<open>
  The screen offers "0" as the way back, but the question is not asked within a wizard: with a tunnel to test, that answer is
  a cancellation nobody receives, which ends the process.
\<close>

lemma link_test_back_crashes:
  "link_candidates dec b tunnels \<noteq> [] \<Longrightarrow> menuLinkTest h dec enc probes rnd tunnels b (''0'' # inp) = Cancelled inp"
  by (simp add: menuLinkTest_def askChoice_def readLineDefault_def readLine_def then_ask_def answer_def cancel_def
      trimSpace_def is_space_def Let_def)

end
