(* ===== verification/Wizard.thy ===== *)
theory Wizard
  imports Ports_Spec Tiers
begin

text \<open>
  The wizard of \<open>wizard.go\<close> that builds a tunnel, as the questions it asks (theory \<open>Console\<close>). The random bytes
  of a token, the link measurement and the float parser are arguments.
\<close>

section \<open>One disguise\<close>

record disguiseAnswer =
  a_Type :: string
  a_Addr :: string
  a_BackupAddrs :: "string list"
  a_Domain :: string
  a_Path :: string
  a_CertFile :: string
  a_KeyFile :: string
  a_Insecure :: bool
  a_KCPPreset :: string
  a_KCPMTU :: int
  a_KCPInterval :: int
  a_KCPResend :: int
  a_KCPNoDelay :: int
  a_KCPNoCongestion :: int
  a_KCPSndWnd :: int
  a_KCPRcvWnd :: int
  a_KCPAckNoDelay :: bool
  a_KCPDataShards :: int
  a_KCPParityShards :: int

definition answer_of_type :: "string \<Rightarrow> disguiseAnswer" where
  "answer_of_type t = \<lparr>a_Type = t, a_Addr = [], a_BackupAddrs = [], a_Domain = [], a_Path = [], a_CertFile = [],
     a_KeyFile = [], a_Insecure = False, a_KCPPreset = [], a_KCPMTU = 0, a_KCPInterval = 0, a_KCPResend = 0,
     a_KCPNoDelay = 0, a_KCPNoCongestion = 0, a_KCPSndWnd = 0, a_KCPRcvWnd = 0, a_KCPAckNoDelay = False,
     a_KCPDataShards = 0, a_KCPParityShards = 0\<rparr>"

definition askBackupAddrs :: "string list ask" where
  "askBackupAddrs = then_ask (readLineDefault []) (\<lambda>raw.
     answer (if raw = [] then [] else filter (\<lambda>p. p \<noteq> []) (map trimSpace (split_char raw CHR '',''))))"

text \<open>The address questions that all types share: where to listen, or whom to dial and the backups.\<close>

definition askListenAddr :: "string \<Rightarrow> disguiseAnswer \<Rightarrow> disguiseAnswer ask" where
  "askListenAddr dflt d = then_ask (readLineDefault dflt) (\<lambda>port. answer (d\<lparr>a_Addr := ''0.0.0.0:'' @ port\<rparr>))"

definition askPeerAddr :: "string \<Rightarrow> disguiseAnswer \<Rightarrow> disguiseAnswer ask" where
  "askPeerAddr dflt d =
     then_ask readLine (\<lambda>ip. then_ask (readLineDefault dflt) (\<lambda>port. answer (d\<lparr>a_Addr := ip @ '':'' @ port\<rparr>)))"

definition askBackups :: "disguiseAnswer \<Rightarrow> disguiseAnswer ask" where
  "askBackups d = then_ask askBackupAddrs (\<lambda>bs. answer (d\<lparr>a_BackupAddrs := bs\<rparr>))"

definition askCert :: "disguiseAnswer \<Rightarrow> disguiseAnswer ask" where
  "askCert d =
     then_ask (readLineDefault []) (\<lambda>dom.
     then_ask (readLineDefault []) (\<lambda>cert.
       if cert \<noteq> [] then then_ask (readLineDefault []) (\<lambda>key. answer (d\<lparr>a_Domain := dom, a_CertFile := cert, a_KeyFile := key\<rparr>))
       else answer (d\<lparr>a_Domain := dom, a_CertFile := cert\<rparr>)))"

definition askPeerCert :: "disguiseAnswer \<Rightarrow> disguiseAnswer ask" where
  "askPeerCert d =
     then_ask (readLineDefault []) (\<lambda>dom.
     then_ask (confirm True) (\<lambda>ins. askBackups (d\<lparr>a_Domain := dom, a_Insecure := ins\<rparr>)))"

definition askWSSDisguiseAnswer :: "bool \<Rightarrow> disguiseAnswer ask" where
  "askWSSDisguiseAnswer listens =
     (let d = (answer_of_type ''wss'')\<lparr>a_Path := ''/ws''\<rparr> in
      if listens then then_ask (askListenAddr ''443'' d) askCert else then_ask (askPeerAddr ''443'' d) askPeerCert)"

definition askNoiseDisguiseAnswer :: "bool \<Rightarrow> disguiseAnswer ask" where
  "askNoiseDisguiseAnswer listens =
     (let d = answer_of_type ''noise'' in
      if listens then askListenAddr ''9001'' d else then_ask (askPeerAddr ''9001'' d) askBackups)"

definition askPlainDisguiseAnswer :: "bool \<Rightarrow> disguiseAnswer ask" where
  "askPlainDisguiseAnswer listens =
     (let d = answer_of_type ''plain'' in
      if listens then askListenAddr ''9000'' d else then_ask (askPeerAddr ''9000'' d) askBackups)"

definition askQUICDisguiseAnswer :: "bool \<Rightarrow> disguiseAnswer ask" where
  "askQUICDisguiseAnswer listens =
     (let d = answer_of_type ''quic'' in
      if listens then then_ask (askListenAddr ''9003'' d) askCert else then_ask (askPeerAddr ''9003'' d) askPeerCert)"

section \<open>KCP settings\<close>

definition fill_preset :: "string \<Rightarrow> disguiseAnswer \<Rightarrow> disguiseAnswer" where
  "fill_preset preset d =
     (let tmp = applyKCPPreset (zero_disguise\<lparr>KCPPreset := preset\<rparr>) in
      d\<lparr>a_KCPPreset := preset, a_KCPMTU := KCPMTU tmp, a_KCPInterval := KCPInterval tmp, a_KCPResend := KCPResend tmp,
        a_KCPNoDelay := KCPNoDelay tmp, a_KCPNoCongestion := KCPNoCongestion tmp, a_KCPAckNoDelay := KCPAckNoDelay tmp,
        a_KCPSndWnd := KCPSndWnd tmp, a_KCPRcvWnd := KCPRcvWnd tmp,
        a_KCPDataShards := KCPDataShards tmp, a_KCPParityShards := KCPParityShards tmp\<rparr>)"

definition askCustomKCP :: "disguiseAnswer \<Rightarrow> disguiseAnswer ask" where
  "askCustomKCP d =
     then_ask (askInt ''1250'' 1250) (\<lambda>mtu.
     then_ask (askInt ''10'' 10) (\<lambda>interval.
     then_ask (askInt ''2'' 2) (\<lambda>resend.
     then_ask (askInt ''1'' 1) (\<lambda>nodelay.
     then_ask (askInt ''1'' 1) (\<lambda>nocongestion.
     then_ask (confirm True) (\<lambda>acknodelay.
     then_ask (askInt ''1024'' 1024) (\<lambda>sndwnd.
     then_ask (askInt ''1024'' 1024) (\<lambda>rcvwnd.
       let d = d\<lparr>a_KCPMTU := mtu, a_KCPInterval := interval, a_KCPResend := resend, a_KCPNoDelay := nodelay,
                 a_KCPNoCongestion := nocongestion, a_KCPAckNoDelay := acknodelay,
                 a_KCPSndWnd := sndwnd, a_KCPRcvWnd := rcvwnd\<rparr> in
       then_ask (confirm True) (\<lambda>fec.
         if fec then
           then_ask (askInt ''10'' 10) (\<lambda>dshard.
           then_ask (askInt ''3'' 3) (\<lambda>pshard. answer (d\<lparr>a_KCPDataShards := dshard, a_KCPParityShards := pshard\<rparr>)))
         else answer d)))))))))"

definition askKCPSettings :: "disguiseAnswer \<Rightarrow> disguiseAnswer ask" where
  "askKCPSettings d =
     then_ask (readLineDefault ''2'') (\<lambda>choice.
       let idx = (case indexFromChoice choice (length kcpPresets) of None \<Rightarrow> 1 | Some i \<Rightarrow> i);
           preset = kcpPresets ! idx in
       if preset \<noteq> ''custom'' then answer (fill_preset preset d) else askCustomKCP (d\<lparr>a_KCPPreset := preset\<rparr>))"

definition askKCPDisguiseAnswer :: "bool \<Rightarrow> disguiseAnswer ask" where
  "askKCPDisguiseAnswer listens =
     (let d = answer_of_type ''kcp'' in
      then_ask (if listens then askListenAddr ''9002'' d else then_ask (askPeerAddr ''9002'' d) askBackups) askKCPSettings)"

section \<open>Several disguises\<close>

text \<open>One line of \<open>askDisguises\<close>: a type that is not excluded is offered, and its answer appended.\<close>

definition offer :: "bool \<Rightarrow> bool \<Rightarrow> disguiseAnswer ask \<Rightarrow> disguiseAnswer list \<Rightarrow> disguiseAnswer list ask" where
  "offer skip dflt q out =
     (if skip then answer out
      else then_ask (confirm dflt) (\<lambda>yes. if yes then then_ask q (\<lambda>d. answer (out @ [d])) else answer out))"

definition askDisguises_round :: "bool \<Rightarrow> string list \<Rightarrow> disguiseAnswer list ask" where
  "askDisguises_round listens exclude =
     (let skip = (\<lambda>t. t \<in> set exclude); on = (exclude = []) in
      then_ask (offer (skip ''wss'') on (askWSSDisguiseAnswer listens) []) (\<lambda>out.
      then_ask (offer (skip ''noise'') on (askNoiseDisguiseAnswer listens) out) (\<lambda>out.
      then_ask (offer (skip ''plain'') on (askPlainDisguiseAnswer listens) out) (\<lambda>out.
      then_ask (offer (skip ''kcp'') False (askKCPDisguiseAnswer listens) out) (\<lambda>out.
      offer (skip ''quic'') False (askQUICDisguiseAnswer listens) out)))))"

definition askDisguises :: "bool \<Rightarrow> string list \<Rightarrow> disguiseAnswer list ask" where
  "askDisguises listens exclude = ask_until (\<lambda>out. out \<noteq> []) (askDisguises_round listens exclude)"

definition disguiseAnswersToConfig :: "disguiseAnswer list \<Rightarrow> bool \<Rightarrow> DisguiseConfig list" where
  "disguiseAnswersToConfig answers listens =
     map (\<lambda>d.
       let dc = \<lparr>DType = a_Type d, Enabled = True, ListenAddr = [], ServerAddr = [], BackupAddrs = a_BackupAddrs d,
                 Domain = a_Domain d, Path = a_Path d, CertFile = a_CertFile d, KeyFile = a_KeyFile d, DecoyRoot = [],
                 Insecure = a_Insecure d, KCPPreset = a_KCPPreset d, KCPMTU = a_KCPMTU d, KCPInterval = a_KCPInterval d,
                 KCPResend = a_KCPResend d, KCPNoDelay = a_KCPNoDelay d, KCPNoCongestion = a_KCPNoCongestion d,
                 KCPSndWnd = a_KCPSndWnd d, KCPRcvWnd = a_KCPRcvWnd d, KCPAckNoDelay = a_KCPAckNoDelay d,
                 KCPDataShards = a_KCPDataShards d, KCPParityShards = a_KCPParityShards d\<rparr> in
       if listens then dc\<lparr>ListenAddr := a_Addr d\<rparr> else dc\<lparr>ServerAddr := a_Addr d\<rparr>) answers"

section \<open>Direction and transport\<close>

definition askDirection :: "string ask" where
  "askDirection = then_ask (askChoice ''1'') (\<lambda>c. answer (if c = ''2'' then ''direct'' else ''reverse''))"

definition askDirectEngine :: "string ask" where
  "askDirectEngine = then_ask (askChoice ''1'') (\<lambda>c. answer (if c = ''2'' then ''paqet'' else ''rmtunnel''))"

definition askTCPVariant :: "bool \<Rightarrow> (string \<times> disguiseAnswer) ask" where
  "askTCPVariant listens =
     then_ask (askChoice ''2'') (\<lambda>c.
       if c = ''1'' then then_ask (askPlainDisguiseAnswer listens) (\<lambda>d. answer (''tcp'', d))
       else if c = ''3'' then then_ask (askNoiseDisguiseAnswer listens) (\<lambda>d. answer (''tcpmux'', d))
       else then_ask (askPlainDisguiseAnswer listens) (\<lambda>d. answer (''tcpmux'', d)))"

text \<open>\<open>None\<close>: raw UDP was chosen for a direction that cannot run it, and the family is asked for again.\<close>

definition askUDPVariant :: "string \<Rightarrow> bool \<Rightarrow> (string \<times> disguiseAnswer) option ask" where
  "askUDPVariant direction listens =
     then_ask (askChoice ''1'') (\<lambda>c.
       if c = ''2'' then then_ask (askKCPDisguiseAnswer listens) (\<lambda>d. answer (Some (''tcpmux'', d)))
       else if c = ''3'' then then_ask (askQUICDisguiseAnswer listens) (\<lambda>d. answer (Some (''tcpmux'', d)))
       else if direction \<noteq> ''reverse'' then then_ask pressEnter (\<lambda>u. answer None)
       else then_ask (askPlainDisguiseAnswer listens) (\<lambda>d. answer (Some (''udp'', d))))"

definition askFamily :: "string \<Rightarrow> bool \<Rightarrow> (string \<times> disguiseAnswer) option ask" where
  "askFamily direction listens =
     then_ask (askChoice ''1'') (\<lambda>c.
       if c = ''2'' then askUDPVariant direction listens
       else if c = ''3'' then then_ask (askWSSDisguiseAnswer listens) (\<lambda>d. answer (Some (''tcpmux'', d)))
       else then_ask (askTCPVariant listens) (\<lambda>r. answer (Some r)))"

definition askTransportMode :: "string \<Rightarrow> bool \<Rightarrow> (string \<times> disguiseAnswer list) ask" where
  "askTransportMode direction listens =
     then_ask (ask_until (\<lambda>r. r \<noteq> None) (askFamily direction listens)) (\<lambda>r.
       case the r of (mode, d) \<Rightarrow>
         if mode \<noteq> ''udp'' then
           then_ask (confirm False) (\<lambda>more.
             if more then then_ask (askDisguises listens [a_Type d]) (\<lambda>ds. answer (mode, d # ds))
             else answer (mode, [d]))
         else answer (mode, [d]))"

section \<open>Sizing\<close>

text \<open>
  What the sizing questions depend on: rounding, the processors and memory of the box, \<open>strconv.ParseFloat\<close> and
  \<open>measureLink\<close> (\<open>None\<close>: an error).
\<close>

record bench_env =
  be_rnd :: "real \<Rightarrow> real"
  be_cores :: int
  be_ram :: "int \<times> bool"
  be_parseFloat :: "string \<Rightarrow> real option"
  be_measureLink :: "string \<Rightarrow> string \<Rightarrow> benchResult option"

definition parseFloatDefault :: "bench_env \<Rightarrow> string \<Rightarrow> real \<Rightarrow> real" where
  "parseFloatDefault env s dflt =
     (case be_parseFloat env (trimSpace s) of None \<Rightarrow> dflt | Some v \<Rightarrow> if v \<le> 0 then dflt else v)"

definition defaultTierIndex :: nat where "defaultTierIndex = 1"

definition askStaticTier :: "tierPreset ask" where
  "askStaticTier = then_ask (askChoice (itoa (int (defaultTierIndex + 1)))) (\<lambda>choice.
     answer (case indexFromChoice choice (length tiers) of Some i \<Rightarrow> tiers ! i | None \<Rightarrow> tiers ! defaultTierIndex))"

definition askLiveBenchTier :: "bench_env \<Rightarrow> string \<Rightarrow> tierPreset ask" where
  "askLiveBenchTier env suggestedHost =
     then_ask (readLineDefault (if suggestedHost \<noteq> [] then suggestedHost @ '':9999'' else [])) (\<lambda>addr.
     then_ask readLine (\<lambda>token.
       case be_measureLink env addr token of
         None \<Rightarrow> askStaticTier
       | Some res \<Rightarrow> then_ask pressEnter (\<lambda>u. answer (resolved (computeTier (be_rnd env) (be_cores env) (be_ram env) res)))))"

definition askManualBenchTier :: "bench_env \<Rightarrow> tierPreset ask" where
  "askManualBenchTier env =
     then_ask (readLineDefault ''100'') (\<lambda>mbpsStr.
     then_ask (readLineDefault ''80'') (\<lambda>rttStr.
       let mbps = parseFloatDefault env mbpsStr 100;
           rttMs = parseFloatDefault env rttStr 80;
           res = \<lparr>minRTT = 0, avgRTT = int_of_float (be_rnd env (rttMs * of_int millisecond)), maxRTT = 0,
                  downMbps = mbps, upMbps = mbps\<rparr> in
       then_ask pressEnter (\<lambda>u. answer (resolved (computeTier (be_rnd env) (be_cores env) (be_ram env) res)))))"

definition askTierPreset :: "bench_env \<Rightarrow> string \<Rightarrow> tierPreset ask" where
  "askTierPreset env suggestedHost =
     then_ask (askChoice ''3'') (\<lambda>c.
       if c = ''1'' then askLiveBenchTier env suggestedHost
       else if c = ''2'' then askManualBenchTier env
       else askStaticTier)"

section \<open>What the questions yield\<close>

text \<open>
  \<open>answer_valid\<close> is what every disguise answer satisfies: a known type, an address, a known preset, and the fields that
  the type and the side do not have left at zero. \<open>half_fec\<close> is the one mistake the questions let through: error
  correction with data shards and no parity shards, typed in by hand.
\<close>

definition no_kcp :: "disguiseAnswer \<Rightarrow> bool" where
  "no_kcp d \<longleftrightarrow>
     a_KCPPreset d = [] \<and> a_KCPMTU d = 0 \<and> a_KCPInterval d = 0 \<and> a_KCPResend d = 0 \<and> a_KCPNoDelay d = 0 \<and>
     a_KCPNoCongestion d = 0 \<and> a_KCPSndWnd d = 0 \<and> a_KCPRcvWnd d = 0 \<and> \<not> a_KCPAckNoDelay d \<and>
     a_KCPDataShards d = 0 \<and> a_KCPParityShards d = 0"

definition answer_valid :: "bool \<Rightarrow> disguiseAnswer \<Rightarrow> bool" where
  "answer_valid listens d \<longleftrightarrow>
     a_Type d \<in> {''plain'', ''noise'', ''wss'', ''kcp'', ''quic''} \<and> a_Addr d \<noteq> [] \<and>
     (if a_Type d = ''kcp'' then a_KCPPreset d \<in> set kcpPresets else no_kcp d) \<and>
     a_Path d = (if a_Type d = ''wss'' then ''/ws'' else []) \<and>
     (a_Type d \<notin> {''wss'', ''quic''} \<longrightarrow> a_Domain d = [] \<and> a_CertFile d = [] \<and> a_KeyFile d = [] \<and> \<not> a_Insecure d) \<and>
     (if listens then a_BackupAddrs d = [] \<and> \<not> a_Insecure d else a_CertFile d = [] \<and> a_KeyFile d = [])"

definition half_fec :: "disguiseAnswer \<Rightarrow> bool" where
  "half_fec d \<longleftrightarrow> a_Type d = ''kcp'' \<and> a_KCPPreset d = ''custom'' \<and> 0 < a_KCPDataShards d \<and> a_KCPParityShards d = 0"

lemmas address_questions = askListenAddr_def askPeerAddr_def askBackups_def askCert_def askPeerCert_def

lemmas type_questions = askWSSDisguiseAnswer_def askNoiseDisguiseAnswer_def askPlainDisguiseAnswer_def askQUICDisguiseAnswer_def

lemma answer_of_type_type [simp]: "a_Type (answer_of_type t) = t"
  by (simp add: answer_of_type_def)

lemma fill_preset_fields [simp]:
  "a_Type (fill_preset p d) = a_Type d" "a_Addr (fill_preset p d) = a_Addr d" "a_KCPPreset (fill_preset p d) = p"
  "a_BackupAddrs (fill_preset p d) = a_BackupAddrs d" "a_Domain (fill_preset p d) = a_Domain d"
  "a_Path (fill_preset p d) = a_Path d" "a_CertFile (fill_preset p d) = a_CertFile d"
  "a_KeyFile (fill_preset p d) = a_KeyFile d" "a_Insecure (fill_preset p d) = a_Insecure d"
  by (simp_all add: fill_preset_def Let_def)

text \<open>A KCP answer before its settings: everything but the preset is in place.\<close>

definition kcp_started :: "bool \<Rightarrow> disguiseAnswer \<Rightarrow> bool" where
  "kcp_started listens d \<longleftrightarrow> a_Type d = ''kcp'' \<and> (\<forall>p\<in>set kcpPresets. answer_valid listens (d\<lparr>a_KCPPreset := p\<rparr>))"

lemma kcp_started_settings:
  assumes "kcp_started listens d" "p \<in> set kcpPresets"
    and "a_Type d' = a_Type d" "a_Addr d' = a_Addr d" "a_Domain d' = a_Domain d" "a_Path d' = a_Path d"
    and "a_CertFile d' = a_CertFile d" "a_KeyFile d' = a_KeyFile d" "a_BackupAddrs d' = a_BackupAddrs d" "a_Insecure d' = a_Insecure d" "a_KCPPreset d' = p"
  shows "answer_valid listens d'"
proof -
  have "answer_valid listens (d\<lparr>a_KCPPreset := p\<rparr>)" "a_Type d = ''kcp''"
    using assms(1,2) by (simp_all add: kcp_started_def)
  with assms(2-) show ?thesis by (cases listens) (simp_all add: answer_valid_def)
qed

lemma yields_askKCPSettings:
  assumes "kcp_started listens d"
  shows "yields (askKCPSettings d) (answer_valid listens)"
proof -
  have nth: "kcpPresets ! (case indexFromChoice c (length kcpPresets) of None \<Rightarrow> 1 | Some i \<Rightarrow> i) \<in> set kcpPresets" for c
    by (auto intro!: nth_mem dest: indexFromChoice_bound split: option.splits) (simp add: kcpPresets_def)
  have mem: "''custom'' \<in> set kcpPresets" by (simp add: kcpPresets_def)
  have custom: "yields (askCustomKCP (d\<lparr>a_KCPPreset := ''custom''\<rparr>)) (answer_valid listens)"
    unfolding askCustomKCP_def Let_def
    by (intro yields_bind yields_if yields_answer; rule kcp_started_settings [OF assms mem]; auto)
  have preset: "answer_valid listens (fill_preset p d)" if "p \<in> set kcpPresets" for p
    by (rule kcp_started_settings [OF assms that]) auto
  show ?thesis
    unfolding askKCPSettings_def Let_def
  proof (intro yields_bind yields_if yields_answer preset nth)
    fix choice
    assume "\<not> kcpPresets ! (case indexFromChoice choice (length kcpPresets) of None \<Rightarrow> 1 | Some i \<Rightarrow> i) \<noteq> ''custom''"
    with custom show "yields (askCustomKCP (d\<lparr>a_KCPPreset :=
        kcpPresets ! (case indexFromChoice choice (length kcpPresets) of None \<Rightarrow> 1 | Some i \<Rightarrow> i)\<rparr>)) (answer_valid listens)"
      by simp
  qed
qed

lemma yields_kcp: "yields (askKCPDisguiseAnswer listens) (answer_valid listens)"
  unfolding askKCPDisguiseAnswer_def Let_def address_questions then_ask_if then_ask_assoc then_ask_answer
  by (intro yields_if yields_bind yields_askKCPSettings)
    (simp_all add: kcp_started_def answer_valid_def answer_of_type_def)

lemma yields_typed:
  "yields (askWSSDisguiseAnswer listens) (\<lambda>d. answer_valid listens d \<and> a_Type d = ''wss'')"
  "yields (askNoiseDisguiseAnswer listens) (\<lambda>d. answer_valid listens d \<and> a_Type d = ''noise'')"
  "yields (askPlainDisguiseAnswer listens) (\<lambda>d. answer_valid listens d \<and> a_Type d = ''plain'')"
  "yields (askQUICDisguiseAnswer listens) (\<lambda>d. answer_valid listens d \<and> a_Type d = ''quic'')"
  unfolding type_questions Let_def address_questions then_ask_assoc then_ask_answer
  by (intro yields_if yields_bind yields_answer; simp add: answer_valid_def no_kcp_def answer_of_type_def)+

lemma yields_answers_valid:
  "yields (askWSSDisguiseAnswer listens) (answer_valid listens)" "yields (askNoiseDisguiseAnswer listens) (answer_valid listens)"
  "yields (askPlainDisguiseAnswer listens) (answer_valid listens)" "yields (askQUICDisguiseAnswer listens) (answer_valid listens)"
  "yields (askKCPDisguiseAnswer listens) (answer_valid listens)"
  using yields_kcp by (auto intro: yields_typed [THEN yields_mono])

lemma yields_offer:
  assumes "yields q (answer_valid listens)" "list_all (answer_valid listens) out"
  shows "yields (offer skip dflt q out) (list_all (answer_valid listens))"
  unfolding offer_def
  by (intro yields_if yields_bind yields_then [OF assms(1)] yields_answer) (simp_all add: assms(2))

lemma yields_askDisguises: "yields (askDisguises listens exclude) (\<lambda>ds. ds \<noteq> [] \<and> list_all (answer_valid listens) ds)"
proof -
  have "yields (askDisguises_round listens exclude) (list_all (answer_valid listens))"
    unfolding askDisguises_round_def Let_def
    by (intro yields_offer yields_answers_valid yields_then [where Q = "list_all (answer_valid listens)"]) simp_all
  then show ?thesis unfolding askDisguises_def by (rule yields_until)
qed

lemma consumes_offer: "\<not> skip \<Longrightarrow> keeps_input q \<Longrightarrow> consumes (offer skip dflt q out)"
  unfolding offer_def
  by simp (intro consumes_then consumes_confirm, simp add: keeps_answer keeps_then)

lemma valid_disguise_answer:
  assumes "answer_valid listens d"
  shows "valid_disguise (\<not> listens) (hd (disguiseAnswersToConfig [d] listens)) \<longleftrightarrow> \<not> half_fec d"
  using assms
  by (auto simp: valid_disguise_def disguiseAnswersToConfig_def answer_valid_def half_fec_def Let_def kcpPresets_def)

lemma valid_disguises_answers:
  assumes "list_all (answer_valid listens) ds"
  shows "(\<forall>d\<in>set (disguiseAnswersToConfig ds listens). Enabled d \<and> valid_disguise (\<not> listens) d) \<longleftrightarrow> (\<forall>d\<in>set ds. \<not> half_fec d)"
proof -
  have c: "disguiseAnswersToConfig ds listens = map (\<lambda>d. hd (disguiseAnswersToConfig [d] listens)) ds"
    by (simp add: disguiseAnswersToConfig_def)
  have "Enabled (hd (disguiseAnswersToConfig [d] listens))" for d
    by (simp add: disguiseAnswersToConfig_def Let_def)
  with assms valid_disguise_answer show ?thesis by (auto simp: c list_all_iff)
qed

lemma yields_tier: "yields (askTierPreset env host) usable_tier"
proof -
  have t: "usable_tier (tiers ! i)" if "i < length tiers" for i using tiers_facts that nth_mem by blast
  have d: "defaultTierIndex < length tiers" by (simp add: defaultTierIndex_def tiers_def)
  have static: "yields askStaticTier usable_tier"
    unfolding askStaticTier_def
    by (intro yields_bind yields_answer) (auto intro: t d dest: indexFromChoice_bound split: option.splits)
  have comp: "usable_tier (resolved (computeTier rnd cores ram res))" for rnd cores ram res
    unfolding usable_resolved using tiers_facts pickTier_tiers by (simp add: computeTier_def Let_def)
  have live: "yields (askLiveBenchTier env host) usable_tier" unfolding askLiveBenchTier_def
    by (intro yields_bind) (auto intro!: static yields_bind yields_answer comp split: option.splits)
  have manual: "yields (askManualBenchTier env) usable_tier"
    unfolding askManualBenchTier_def Let_def by (intro yields_bind yields_answer comp)
  show ?thesis unfolding askTierPreset_def by (intro yields_bind yields_if static live manual)
qed

definition compatible :: "string \<Rightarrow> bool \<Rightarrow> string \<times> disguiseAnswer list \<Rightarrow> bool" where
  "compatible direction listens r \<longleftrightarrow>
     fst r \<in> {''tcp'', ''tcpmux'', ''udp''} \<and> (fst r = ''udp'' \<longrightarrow> direction = ''reverse'' \<and> length (snd r) = 1) \<and>
     snd r \<noteq> [] \<and> list_all (answer_valid listens) (snd r)"

lemma yields_askTransportMode: "yields (askTransportMode direction listens) (compatible direction listens)"
proof -
  define ok where "ok r = (case r of None \<Rightarrow> True | Some (m, d) \<Rightarrow>
    m \<in> {''tcp'', ''tcpmux'', ''udp''} \<and> (m = ''udp'' \<longrightarrow> direction = ''reverse'') \<and> answer_valid listens d)" for r
  note v = yields_answers_valid [THEN yields_then]
  have tcp: "yields (askTCPVariant listens) (\<lambda>r. ok (Some r))"
    unfolding askTCPVariant_def by (intro yields_bind yields_if v yields_answer) (simp_all add: ok_def)
  have udp: "yields (askUDPVariant direction listens) ok"
    unfolding askUDPVariant_def by (intro yields_bind yields_if v yields_bind yields_answer) (simp_all add: ok_def)
  have fam: "yields (askFamily direction listens) ok"
    unfolding askFamily_def
    by (intro yields_bind yields_if udp v yields_then [OF tcp] yields_answer) (simp_all add: ok_def)
  show ?thesis
    unfolding askTransportMode_def
  proof (rule yields_then [OF yields_until [OF fam]])
    fix r assume r: "r \<noteq> None \<and> ok r"
    then obtain m d where [simp]: "r = Some (m, d)" by auto
    from r have md: "m \<in> {''tcp'', ''tcpmux'', ''udp''}" "m = ''udp'' \<longrightarrow> direction = ''reverse''" "answer_valid listens d"
      by (simp_all add: ok_def)
    show "yields (case the r of (mode, d) \<Rightarrow>
         if mode \<noteq> ''udp'' then
           then_ask (confirm False) (\<lambda>more.
             if more then then_ask (askDisguises listens [a_Type d]) (\<lambda>ds. answer (mode, d # ds))
             else answer (mode, [d]))
         else answer (mode, [d])) (compatible direction listens)"
      using md
      by (simp del: ) (intro conjI impI yields_if yields_bind yields_then [OF yields_askDisguises] yields_answer;
          simp add: compatible_def)
  qed
qed

end
