(* ===== verification/Wizard_File.thy ===== *)
theory Wizard_File
  imports Wizard
begin

text \<open>
  The configuration files the wizard writes: the renderers of \<open>wizard.go\<close> as the lines they print and
  the text of those lines, and how a TOML decoder reads such lines into the structs of \<open>config.go\<close>: a key belongs to
  the last table opened before it, every \<open>[[name]]\<close> appends a zero entry to the array of that name, and the struct tags say which
  field a key sets. \<open>time.ParseDuration\<close> is the argument \<open>pd\<close>.
\<close>

section \<open>Lines and text\<close>

datatype toml_value = TStr string | TInt int | TBool bool | TStrs "string list"

datatype toml_line = Blank | Comment string | Table string | Key string toml_value

text \<open>The verb \<open>%q\<close>, byte by byte; the bytes of non-ASCII characters are kept as they are.\<close>

definition hex_digit :: "nat \<Rightarrow> char" where
  "hex_digit d = char_of (if d < 10 then 48 + d else 87 + d)"

definition quote_char :: "char \<Rightarrow> string" where
  "quote_char c =
     (let n = (of_char c :: nat) in
      if n = 34 \<or> n = 92 then [CHR 0x5C, c]
      else if n = 7 then [CHR 0x5C, CHR ''a''] else if n = 8 then [CHR 0x5C, CHR ''b'']
      else if n = 12 then [CHR 0x5C, CHR ''f''] else if n = 10 then [CHR 0x5C, CHR ''n'']
      else if n = 13 then [CHR 0x5C, CHR ''r''] else if n = 9 then [CHR 0x5C, CHR ''t'']
      else if n = 11 then [CHR 0x5C, CHR ''v'']
      else if n < 32 \<or> n = 127 then [CHR 0x5C, CHR ''x'', hex_digit (n div 16), hex_digit (n mod 16)]
      else [c])"

definition quote :: "string \<Rightarrow> string" where
  "quote s = [CHR 0x22] @ concat (map quote_char s) @ [CHR 0x22]"

definition quotedList :: "string list \<Rightarrow> string" where
  "quotedList items = join (map quote items) '', ''"

fun value_text :: "toml_value \<Rightarrow> string" where
  "value_text (TStr s) = quote s"
| "value_text (TInt i) = itoa i"
| "value_text (TBool b) = (if b then ''true'' else ''false'')"
| "value_text (TStrs ss) = ''['' @ quotedList ss @ '']''"

fun line_text :: "toml_line \<Rightarrow> string" where
  "line_text Blank = []"
| "line_text (Comment s) = ''# '' @ s"
| "line_text (Table t) = ''[['' @ t @ '']]''"
| "line_text (Key k v) = k @ '' = '' @ value_text v"

definition toml_text :: "toml_line list \<Rightarrow> string" where
  "toml_text ls = concat (map (\<lambda>l. line_text l @ [CHR 0x0A]) ls)"

section \<open>The renderers\<close>

definition renderDisguiseBlock :: "disguiseAnswer \<Rightarrow> bool \<Rightarrow> toml_line list" where
  "renderDisguiseBlock d listens =
     [Table ''disguise'', Key ''type'' (TStr (a_Type d)), Key ''enabled'' (TBool True)]
     @ (if listens then [Key ''listen_addr'' (TStr (a_Addr d))]
        else [Key ''server_addr'' (TStr (a_Addr d))]
          @ (if a_BackupAddrs d \<noteq> [] then [Key ''backup_addrs'' (TStrs (a_BackupAddrs d))] else []))
     @ (if a_Type d = ''wss'' \<or> a_Type d = ''quic'' then
          [Key ''domain'' (TStr (a_Domain d))]
          @ (if a_Type d = ''wss'' then [Key ''path'' (TStr ''/ws'')] else [])
          @ (if listens then [Key ''cert_file'' (TStr (a_CertFile d)), Key ''key_file'' (TStr (a_KeyFile d))]
             else [Key ''insecure_skip_verify'' (TBool (a_Insecure d))])
        else [])
     @ (if a_Type d = ''kcp'' then
          [Key ''kcp_preset'' (TStr (a_KCPPreset d)), Key ''kcp_mtu'' (TInt (a_KCPMTU d)),
           Key ''kcp_interval'' (TInt (a_KCPInterval d)), Key ''kcp_resend'' (TInt (a_KCPResend d)),
           Key ''kcp_nodelay'' (TInt (a_KCPNoDelay d)), Key ''kcp_nocongestion'' (TInt (a_KCPNoCongestion d)),
           Key ''kcp_acknodelay'' (TBool (a_KCPAckNoDelay d)), Key ''kcp_sndwnd'' (TInt (a_KCPSndWnd d)),
           Key ''kcp_rcvwnd'' (TInt (a_KCPRcvWnd d)), Key ''kcp_datashards'' (TInt (a_KCPDataShards d)),
           Key ''kcp_parityshards'' (TInt (a_KCPParityShards d))]
        else [])"

definition renderTuningBlock :: "tierPreset \<Rightarrow> toml_line list" where
  "renderTuningBlock t =
     [Key ''heartbeat'' (TStr ''5s''), Key ''nodelay'' (TBool True), Key ''keepalive'' (TStr ''15s''),
      Key ''recv_buf'' (TInt (t_recvBuf t)), Key ''send_buf'' (TInt (t_sendBuf t)), Key ''dial_timeout'' (TStr ''8s''),
      Key ''buffer_size'' (TInt (t_bufferSize t)), Key ''mss'' (TInt 0), Key ''reuse_port'' (TBool False), Blank,
      Key ''min_idle'' (TInt (t_minIdle t)), Key ''max_idle'' (TInt (t_maxIdle t)), Key ''idle_grace'' (TStr ''20s''), Blank,
      Key ''max_streams_per_session'' (TInt (t_maxStreamsPerSession t)), Key ''mux_frame_size'' (TInt (t_muxFrameSize t)),
      Key ''mux_recv_buffer'' (TInt (t_muxRecvBuffer t)), Key ''mux_stream_buffer'' (TInt (t_muxStreamBuffer t)),
      Key ''mux_keepalive'' (TStr ''10s'')]"

definition RepoURL :: string where "RepoURL = ''https://github.com/Ali-Rahmanii/rmtunnel''"

definition render_head :: "string \<Rightarrow> string \<Rightarrow> string \<Rightarrow> toml_line list" where
  "render_head direction token mode =
     [Comment (''generated by the rmtunnel wizard '' @ [CHR 0xE2, CHR 0x80, CHR 0x94] @ '' '' @ RepoURL), Blank,
      Key ''mode'' (TStr mode), Key ''direction'' (TStr direction), Key ''token'' (TStr token), Blank]"

definition render_disguises :: "disguiseAnswer list \<Rightarrow> bool \<Rightarrow> toml_line list" where
  "render_disguises ds listens = concat (map (\<lambda>d. renderDisguiseBlock d listens @ [Blank]) ds)"

definition render_ports :: "PortMap list \<Rightarrow> toml_line list" where
  "render_ports ports =
     concat (map (\<lambda>p. [Table ''ports'', Key ''listen'' (TStr (Listen p)), Key ''target'' (TStr (Target p)),
                        Key ''udp'' (TBool (UDP p)), Blank]) ports)"

definition renderServerTOML ::
    "string \<Rightarrow> string \<Rightarrow> string \<Rightarrow> disguiseAnswer list \<Rightarrow> PortMap list \<Rightarrow> tierPreset \<Rightarrow> toml_line list" where
  "renderServerTOML direction token mode disguises ports tier =
     (let listens = (direction \<noteq> ''direct'') in
      render_head direction token mode @ renderTuningBlock tier @ [Blank]
      @ render_disguises disguises listens @ render_ports ports)"

definition renderClientTOML ::
    "string \<Rightarrow> string \<Rightarrow> string \<Rightarrow> disguiseAnswer list \<Rightarrow> tierPreset \<Rightarrow> toml_line list" where
  "renderClientTOML direction token mode disguises tier =
     (let listens = (direction = ''direct'') in
      render_head direction token mode
      @ [Key ''retry_min'' (TStr ''1s''), Key ''retry_max'' (TStr ''30s'')] @ renderTuningBlock tier @ [Blank]
      @ render_disguises disguises listens)"

section \<open>Reading the lines back\<close>

definition str_field :: "(string \<Rightarrow> 'r \<Rightarrow> 'r) \<Rightarrow> toml_value \<Rightarrow> 'r \<Rightarrow> 'r option" where
  "str_field f v r = (case v of TStr s \<Rightarrow> Some (f s r) | _ \<Rightarrow> None)"

definition int_field :: "(int \<Rightarrow> 'r \<Rightarrow> 'r) \<Rightarrow> toml_value \<Rightarrow> 'r \<Rightarrow> 'r option" where
  "int_field f v r = (case v of TInt i \<Rightarrow> Some (f i r) | _ \<Rightarrow> None)"

definition bool_field :: "(bool \<Rightarrow> 'r \<Rightarrow> 'r) \<Rightarrow> toml_value \<Rightarrow> 'r \<Rightarrow> 'r option" where
  "bool_field f v r = (case v of TBool b \<Rightarrow> Some (f b r) | _ \<Rightarrow> None)"

definition strs_field :: "(string list \<Rightarrow> 'r \<Rightarrow> 'r) \<Rightarrow> toml_value \<Rightarrow> 'r \<Rightarrow> 'r option" where
  "strs_field f v r = (case v of TStrs ss \<Rightarrow> Some (f ss r) | _ \<Rightarrow> None)"

text \<open>\<open>Duration.UnmarshalText\<close>.\<close>

definition dur_field :: "(string \<Rightarrow> int option) \<Rightarrow> (int \<Rightarrow> 'r \<Rightarrow> 'r) \<Rightarrow> toml_value \<Rightarrow> 'r \<Rightarrow> 'r option" where
  "dur_field pd f v r = (case v of TStr s \<Rightarrow> map_option (\<lambda>d. f d r) (pd s) | _ \<Rightarrow> None)"

definition config_tags :: "(string \<Rightarrow> int option) \<Rightarrow> (string \<times> (toml_value \<Rightarrow> Config \<Rightarrow> Config option)) list" where
  "config_tags pd =
    [(''direction'', str_field (\<lambda>x c. c\<lparr>Direction := x\<rparr>)), (''mode'', str_field (\<lambda>x c. c\<lparr>Mode := x\<rparr>)),
     (''token'', str_field (\<lambda>x c. c\<lparr>Token := x\<rparr>)), (''heartbeat'', dur_field pd (\<lambda>x c. c\<lparr>Heartbeat := x\<rparr>)),
     (''retry_min'', dur_field pd (\<lambda>x c. c\<lparr>RetryMin := x\<rparr>)), (''retry_max'', dur_field pd (\<lambda>x c. c\<lparr>RetryMax := x\<rparr>)),
     (''nodelay'', bool_field (\<lambda>x c. c\<lparr>Nodelay := x\<rparr>)), (''keepalive'', dur_field pd (\<lambda>x c. c\<lparr>KeepAlive := x\<rparr>)),
     (''recv_buf'', int_field (\<lambda>x c. c\<lparr>RecvBuf := x\<rparr>)), (''send_buf'', int_field (\<lambda>x c. c\<lparr>SendBuf := x\<rparr>)),
     (''dial_timeout'', dur_field pd (\<lambda>x c. c\<lparr>DialTimeout := x\<rparr>)), (''buffer_size'', int_field (\<lambda>x c. c\<lparr>BufferSize := x\<rparr>)),
     (''mss'', int_field (\<lambda>x c. c\<lparr>MSS := x\<rparr>)), (''reuse_port'', bool_field (\<lambda>x c. c\<lparr>ReusePort := x\<rparr>)),
     (''debug_pprof_addr'', str_field (\<lambda>x c. c\<lparr>DebugPprofAddr := x\<rparr>)),
     (''min_idle'', int_field (\<lambda>x c. c\<lparr>MinIdle := x\<rparr>)), (''max_idle'', int_field (\<lambda>x c. c\<lparr>MaxIdle := x\<rparr>)),
     (''idle_grace'', dur_field pd (\<lambda>x c. c\<lparr>IdleGrace := x\<rparr>)),
     (''max_streams_per_session'', int_field (\<lambda>x c. c\<lparr>MaxStreamsPerSession := x\<rparr>)),
     (''mux_frame_size'', int_field (\<lambda>x c. c\<lparr>MuxFrameSize := x\<rparr>)),
     (''mux_recv_buffer'', int_field (\<lambda>x c. c\<lparr>MuxRecvBuffer := x\<rparr>)),
     (''mux_stream_buffer'', int_field (\<lambda>x c. c\<lparr>MuxStreamBuffer := x\<rparr>)),
     (''mux_keepalive'', dur_field pd (\<lambda>x c. c\<lparr>MuxKeepAlive := x\<rparr>))]"

definition disguise_tags :: "(string \<times> (toml_value \<Rightarrow> DisguiseConfig \<Rightarrow> DisguiseConfig option)) list" where
  "disguise_tags =
    [(''type'', str_field (\<lambda>x d. d\<lparr>DType := x\<rparr>)), (''enabled'', bool_field (\<lambda>x d. d\<lparr>Enabled := x\<rparr>)),
     (''listen_addr'', str_field (\<lambda>x d. d\<lparr>ListenAddr := x\<rparr>)), (''server_addr'', str_field (\<lambda>x d. d\<lparr>ServerAddr := x\<rparr>)),
     (''backup_addrs'', strs_field (\<lambda>x d. d\<lparr>BackupAddrs := x\<rparr>)), (''domain'', str_field (\<lambda>x d. d\<lparr>Domain := x\<rparr>)),
     (''path'', str_field (\<lambda>x d. d\<lparr>Path := x\<rparr>)), (''cert_file'', str_field (\<lambda>x d. d\<lparr>CertFile := x\<rparr>)),
     (''key_file'', str_field (\<lambda>x d. d\<lparr>KeyFile := x\<rparr>)), (''decoy_root'', str_field (\<lambda>x d. d\<lparr>DecoyRoot := x\<rparr>)),
     (''insecure_skip_verify'', bool_field (\<lambda>x d. d\<lparr>Insecure := x\<rparr>)), (''kcp_preset'', str_field (\<lambda>x d. d\<lparr>KCPPreset := x\<rparr>)),
     (''kcp_mtu'', int_field (\<lambda>x d. d\<lparr>KCPMTU := x\<rparr>)), (''kcp_interval'', int_field (\<lambda>x d. d\<lparr>KCPInterval := x\<rparr>)),
     (''kcp_resend'', int_field (\<lambda>x d. d\<lparr>KCPResend := x\<rparr>)), (''kcp_nodelay'', int_field (\<lambda>x d. d\<lparr>KCPNoDelay := x\<rparr>)),
     (''kcp_nocongestion'', int_field (\<lambda>x d. d\<lparr>KCPNoCongestion := x\<rparr>)), (''kcp_sndwnd'', int_field (\<lambda>x d. d\<lparr>KCPSndWnd := x\<rparr>)),
     (''kcp_rcvwnd'', int_field (\<lambda>x d. d\<lparr>KCPRcvWnd := x\<rparr>)), (''kcp_acknodelay'', bool_field (\<lambda>x d. d\<lparr>KCPAckNoDelay := x\<rparr>)),
     (''kcp_datashards'', int_field (\<lambda>x d. d\<lparr>KCPDataShards := x\<rparr>)),
     (''kcp_parityshards'', int_field (\<lambda>x d. d\<lparr>KCPParityShards := x\<rparr>))]"

definition port_tags :: "(string \<times> (toml_value \<Rightarrow> PortMap \<Rightarrow> PortMap option)) list" where
  "port_tags =
    [(''listen'', str_field (\<lambda>x p. p\<lparr>Listen := x\<rparr>)), (''target'', str_field (\<lambda>x p. p\<lparr>Target := x\<rparr>)),
     (''udp'', bool_field (\<lambda>x p. p\<lparr>UDP := x\<rparr>))]"

definition set_field :: "(string \<times> (toml_value \<Rightarrow> 'r \<Rightarrow> 'r option)) list \<Rightarrow> string \<Rightarrow> toml_value \<Rightarrow> 'r \<Rightarrow> 'r option" where
  "set_field tags k v r = (case map_of tags k of None \<Rightarrow> None | Some f \<Rightarrow> f v r)"

text \<open>The table that is open.\<close>

datatype toml_table = Top | InDisguise DisguiseConfig | InPorts PortMap | InUnknown

definition close_table :: "toml_table \<Rightarrow> Config \<Rightarrow> Config" where
  "close_table t c =
     (case t of InDisguise d \<Rightarrow> c\<lparr>Disguise := Disguise c @ [d]\<rparr> | InPorts p \<Rightarrow> c\<lparr>Ports := Ports c @ [p]\<rparr> | _ \<Rightarrow> c)"

definition open_table :: "string \<Rightarrow> toml_table" where
  "open_table name =
     (if name = ''disguise'' then InDisguise zero_disguise
      else if name = ''ports'' then InPorts \<lparr>Listen = [], Target = [], UDP = False\<rparr>
      else InUnknown)"

text \<open>One key in the open table; \<open>None\<close>: the table has no such field, or the value is not of its type.\<close>

definition set_key :: "(string \<Rightarrow> int option) \<Rightarrow> string \<Rightarrow> toml_value \<Rightarrow> toml_table \<times> Config \<Rightarrow> (toml_table \<times> Config) option" where
  "set_key pd k v s =
     (case s of (t, c) \<Rightarrow>
        (case t of
           Top \<Rightarrow> map_option (Pair Top) (set_field (config_tags pd) k v c)
         | InDisguise d \<Rightarrow> map_option (\<lambda>d. (InDisguise d, c)) (set_field disguise_tags k v d)
         | InPorts p \<Rightarrow> map_option (\<lambda>p. (InPorts p, c)) (set_field port_tags k v p)
         | InUnknown \<Rightarrow> None))"

fun decode_lines :: "(string \<Rightarrow> int option) \<Rightarrow> toml_line list \<Rightarrow> toml_table \<times> Config \<Rightarrow> Config \<times> string list" where
  "decode_lines pd [] (t, c) = (close_table t c, [])"
| "decode_lines pd (Table name # ls) (t, c) = decode_lines pd ls (open_table name, close_table t c)"
| "decode_lines pd (Key k v # ls) s =
     (case set_key pd k v s of
        Some s' \<Rightarrow> decode_lines pd ls s'
      | None \<Rightarrow> (case decode_lines pd ls s of (c, undecoded) \<Rightarrow> (c, k # undecoded)))"
| "decode_lines pd (Blank # ls) s = decode_lines pd ls s"
| "decode_lines pd (Comment x # ls) s = decode_lines pd ls s"

text \<open>The durations the wizard writes.\<close>

definition parses_seconds :: "(string \<Rightarrow> int option) \<Rightarrow> bool" where
  "parses_seconds pd \<longleftrightarrow>
     pd ''1s'' = Some second \<and> pd ''5s'' = Some (5 * second) \<and> pd ''8s'' = Some (8 * second) \<and>
     pd ''10s'' = Some (10 * second) \<and> pd ''15s'' = Some (15 * second) \<and> pd ''20s'' = Some (20 * second) \<and>
     pd ''30s'' = Some (30 * second)"

section \<open>One line of a file is one line of text\<close>

lemma newline_quote_char: "CHR 0x0A \<notin> set (quote_char c)"
proof -
  have h: "hex_digit d \<noteq> CHR 0x0A" "CHR 0x0A \<noteq> hex_digit d" if "d < 16" for d
  proof -
    have "(of_char (hex_digit d) :: nat) \<noteq> of_char (CHR 0x0A)" using that by (simp add: hex_digit_def)
    then show "hex_digit d \<noteq> CHR 0x0A" "CHR 0x0A \<noteq> hex_digit d" by metis+
  qed
  have "(of_char c :: nat) div 16 < 16" by (rule less_mult_imp_div_less) simp
  with h show ?thesis by (auto simp: quote_char_def Let_def)
qed

lemma newline_quote: "CHR 0x0A \<notin> set (quote s)"
  using newline_quote_char by (auto simp: quote_def)

lemma newline_join: "c \<notin> set sep \<Longrightarrow> \<forall>w\<in>set ws. c \<notin> set w \<Longrightarrow> c \<notin> set (join ws sep)"
  by (induction ws sep rule: join.induct) auto

lemma newline_value: "CHR 0x0A \<notin> set (value_text v)"
proof (cases v)
  case (TStrs ss)
  have "CHR 0x0A \<notin> set (quotedList ss)"
    unfolding quotedList_def by (rule newline_join) (simp_all add: newline_quote)
  with TStrs show ?thesis by simp
qed (simp_all add: newline_quote newline_itoa)

section \<open>What the files decode to\<close>

text \<open>The configuration a tuning block sets.\<close>

definition tuned :: "tierPreset \<Rightarrow> Config \<Rightarrow> Config" where
  "tuned t c = c\<lparr>Heartbeat := 5 * second, Nodelay := True, KeepAlive := 15 * second, RecvBuf := t_recvBuf t,
     SendBuf := t_sendBuf t, DialTimeout := 8 * second, BufferSize := t_bufferSize t, MSS := 0, ReusePort := False,
     MinIdle := t_minIdle t, MaxIdle := t_maxIdle t, IdleGrace := 20 * second,
     MaxStreamsPerSession := t_maxStreamsPerSession t, MuxFrameSize := t_muxFrameSize t,
     MuxRecvBuffer := t_muxRecvBuffer t, MuxStreamBuffer := t_muxStreamBuffer t, MuxKeepAlive := 10 * second\<rparr>"

lemma decode_head:
  "decode_lines pd (render_head direction token mode @ ls) (Top, c) =
     decode_lines pd ls (Top, c\<lparr>Mode := mode, Direction := direction, Token := token\<rparr>)"
  by (simp add: render_head_def set_key_def set_field_def config_tags_def str_field_def)

lemma decode_retry:
  assumes "parses_seconds pd"
  shows "decode_lines pd ([Key ''retry_min'' (TStr ''1s''), Key ''retry_max'' (TStr ''30s'')] @ ls) (Top, c) =
     decode_lines pd ls (Top, c\<lparr>RetryMin := second, RetryMax := 30 * second\<rparr>)"
  using assms by (simp add: set_key_def set_field_def config_tags_def dur_field_def parses_seconds_def)

lemma decode_tuning:
  assumes "parses_seconds pd"
  shows "decode_lines pd (renderTuningBlock t @ ls) (Top, c) = decode_lines pd ls (Top, tuned t c)"
  using assms
  by (simp add: renderTuningBlock_def set_key_def set_field_def config_tags_def str_field_def int_field_def bool_field_def
      dur_field_def parses_seconds_def tuned_def)

text \<open>A block decodes to what \<open>disguiseAnswersToConfig\<close> makes of the answer.\<close>

definition disguise_of :: "bool \<Rightarrow> disguiseAnswer \<Rightarrow> DisguiseConfig" where
  "disguise_of listens d = hd (disguiseAnswersToConfig [d] listens)"

lemma disguise_keys:
  "set_key pd ''type'' (TStr x) (InDisguise d, c) = Some (InDisguise (d\<lparr>DType := x\<rparr>), c)"
  "set_key pd ''enabled'' (TBool b) (InDisguise d, c) = Some (InDisguise (d\<lparr>Enabled := b\<rparr>), c)"
  "set_key pd ''listen_addr'' (TStr x) (InDisguise d, c) = Some (InDisguise (d\<lparr>ListenAddr := x\<rparr>), c)"
  "set_key pd ''server_addr'' (TStr x) (InDisguise d, c) = Some (InDisguise (d\<lparr>ServerAddr := x\<rparr>), c)"
  "set_key pd ''backup_addrs'' (TStrs ss) (InDisguise d, c) = Some (InDisguise (d\<lparr>BackupAddrs := ss\<rparr>), c)"
  "set_key pd ''domain'' (TStr x) (InDisguise d, c) = Some (InDisguise (d\<lparr>Domain := x\<rparr>), c)"
  "set_key pd ''path'' (TStr x) (InDisguise d, c) = Some (InDisguise (d\<lparr>Path := x\<rparr>), c)"
  "set_key pd ''cert_file'' (TStr x) (InDisguise d, c) = Some (InDisguise (d\<lparr>CertFile := x\<rparr>), c)"
  "set_key pd ''key_file'' (TStr x) (InDisguise d, c) = Some (InDisguise (d\<lparr>KeyFile := x\<rparr>), c)"
  "set_key pd ''decoy_root'' (TStr x) (InDisguise d, c) = Some (InDisguise (d\<lparr>DecoyRoot := x\<rparr>), c)"
  "set_key pd ''insecure_skip_verify'' (TBool b) (InDisguise d, c) = Some (InDisguise (d\<lparr>Insecure := b\<rparr>), c)"
  "set_key pd ''kcp_preset'' (TStr x) (InDisguise d, c) = Some (InDisguise (d\<lparr>KCPPreset := x\<rparr>), c)"
  "set_key pd ''kcp_mtu'' (TInt n) (InDisguise d, c) = Some (InDisguise (d\<lparr>KCPMTU := n\<rparr>), c)"
  "set_key pd ''kcp_interval'' (TInt n) (InDisguise d, c) = Some (InDisguise (d\<lparr>KCPInterval := n\<rparr>), c)"
  "set_key pd ''kcp_resend'' (TInt n) (InDisguise d, c) = Some (InDisguise (d\<lparr>KCPResend := n\<rparr>), c)"
  "set_key pd ''kcp_nodelay'' (TInt n) (InDisguise d, c) = Some (InDisguise (d\<lparr>KCPNoDelay := n\<rparr>), c)"
  "set_key pd ''kcp_nocongestion'' (TInt n) (InDisguise d, c) = Some (InDisguise (d\<lparr>KCPNoCongestion := n\<rparr>), c)"
  "set_key pd ''kcp_sndwnd'' (TInt n) (InDisguise d, c) = Some (InDisguise (d\<lparr>KCPSndWnd := n\<rparr>), c)"
  "set_key pd ''kcp_rcvwnd'' (TInt n) (InDisguise d, c) = Some (InDisguise (d\<lparr>KCPRcvWnd := n\<rparr>), c)"
  "set_key pd ''kcp_acknodelay'' (TBool b) (InDisguise d, c) = Some (InDisguise (d\<lparr>KCPAckNoDelay := b\<rparr>), c)"
  "set_key pd ''kcp_datashards'' (TInt n) (InDisguise d, c) = Some (InDisguise (d\<lparr>KCPDataShards := n\<rparr>), c)"
  "set_key pd ''kcp_parityshards'' (TInt n) (InDisguise d, c) = Some (InDisguise (d\<lparr>KCPParityShards := n\<rparr>), c)"
  by (simp_all add: set_key_def set_field_def disguise_tags_def str_field_def int_field_def bool_field_def strs_field_def)

lemma decode_disguise:
  assumes "answer_valid listens d"
  shows "decode_lines pd (renderDisguiseBlock d listens @ ls) (t, c) =
     decode_lines pd ls (InDisguise (disguise_of listens d), close_table t c)"
proof -
  note block = renderDisguiseBlock_def open_table_def disguise_keys disguise_of_def disguiseAnswersToConfig_def zero_disguise_def
  from assms have "a_Type d \<in> {''plain'', ''noise'', ''wss'', ''kcp'', ''quic''}" by (simp add: answer_valid_def)
  with assms show ?thesis
    by (cases listens; elim insertE) (simp_all add: block answer_valid_def no_kcp_def)
qed

lemma decode_ports:
  "decode_lines pd (render_ports ps) (t, c) = ((close_table t c)\<lparr>Ports := Ports (close_table t c) @ ps\<rparr>, [])"
proof (induction ps arbitrary: t c)
  case (Cons p ps)
  have "decode_lines pd (render_ports (p # ps)) (t, c) = decode_lines pd (render_ports ps) (InPorts p, close_table t c)"
    by (cases p) (simp add: render_ports_def open_table_def set_key_def set_field_def port_tags_def str_field_def bool_field_def)
  with Cons show ?case by (simp add: close_table_def)
qed (simp add: render_ports_def)

lemma decode_blocks:
  assumes "list_all (answer_valid listens) ds"
  shows "decode_lines pd (render_disguises ds listens @ render_ports ps) (t, c) =
    ((close_table t c)\<lparr>Disguise := Disguise (close_table t c) @ disguiseAnswersToConfig ds listens,
       Ports := Ports (close_table t c) @ ps\<rparr>, [])"
  using assms
proof (induction ds arbitrary: t c)
  case Nil
  show ?case by (simp add: render_disguises_def decode_ports disguiseAnswersToConfig_def)
next
  case (Cons d ds)
  then have "decode_lines pd (render_disguises (d # ds) listens @ render_ports ps) (t, c) =
      decode_lines pd (render_disguises ds listens @ render_ports ps) (InDisguise (disguise_of listens d), close_table t c)"
    by (simp add: render_disguises_def decode_disguise)
  with Cons show ?case
    by (simp add: close_table_def disguise_of_def disguiseAnswersToConfig_def)
qed

lemma decode_server_file:
  assumes "parses_seconds pd" "list_all (answer_valid (direction \<noteq> ''direct'')) ds"
  shows "decode_lines pd (renderServerTOML direction token mode ds ports tier) (Top, c) =
    ((tuned tier (c\<lparr>Mode := mode, Direction := direction, Token := token\<rparr>))
       \<lparr>Disguise := Disguise c @ disguiseAnswersToConfig ds (direction \<noteq> ''direct''), Ports := Ports c @ ports\<rparr>, [])"
  unfolding renderServerTOML_def Let_def decode_head append_assoc decode_tuning [OF assms(1)]
  by (simp add: decode_blocks [OF assms(2)]) (simp add: close_table_def tuned_def)

lemma decode_client_file:
  assumes "parses_seconds pd" "list_all (answer_valid (direction = ''direct'')) ds"
  shows "decode_lines pd (renderClientTOML direction token mode ds tier) (Top, c) =
    ((tuned tier (c\<lparr>Mode := mode, Direction := direction, Token := token, RetryMin := second, RetryMax := 30 * second\<rparr>))
       \<lparr>Disguise := Disguise c @ disguiseAnswersToConfig ds (direction = ''direct'')\<rparr>, [])"
proof -
  have "decode_lines pd (renderClientTOML direction token mode ds tier) (Top, c) =
      decode_lines pd (render_disguises ds (direction = ''direct'') @ render_ports [])
        (Top, tuned tier (c\<lparr>Mode := mode, Direction := direction, Token := token, RetryMin := second, RetryMax := 30 * second\<rparr>))"
    unfolding renderClientTOML_def Let_def decode_head append_assoc decode_retry [OF assms(1)] decode_tuning [OF assms(1)]
    by (simp add: render_ports_def)
  then show ?thesis unfolding decode_blocks [OF assms(2)] by (simp add: close_table_def tuned_def)
qed

lemma newline_lines:
  assumes "\<forall>l\<in>set ls. case l of Comment s \<Rightarrow> CHR 0x0A \<notin> set s | Table s \<Rightarrow> CHR 0x0A \<notin> set s | Key k v \<Rightarrow> CHR 0x0A \<notin> set k | Blank \<Rightarrow> True"
  shows "split_char (toml_text ls) CHR 0x0A = map line_text ls @ [[]]"
proof -
  have split: "split_char (w @ CHR 0x0A # r) CHR 0x0A = w # split_char r CHR 0x0A" if "CHR 0x0A \<notin> set w" for w r
    using that by (induction w) auto
  show ?thesis using assms
  proof (induction ls)
    case (Cons l ls)
    then have "CHR 0x0A \<notin> set (line_text l)" using newline_value by (cases l) auto
    with Cons split show ?case by (simp add: toml_text_def)
  qed (simp add: toml_text_def)
qed

end
