(* ===== verification/Wizard_Build.thy ===== *)
theory Wizard_Build
  imports Wizard_File Tunnels
begin

text \<open>
  Building and editing a tunnel: the two wizards of \<open>wizard.go\<close> from the first question to the saved file, and
  \<open>editTunnelBody\<close> of \<open>tunnels.go\<close>. What the box says (which files exist, whether saving works, random bytes) is in
  a record. Installing and restarting the service is only an answer.
\<close>

section \<open>Small helpers\<close>

text \<open>\<open>hex.EncodeToString\<close> of the random bytes.\<close>

definition genToken :: "bytes \<Rightarrow> string" where
  "genToken b = concat (map (\<lambda>x. [hex_digit (unat x div 16), hex_digit (unat x mod 16)]) b)"

definition last_index :: "string \<Rightarrow> char \<Rightarrow> nat option" where
  "last_index s c = map_option (\<lambda>i. length s - 1 - i) (index_char (rev s) c)"

text \<open>The host of \<open>net.SplitHostPort\<close>, or \<open>None\<close> for any of its errors.\<close>

definition splitHostPort :: "string \<Rightarrow> string option" where
  "splitHostPort s =
     (case last_index s CHR '':'' of
        None \<Rightarrow> None
      | Some i \<Rightarrow>
          let bracket = (s \<noteq> [] \<and> hd s = CHR ''['') in
          case (if bracket then index_char s CHR '']'' else Some 0) of
            None \<Rightarrow> None
          | Some e \<Rightarrow>
              if bracket \<and> e + 1 \<noteq> i then None
              else (let host = (if bracket then take (e - 1) (drop 1 s) else take i s);
                        j = (if bracket then 1 else 0); k = (if bracket then e + 1 else 0) in
                    if \<not> bracket \<and> CHR '':'' \<in> set host then None
                    else if CHR ''['' \<in> set (drop j s) then None
                    else if CHR '']'' \<in> set (drop k s) then None
                    else Some host))"

definition hostOnly :: "string \<Rightarrow> string" where
  "hostOnly addr = (case splitHostPort addr of None \<Rightarrow> addr | Some host \<Rightarrow> host)"

record wizard_env =
  we_bench :: bench_env
  we_exists :: "string \<Rightarrow> bool"
  we_random :: bytes
  we_saves :: "string \<Rightarrow> bool"

definition askTunnelName :: "wizard_env \<Rightarrow> string \<Rightarrow> string ask" where
  "askTunnelName env role =
     then_ask (ask_until (\<lambda>r. r \<noteq> None)
       (then_ask (readLineDefault ''main'') (\<lambda>name.
          if isValidTunnelName name then
            (if we_exists env (tunnelConfigPath role name) then
               then_ask (confirm False) (\<lambda>yes. answer (if yes then Some name else None))
             else answer (Some name))
          else answer None)))
     (\<lambda>r. answer (the r))"

section \<open>The wizards\<close>

record built =
  b_name :: string
  b_direction :: string
  b_token :: string
  b_mode :: string
  b_disguises :: "disguiseAnswer list"
  b_ports :: "PortMap list"
  b_tier :: tierPreset
  b_lines :: "toml_line list"

text \<open>
  \<open>finishWizard\<close> on Linux: the path, the text, and whether the service was asked for; \<open>None\<close> when saving failed.
\<close>

definition finishWizard :: "wizard_env \<Rightarrow> string \<Rightarrow> string \<Rightarrow> string \<Rightarrow> (string \<times> string \<times> bool option) ask" where
  "finishWizard env role name tomlText =
     then_ask (readLineDefault (tunnelConfigPath role name)) (\<lambda>path.
       if \<not> we_saves env path then then_ask pressEnter (\<lambda>u. answer (path, tomlText, None))
       else then_ask (confirm True) (\<lambda>install. then_ask pressEnter (\<lambda>u. answer (path, tomlText, Some install))))"

text \<open>\<open>HandOver role name\<close>: the rest is the paqet wizard's.\<close>

datatype wizard_result = HandOver string string | Built built "string \<times> string \<times> bool option"

definition wizardServerRest :: "wizard_env \<Rightarrow> string \<Rightarrow> wizard_result ask" where
  "wizardServerRest env direction =
     (let listens = (direction \<noteq> ''direct'') in
      then_ask (askTransportMode direction listens) (\<lambda>r.
      then_ask (askTunnelName env ''server'') (\<lambda>name.
      then_ask (readLineDefault []) (\<lambda>typed.
        let token = (if typed = [] then genToken (we_random env) else typed) in
      then_ask (askPorts (fst r = ''udp'')) (\<lambda>ports.
      then_ask (readLineDefault (if listens then [] else hostOnly (a_Addr (hd (snd r))))) (\<lambda>kharejHost.
      then_ask (askTierPreset (we_bench env) kharejHost) (\<lambda>tier.
        let ls = renderServerTOML direction token (fst r) (snd r) ports tier in
      then_ask (finishWizard env ''server'' name (toml_text ls)) (\<lambda>out.
        answer (Built \<lparr>b_name = name, b_direction = direction, b_token = token, b_mode = fst r, b_disguises = snd r,
                       b_ports = ports, b_tier = tier, b_lines = ls\<rparr> out)))))))))"

definition wizardServerBody :: "wizard_env \<Rightarrow> wizard_result ask" where
  "wizardServerBody env =
     then_ask askDirection (\<lambda>direction.
       if direction = ''direct'' then
         then_ask askDirectEngine (\<lambda>engine.
           if engine = ''paqet'' then then_ask (askTunnelName env ''paqet-client'') (\<lambda>name. answer (HandOver ''paqet-client'' name))
           else wizardServerRest env direction)
       else wizardServerRest env direction)"

definition wizardClientRest :: "wizard_env \<Rightarrow> string \<Rightarrow> wizard_result ask" where
  "wizardClientRest env direction =
     (let listens = (direction = ''direct'') in
      then_ask (askTransportMode direction listens) (\<lambda>r.
      then_ask (askTunnelName env ''client'') (\<lambda>name.
      then_ask (ask_until (\<lambda>t. t \<noteq> []) (readLineDefault [])) (\<lambda>token.
      then_ask (askTierPreset (we_bench env) (if listens then [] else hostOnly (a_Addr (hd (snd r))))) (\<lambda>tier.
        let ls = renderClientTOML direction token (fst r) (snd r) tier in
      then_ask (finishWizard env ''client'' name (toml_text ls)) (\<lambda>out.
        answer (Built \<lparr>b_name = name, b_direction = direction, b_token = token, b_mode = fst r, b_disguises = snd r,
                       b_ports = [], b_tier = tier, b_lines = ls\<rparr> out)))))))"

definition wizardClientBody :: "wizard_env \<Rightarrow> wizard_result ask" where
  "wizardClientBody env =
     then_ask askDirection (\<lambda>direction.
       if direction = ''direct'' then
         then_ask askDirectEngine (\<lambda>engine.
           if engine = ''paqet'' then then_ask (askTunnelName env ''paqet-server'') (\<lambda>name. answer (HandOver ''paqet-server'' name))
           else wizardClientRest env direction)
       else wizardClientRest env direction)"

definition wizardServer :: "wizard_env \<Rightarrow> wizard_result option ask" where
  "wizardServer env = runWizard (wizardServerBody env)"

definition wizardClient :: "wizard_env \<Rightarrow> wizard_result option ask" where
  "wizardClient env = runWizard (wizardClientBody env)"

section \<open>Editing\<close>

text \<open>
  \<open>editTunnelBody\<close> on the loaded configuration. \<open>editChoice\<close> is its choice; it goes on with \<open>save\<close>, or ends with \<open>same\<close>
  when nothing was changed. \<open>editTunnelBody\<close> yields the configuration that is saved, if any.
\<close>

definition saveEdit :: "bool \<Rightarrow> Config \<Rightarrow> Config option ask" where
  "saveEdit saved cfg =
     (if \<not> saved then then_ask pressEnter (\<lambda>u. answer None)
      else then_ask (confirm True) (\<lambda>restart. then_ask pressEnter (\<lambda>u. answer (Some cfg))))"

definition editChoice :: "wizard_env \<Rightarrow> string \<Rightarrow> Config \<Rightarrow> 'r \<Rightarrow> (Config \<Rightarrow> 'r ask) \<Rightarrow> 'r ask" where
  "editChoice env role cfg same save =
     (let listens = (\<not> dialsOut cfg);
          isServer = (role = ''server'');
          disguiseOpt = (if isServer then ''3'' else ''2'');
          tierOpt = (if isServer then ''4'' else ''3'') in
      then_ask readLine (\<lambda>choice.
        if choice = ''1'' then
          then_ask (readLineDefault (Token cfg)) (\<lambda>token. save (cfg\<lparr>Token := token\<rparr>))
        else if isServer \<and> choice = ''2'' then
          then_ask (askPorts (Mode cfg = ''udp'')) (\<lambda>ports. save (cfg\<lparr>Ports := ports\<rparr>))
        else if choice = disguiseOpt then
          then_ask (askDisguises listens []) (\<lambda>ds. save (cfg\<lparr>Disguise := disguiseAnswersToConfig ds listens\<rparr>))
        else if choice = tierOpt then
          then_ask (askTierPreset (we_bench env) []) (\<lambda>tier. save (applyTierToConfig cfg tier))
        else answer same))"

definition editTunnelBody :: "wizard_env \<Rightarrow> string \<Rightarrow> string \<Rightarrow> Config \<Rightarrow> Config option ask" where
  "editTunnelBody env role path cfg = editChoice env role cfg None (saveEdit (we_saves env path))"

definition editTunnel :: "wizard_env \<Rightarrow> string \<Rightarrow> string \<Rightarrow> Config \<Rightarrow> Config option option ask" where
  "editTunnel env role path cfg = runWizard (editTunnelBody env role path cfg)"

section \<open>What the wizards yield\<close>

lemma yields_askTunnelName: "yields (askTunnelName env role) isValidTunnelName"
proof -
  let ?q = "then_ask (readLineDefault ''main'') (\<lambda>name.
     if isValidTunnelName name then
       (if we_exists env (tunnelConfigPath role name) then
          then_ask (confirm False) (\<lambda>yes. answer (if yes then Some name else None))
        else answer (Some name))
     else answer None)"
  have "yields ?q (\<lambda>r. r \<noteq> None \<longrightarrow> isValidTunnelName (the r))"
    by (intro yields_bind yields_if yields_answer) auto
  from yields_until [OF this, of "\<lambda>r. r \<noteq> None"] show ?thesis
    unfolding askTunnelName_def by (rule yields_then) (rule yields_answer, blast)
qed

text \<open>What a finished wizard of a role with the given renderer has settled.\<close>

definition settled :: "string \<Rightarrow> built \<Rightarrow> string \<times> string \<times> bool option \<Rightarrow> bool" where
  "settled role b out \<longleftrightarrow>
     (let listens = ((role = ''server'') = (b_direction b \<noteq> ''direct'')) in
      isValidTunnelName (b_name b) \<and> b_token b \<noteq> [] \<and> b_direction b \<in> {''reverse'', ''direct''} \<and>
      compatible (b_direction b) listens (b_mode b, b_disguises b) \<and> usable_tier (b_tier b) \<and>
      (role = ''server'' \<longrightarrow> b_ports b \<noteq> []) \<and>
      b_lines b = (if role = ''server''
        then renderServerTOML (b_direction b) (b_token b) (b_mode b) (b_disguises b) (b_ports b) (b_tier b)
        else renderClientTOML (b_direction b) (b_token b) (b_mode b) (b_disguises b) (b_tier b)) \<and>
      fst (snd out) = toml_text (b_lines b))"

lemma yields_finishWizard: "yields (finishWizard env role name txt) (\<lambda>out. fst (snd out) = txt)"
  unfolding finishWizard_def by (intro yields_bind yields_if yields_answer) simp_all

lemma genToken_nonempty: "b \<noteq> [] \<Longrightarrow> genToken b \<noteq> []"
  by (cases b) (simp_all add: genToken_def)

definition result_ok :: "string \<Rightarrow> wizard_result \<Rightarrow> bool" where
  "result_ok role r = (case r of HandOver role' n \<Rightarrow> role' \<in> set tunnelRoles \<and> isValidTunnelName n | Built b out \<Rightarrow> settled role b out)"

lemma yields_wizardServer:
  assumes "we_random env \<noteq> []"
  shows "yields (wizardServerBody env) (result_ok ''server'')"
proof -
  have rest: "yields (wizardServerRest env direction) (result_ok ''server'')"
    if "direction \<in> {''reverse'', ''direct''}" for direction
    unfolding wizardServerRest_def Let_def
    by (intro yields_then [OF yields_askTransportMode] yields_then [OF yields_askTunnelName] yields_bind
        yields_then [OF askPorts_nonempty] yields_then [OF yields_tier] yields_then [OF yields_finishWizard] yields_answer)
      (use that genToken_nonempty [OF assms] in \<open>auto simp: result_ok_def settled_def\<close>)
  have dir: "yields askDirection (\<lambda>d. d \<in> {''reverse'', ''direct''})"
    unfolding askDirection_def by (intro yields_bind yields_answer) simp
  show ?thesis
    unfolding wizardServerBody_def
    by (intro yields_then [OF dir] yields_bind yields_if rest yields_then [OF yields_askTunnelName] yields_answer)
      (auto simp: result_ok_def tunnelRoles_def)
qed

lemma yields_wizardClient: "yields (wizardClientBody env) (result_ok ''client'')"
proof -
  have rest: "yields (wizardClientRest env direction) (result_ok ''client'')"
    if "direction \<in> {''reverse'', ''direct''}" for direction
    unfolding wizardClientRest_def Let_def
    by (intro yields_then [OF yields_askTransportMode] yields_then [OF yields_askTunnelName]
        yields_then [OF yields_until [OF yields_any]] yields_then [OF yields_tier] yields_then [OF yields_finishWizard]
        yields_answer)
      (use that in \<open>auto simp: result_ok_def settled_def\<close>)
  have dir: "yields askDirection (\<lambda>d. d \<in> {''reverse'', ''direct''})"
    unfolding askDirection_def by (intro yields_bind yields_answer) simp
  show ?thesis
    unfolding wizardClientBody_def
    by (intro yields_then [OF dir] yields_bind yields_if rest yields_then [OF yields_askTunnelName] yields_answer)
      (auto simp: result_ok_def tunnelRoles_def)
qed

section \<open>Properties\<close>

definition sample_env :: wizard_env where
  "sample_env = \<lparr>we_bench = \<lparr>be_rnd = (\<lambda>x. x), be_cores = 4, be_ram = (4096, True), be_parseFloat = (\<lambda>s. None),
     be_measureLink = (\<lambda>a t. None)\<rparr>, we_exists = (\<lambda>p. False), we_random = [1, 2], we_saves = (\<lambda>p. True)\<rparr>"

definition sample_seconds :: "string \<Rightarrow> int option" where
  "sample_seconds s = map_option (\<lambda>n. n * second) (atoi (trimSuffix s ''s''))"

lemma sample_parses_seconds: "parses_seconds sample_seconds"
  by (simp add: parses_seconds_def sample_seconds_def trimSuffix_def hasSuffix_def atoi_def char_digit_def)

lemmas ask_simps = then_ask_def answer_def readLine_def readLineDefault_def trimSpace_def is_space_def askChoice_def confirm_def
  pressEnter_def lower_char_def ask_until_def

lemmas number_simps = indexFromChoice_def sscanf_d_def is_digit_def char_digit_def atoi_def parseIntDefault_def askInt_def

lemma sample_client_wizard:
  "\<exists>b out rest. wizardClientBody sample_env
     [''1'', ''1'', ''2'', ''h'', [], [], [], [], ''s'', ''3'', ''2'', [], ''n'', []] = Answer (Built b out) rest \<and>
   (\<forall>d\<in>set (b_disguises b). \<not> half_fec d) \<and> b_mode b = ''tcpmux''"
  by (simp add: ask_simps number_simps wizardClientBody_def wizardClientRest_def askDirection_def askTransportMode_def
      askFamily_def askTCPVariant_def askPlainDisguiseAnswer_def askPeerAddr_def askBackups_def askBackupAddrs_def
      askTunnelName_def sample_env_def isValidTunnelName_def name_char_def askTierPreset_def askStaticTier_def
      tiers_def finishWizard_def half_fec_def answer_of_type_def Let_def
      del: then_ask_assoc then_ask_if)

text \<open>What the file of a finished wizard decodes to, from the defaults of its role.\<close>

definition built_config :: "string \<Rightarrow> built \<Rightarrow> Config" where
  "built_config role b =
     (let listens = ((role = ''server'') = (b_direction b \<noteq> ''direct''));
          c = (defaultConfig\<lparr>Role := role\<rparr>)\<lparr>Mode := b_mode b, Direction := b_direction b, Token := b_token b\<rparr> in
      (tuned (b_tier b) c)\<lparr>Disguise := disguiseAnswersToConfig (b_disguises b) listens,
         Ports := (if role = ''server'' then b_ports b else [])\<rparr>)"

lemma settled_decodes:
  assumes "settled role b out" "role \<in> {''server'', ''client''}" "parses_seconds pd"
  shows "decode_lines pd (b_lines b) (Top, defaultConfig\<lparr>Role := role\<rparr>) = (built_config role b, [])"
proof (cases "role = ''server''")
  case True
  with assms(1) have v: "list_all (answer_valid (b_direction b \<noteq> ''direct'')) (b_disguises b)"
    and l: "b_lines b = renderServerTOML (b_direction b) (b_token b) (b_mode b) (b_disguises b) (b_ports b) (b_tier b)"
    by (simp_all add: settled_def compatible_def)
  show ?thesis
    unfolding l decode_server_file [OF assms(3) v] by (simp add: built_config_def tuned_def defaultConfig_def True)
next
  case False
  then have r: "role = ''client''" using assms(2) by simp
  with assms(1) have v: "list_all (answer_valid (b_direction b = ''direct'')) (b_disguises b)"
    and l: "b_lines b = renderClientTOML (b_direction b) (b_token b) (b_mode b) (b_disguises b) (b_tier b)"
    by (simp_all add: settled_def compatible_def)
  show ?thesis
    unfolding l decode_client_file [OF assms(3) v] by (simp add: built_config_def tuned_def defaultConfig_def r)
qed

lemma disguises_default_path:
  assumes "list_all (answer_valid listens) ds"
  shows "map default_path (disguiseAnswersToConfig ds listens') = disguiseAnswersToConfig ds listens'"
  using assms
  by (simp add: disguiseAnswersToConfig_def list_all_iff)
    (auto simp: default_path_def answer_valid_def Let_def)

lemma settled_valid:
  assumes "settled role b out" "role \<in> {''server'', ''client''}"
  shows "valid_config (built_config role b) \<longleftrightarrow> (\<forall>d\<in>set (b_disguises b). \<not> half_fec d)"
proof -
  define listens where "listens = ((role = ''server'') = (b_direction b \<noteq> ''direct''))"
  have s: "compatible (b_direction b) listens (b_mode b, b_disguises b)" "b_token b \<noteq> []"
      "b_direction b \<in> {''reverse'', ''direct''}" "usable_tier (b_tier b)" "role = ''server'' \<longrightarrow> b_ports b \<noteq> []"
    using assms(1) by (simp_all add: settled_def listens_def Let_def)
  have d: "dialsOut (built_config role b) = (\<not> listens)"
    using s(3) assms(2) by (auto simp: dialsOut_def built_config_def tuned_def listens_def Let_def)
  have ds: "Disguise (built_config role b) = disguiseAnswersToConfig (b_disguises b) listens"
    by (simp add: built_config_def listens_def Let_def)
  have v: "list_all (answer_valid listens) (b_disguises b)" "b_disguises b \<noteq> []" using s(1) by (simp_all add: compatible_def)
  note half = valid_disguises_answers [OF v(1)]
  have en: "\<forall>d\<in>set (disguiseAnswersToConfig (b_disguises b) listens). Enabled d" "disguiseAnswersToConfig (b_disguises b) listens \<noteq> []"
    using v(2) by (auto simp: disguiseAnswersToConfig_def Let_def)
  have "valid_config (built_config role b) \<longleftrightarrow>
      (\<forall>d\<in>set (disguiseAnswersToConfig (b_disguises b) listens). Enabled d \<longrightarrow> valid_disguise (\<not> listens) d)"
    unfolding valid_config_def d ds using s en
    by (auto simp: built_config_def tuned_def compatible_def usable_tier_def Let_def neq_Nil_conv)
  with half en(1) show ?thesis by blast
qed

lemma wizard_writes_loadable:
  assumes "(if role = ''server'' then wizardServerBody env else wizardClientBody env) inp = Answer (Built b out) rest"
    and "role \<in> {''server'', ''client''}" "we_random env \<noteq> []" "parses_seconds pd"
  shows "isValidTunnelName (b_name b) \<and>
    snd (decode_lines pd (b_lines b) (Top, defaultConfig\<lparr>Role := role\<rparr>)) = [] \<and>
    fst (snd out) = toml_text (b_lines b) \<and>
    (if \<exists>d\<in>set (b_disguises b). half_fec d
     then \<exists>e. LoadConfig (\<lambda>p c. Inr (decode_lines pd (b_lines b) (Top, c))) path role = Inl (Invalid e)
     else LoadConfig (\<lambda>p c. Inr (decode_lines pd (b_lines b) (Top, c))) path role = Inr (built_config role b))"
proof -
  have "yields (if role = ''server'' then wizardServerBody env else wizardClientBody env) (result_ok role)"
    using assms(2) yields_wizardServer [OF assms(3)] yields_wizardClient [of env]
    by (cases "role = ''server''") simp_all
  with assms(1) have "result_ok role (Built b out)" unfolding yields_def by blast
  then have s: "settled role b out" by (simp add: result_ok_def)
  then have n: "isValidTunnelName (b_name b)" "fst (snd out) = toml_text (b_lines b)"
    unfolding settled_def Let_def by blast+
  note d = settled_decodes [OF s assms(2,4)] and v = settled_valid [OF s assms(2)]
  have p: "(built_config role b)\<lparr>Disguise := map default_path (Disguise (built_config role b))\<rparr> = built_config role b"
  proof -
    obtain listens where "list_all (answer_valid listens) (b_disguises b)"
      using s by (auto simp: settled_def compatible_def Let_def)
    from disguises_default_path [OF this] show ?thesis by (simp add: built_config_def Let_def)
  qed
  show ?thesis
  proof (cases "\<exists>d\<in>set (b_disguises b). half_fec d")
    case True
    with v have "\<not> valid_config (built_config role b)" by blast
    then have "snd (validate (built_config role b)) \<noteq> None" using validate_None_iff by (metis prod.collapse)
    with n d True show ?thesis by (auto simp: LoadConfig_def split: prod.splits option.splits)
  next
    case False
    with v have "validate (built_config role b) = (built_config role b, None)" by (simp add: validate_None_iff p)
    with n d False show ?thesis by (simp add: LoadConfig_def)
  qed
qed



section \<open>What an edit can do\<close>

text \<open>The four kinds of change.\<close>

definition edited :: "Config \<Rightarrow> Config \<Rightarrow> bool" where
  "edited cfg c \<longleftrightarrow>
     (\<exists>x. c = cfg\<lparr>Token := x\<rparr> \<and> x \<noteq> []) \<or> (\<exists>x. c = cfg\<lparr>Ports := x\<rparr> \<and> x \<noteq> []) \<or>
     (\<exists>ds. c = cfg\<lparr>Disguise := disguiseAnswersToConfig ds (\<not> dialsOut cfg)\<rparr> \<and> ds \<noteq> [] \<and> list_all (answer_valid (\<not> dialsOut cfg)) ds) \<or>
     (\<exists>t. c = applyTierToConfig cfg t \<and> usable_tier t)"

lemma editedI:
  "x \<noteq> [] \<Longrightarrow> edited cfg (cfg\<lparr>Token := x\<rparr>)" "y \<noteq> [] \<Longrightarrow> edited cfg (cfg\<lparr>Ports := y\<rparr>)"
  "ds \<noteq> [] \<and> list_all (answer_valid (\<not> dialsOut cfg)) ds \<Longrightarrow>
     edited cfg (cfg\<lparr>Disguise := disguiseAnswersToConfig ds (\<not> dialsOut cfg)\<rparr>)"
  "usable_tier t \<Longrightarrow> edited cfg (applyTierToConfig cfg t)"
  unfolding edited_def by blast+

lemma yields_editTunnelBody:
  assumes "Token cfg \<noteq> []"
  shows "yields (editTunnelBody env role path cfg) (\<lambda>r. \<forall>c. r = Some c \<longrightarrow> edited cfg c)"
proof -
  have save: "yields (saveEdit ok c) (\<lambda>r. \<forall>c. r = Some c \<longrightarrow> edited cfg c)" if "edited cfg c" for c ok
    unfolding saveEdit_def by (intro yields_if yields_bind yields_answer) (use that in auto)
  note edits = yields_then [OF yields_readLineDefault [OF assms] save [OF editedI(1)]] yields_then [OF askPorts_nonempty save [OF editedI(2)]]
    yields_then [OF yields_askDisguises save [OF editedI(3)]] yields_then [OF yields_tier save [OF editedI(4)]]
  show ?thesis
    unfolding editTunnelBody_def editChoice_def Let_def by (intro yields_bind yields_if edits yields_answer) simp_all
qed

text \<open>An entry with error correction that cannot correct anything.\<close>

definition no_parity :: "DisguiseConfig \<Rightarrow> bool" where
  "no_parity d \<longleftrightarrow> DType d = ''kcp'' \<and> KCPPreset d = ''custom'' \<and> 0 < KCPDataShards d \<and> KCPParityShards d = 0"

lemma no_parity_answer: "no_parity (hd (disguiseAnswersToConfig [d] listens)) = half_fec d"
  by (auto simp: no_parity_def disguiseAnswersToConfig_def half_fec_def Let_def)

lemma valid_no_parity: "valid_config cfg \<Longrightarrow> d \<in> set (Disguise cfg) \<Longrightarrow> Enabled d \<Longrightarrow> \<not> no_parity d"
  by (auto simp: valid_config_def valid_disguise_def no_parity_def)

lemma disguise_edit_valid:
  assumes "valid_config cfg" "ds \<noteq> []" "list_all (answer_valid (\<not> dialsOut cfg)) ds"
  shows "valid_config (cfg\<lparr>Disguise := disguiseAnswersToConfig ds (\<not> dialsOut cfg)\<rparr>) \<longleftrightarrow>
    \<not> (\<exists>d\<in>set (disguiseAnswersToConfig ds (\<not> dialsOut cfg)). d \<notin> set (Disguise cfg) \<and> no_parity d)"
proof -
  let ?ds = "disguiseAnswersToConfig ds (\<not> dialsOut cfg)"
  have en: "\<forall>d\<in>set ?ds. Enabled d" "?ds \<noteq> []" using assms(2) by (auto simp: disguiseAnswersToConfig_def Let_def)
  have "valid_config (cfg\<lparr>Disguise := ?ds\<rparr>) \<longleftrightarrow> (\<forall>d\<in>set ?ds. Enabled d \<longrightarrow> valid_disguise (dialsOut cfg) d)"
    using assms(1) en unfolding valid_config_def by (auto simp: dialsOut_def neq_Nil_conv)
  also have "\<dots> \<longleftrightarrow> (\<forall>d\<in>set ds. \<not> half_fec d)" using valid_disguises_answers [OF assms(3)] en(1) by simp
  also have "\<dots> \<longleftrightarrow> (\<forall>d\<in>set ?ds. \<not> no_parity d)"
    by (auto simp: no_parity_answer [symmetric, of _ "\<not> dialsOut cfg"] disguiseAnswersToConfig_def)
  also have "\<dots> \<longleftrightarrow> \<not> (\<exists>d\<in>set ?ds. d \<notin> set (Disguise cfg) \<and> no_parity d)"
    using en(1) valid_no_parity [OF assms(1)] by blast
  finally show ?thesis .
qed



end
