(* ===== verification/Startup.thy ===== *)
theory Startup
  imports Disguises Pipe Client
begin

text \<open>
  What the two roles start, \<open>Server.Run\<close>, \<open>Client.Run\<close>, \<open>Client.runListener\<close>, \<open>runDialer\<close> and \<open>runUDPCarrier\<close>: the
  goroutines as data and how starting can fail; the accept loops; and one forwarded connection from
  \<open>handleLocalConn\<close> on the server to the backend behind the client.
\<close>

section \<open>Roles\<close>

datatype task =
    UDPCarrierTask
  | PortListenerTask PortMap
  | UDPListenerTask PortMap
  | DialTask
  | AcceptTask DisguiseConfig

datatype run_end = Serves | NoEnabledDisguise | ListenFails DisguiseConfig goerror

definition port_tasks :: "Config \<Rightarrow> task list" where
  "port_tasks cfg =
     (if Mode cfg = ''udp'' then [UDPCarrierTask]
      else concat (map (\<lambda>pm. PortListenerTask pm # (if UDP pm then [UDPListenerTask pm] else [])) (Ports cfg)))"

text \<open>The loop that starts a listener for every enabled entry, up to the first that cannot listen.\<close>

fun start_listeners ::
    "('l, 'w, 'k, 'q) listeners \<Rightarrow> Config \<Rightarrow> DisguiseConfig list \<Rightarrow> task list \<times> run_end" where
  "start_listeners L cfg [] = ([], Serves)"
| "start_listeners L cfg (d # ds) =
     (case startDisguiseListener L cfg d of
        Inl e \<Rightarrow> ([], ListenFails d e)
      | Inr acc \<Rightarrow> (case start_listeners L cfg ds of (ts, r) \<Rightarrow> (AcceptTask d # ts, r)))"

definition listen_all :: "('l, 'w, 'k, 'q) listeners \<Rightarrow> Config \<Rightarrow> task list \<times> run_end" where
  "listen_all L cfg =
     (let enabled = filter Enabled (Disguise cfg) in
      if enabled = [] then ([], NoEnabledDisguise) else start_listeners L cfg enabled)"

text \<open>\<open>runDialer\<close>, and the loop of \<open>Client.Run\<close>, need a profile to dial.\<close>

definition dial_task :: "Config \<Rightarrow> task list \<times> run_end" where
  "dial_task cfg = (if buildProfiles cfg = [] then ([], NoEnabledDisguise) else ([DialTask], Serves))"

definition server_Run :: "('l, 'w, 'k, 'q) listeners \<Rightarrow> Config \<Rightarrow> task list \<times> run_end" where
  "server_Run L cfg =
     (case (if dialsOut cfg then dial_task cfg else listen_all L cfg) of (ts, r) \<Rightarrow> (port_tasks cfg @ ts, r))"

definition client_Run :: "('l, 'w, 'k, 'q) listeners \<Rightarrow> Config \<Rightarrow> task list \<times> run_end" where
  "client_Run L cfg = (if \<not> dialsOut cfg then listen_all L cfg else dial_task cfg)"

section \<open>The UDP carrier\<close>

fun first_enabled_addr :: "DisguiseConfig list \<Rightarrow> string" where
  "first_enabled_addr [] = []"
| "first_enabled_addr (d # ds) = (if Enabled d then ListenAddr d else first_enabled_addr ds)"

definition firstDisguiseAddr :: "Config \<Rightarrow> string" where
  "firstDisguiseAddr cfg = first_enabled_addr (Disguise cfg)"

text \<open>\<open>bind\<close> resolves an address and opens the pool socket. The result is the ports that are served from it.\<close>

datatype carrier_end = NoPoolAddress | PoolSocketFails goerror | PoolServes string "PortMap list"

definition runUDPCarrier :: "(string \<Rightarrow> goerror option) \<Rightarrow> Config \<Rightarrow> carrier_end" where
  "runUDPCarrier bindAddr cfg =
     (let addr = firstDisguiseAddr cfg in
      if addr = [] then NoPoolAddress
      else (case bindAddr addr of Some e \<Rightarrow> PoolSocketFails e | None \<Rightarrow> PoolServes addr (Ports cfg)))"

section \<open>Accept loops\<close>

text \<open>
  \<open>acceptLoop\<close> on what \<open>Accept\<close> is going to return, each with whether the context is done then: the connections
  that get a goroutine, and whether the loop has returned.
\<close>

fun acceptLoop :: "((goerror + 'c) \<times> bool) list \<Rightarrow> 'c list \<times> bool" where
  "acceptLoop [] = ([], False)"
| "acceptLoop ((Inr conn, fin) # rs) = (case acceptLoop rs of (cs, r) \<Rightarrow> (conn # cs, r))"
| "acceptLoop ((Inl e, fin) # rs) = (if fin then ([], True) else acceptLoop rs)"

text \<open>\<open>runPortListener\<close>: \<open>None\<close> is the fatal error of a port that cannot be listened on.\<close>

definition runPortListener ::
    "Config \<Rightarrow> goerror option \<Rightarrow> ((goerror + 'c) \<times> bool) list \<Rightarrow> ('c \<times> tcp_call list) list option" where
  "runPortListener cfg listen rs =
     (case listen of
        Some e \<Rightarrow> None
      | None \<Rightarrow> Some (map (\<lambda>c. (c, tuneConn True True (KeepAlive cfg) (RecvBuf cfg) (SendBuf cfg))) (fst (acceptLoop rs))))"

section \<open>One connection\<close>

text \<open>
  \<open>handleLocalConn\<close> with the carrier \<open>obtainCarrier\<close> gave, if any: the two connections, and whether \<open>Pipe\<close>
  takes over.
\<close>

definition handleLocalConn :: "string \<Rightarrow> conn option \<Rightarrow> conn \<Rightarrow> conn \<times> conn option \<times> bool" where
  "handleLocalConn target carrier local =
     (case carrier of
        None \<Rightarrow> (conn_close local, None, False)
      | Some c \<Rightarrow>
          (case writeString target c of
             (c', Some e) \<Rightarrow> (conn_close local, Some (conn_close c'), False)
           | (c', None) \<Rightarrow> (local, Some c', True)))"

section \<open>Starting\<close>

lemma start_listeners_ok:
  assumes "\<forall>d\<in>set ds. \<exists>acc. startDisguiseListener L cfg d = Inr acc"
  shows "start_listeners L cfg ds = (map AcceptTask ds, Serves)"
  using assms by (induction ds) auto

lemma start_listeners_accepts: "set (fst (start_listeners L cfg ds)) \<subseteq> AcceptTask ` set ds"
  by (induction ds) (auto split: sum.splits prod.splits)

lemma buildProfiles_nonempty: "(\<exists>d\<in>set (Disguise cfg). Enabled d) \<Longrightarrow> buildProfiles cfg \<noteq> []"
  by (auto simp: buildProfiles_def filter_empty_conv)

definition can_listen :: "('l, 'w, 'k, 'q) listeners \<Rightarrow> Config \<Rightarrow> bool" where
  "can_listen L cfg \<longleftrightarrow> (\<forall>d\<in>set (Disguise cfg). Enabled d \<longrightarrow> (\<exists>acc. startDisguiseListener L cfg d = Inr acc))"

lemma one_side:
  assumes "valid_config cfg" "can_listen L cfg"
  shows "dial_task cfg = ([DialTask], Serves)" "listen_all L cfg = (map AcceptTask (filter Enabled (Disguise cfg)), Serves)"
proof -
  have e: "\<exists>d\<in>set (Disguise cfg). Enabled d" using assms(1) by (simp add: valid_config_def)
  then show "dial_task cfg = ([DialTask], Serves)" by (simp add: dial_task_def buildProfiles_nonempty)
  from e have "filter Enabled (Disguise cfg) \<noteq> []" by (auto simp: filter_empty_conv)
  moreover have "start_listeners L cfg (filter Enabled (Disguise cfg)) = (map AcceptTask (filter Enabled (Disguise cfg)), Serves)"
    by (rule start_listeners_ok) (use assms(2) in \<open>auto simp: can_listen_def\<close>)
  ultimately show "listen_all L cfg = (map AcceptTask (filter Enabled (Disguise cfg)), Serves)"
    by (simp add: listen_all_def)
qed

lemma first_enabled_addr_in:
  "first_enabled_addr ds = [] \<or> (\<exists>d\<in>set ds. Enabled d \<and> ListenAddr d = first_enabled_addr ds)"
  by (induction ds) auto

lemma first_enabled_addr_nonempty:
  assumes "\<exists>d\<in>set ds. Enabled d" "\<forall>d\<in>set ds. Enabled d \<longrightarrow> ListenAddr d \<noteq> []"
  shows "first_enabled_addr ds \<noteq> []"
  using assms by (induction ds) auto

section \<open>Properties\<close>

text \<open>
  With valid configurations of the same direction, and addresses that can be listened on, both roles start
  everything they are for: the server a listener for every forwarded port (and a second one where UDP is
  relayed), or the UDP carrier on a pool address of its own; and exactly one of the two dials while the other accepts on every
  enabled disguise.
\<close>
theorem roles_start:
  assumes "valid_config s" "Role s = ''server''" "valid_config c" "Role c = ''client''" "Direction s = Direction c"
    and "can_listen L s" "can_listen L' c"
  shows "server_Run L s = (port_tasks s @ (if dialsOut s then [DialTask] else map AcceptTask (filter Enabled (Disguise s))), Serves) \<and>
    client_Run L' c = ((if dialsOut c then [DialTask] else map AcceptTask (filter Enabled (Disguise c))), Serves) \<and>
    dialsOut s = (\<not> dialsOut c) \<and>
    (Mode s \<noteq> ''udp'' \<longrightarrow> (\<forall>pm\<in>set (Ports s). PortListenerTask pm \<in> set (port_tasks s) \<and>
        (UDP pm \<longrightarrow> UDPListenerTask pm \<in> set (port_tasks s)))) \<and>
    (Mode s = ''udp'' \<longrightarrow> \<not> dialsOut s \<and> (\<forall>bind. bind (firstDisguiseAddr s) = None \<longrightarrow>
        (\<exists>addr. runUDPCarrier bind s = PoolServes addr (Ports s) \<and> addr \<noteq> [] \<and>
           (\<exists>d. AcceptTask d \<in> set (fst (server_Run L s)) \<and> ListenAddr d = addr))))"
proof -
  have srv: "server_Run L s =
      (port_tasks s @ (if dialsOut s then [DialTask] else map AcceptTask (filter Enabled (Disguise s))), Serves)"
    by (simp add: server_Run_def one_side [OF assms(1,6)])
  have cli: "client_Run L' c = ((if dialsOut c then [DialTask] else map AcceptTask (filter Enabled (Disguise c))), Serves)"
    by (simp add: client_Run_def one_side [OF assms(3,7)])
  have opp: "dialsOut s = (\<not> dialsOut c)" using assms(2,4,5) by (simp add: dialsOut_def)
  have ports: "PortListenerTask pm \<in> set (port_tasks s) \<and> (UDP pm \<longrightarrow> UDPListenerTask pm \<in> set (port_tasks s))"
    if "Mode s \<noteq> ''udp''" "pm \<in> set (Ports s)" for pm
    using that by (auto simp: port_tasks_def)
  have udp: "\<not> dialsOut s \<and> (\<exists>addr. runUDPCarrier bind s = PoolServes addr (Ports s) \<and> addr \<noteq> [] \<and>
      (\<exists>d. AcceptTask d \<in> set (fst (server_Run L s)) \<and> ListenAddr d = addr))"
    if m: "Mode s = ''udp''" and b: "bind (firstDisguiseAddr s) = None" for bind
  proof -
    have l: "\<not> dialsOut s" using assms(1,2) m by (auto simp: valid_config_def dialsOut_def)
    have "firstDisguiseAddr s \<noteq> []"
      using assms(1) l unfolding firstDisguiseAddr_def
      by (intro first_enabled_addr_nonempty) (auto simp: valid_config_def valid_disguise_def)
    moreover from this obtain d where "d \<in> set (Disguise s)" "Enabled d" "ListenAddr d = firstDisguiseAddr s"
      using first_enabled_addr_in [of "Disguise s"] unfolding firstDisguiseAddr_def by blast
    ultimately show ?thesis using b l by (auto simp: runUDPCarrier_def srv Let_def)
  qed
  have rev: "\<not> dialsOut s" if "Mode s = ''udp''" using assms(1,2) that by (auto simp: valid_config_def dialsOut_def)
  show ?thesis using srv cli opp ports udp rev by blast
qed

definition free_listeners :: "(unit, unit, unit, unit) listeners" where
  "free_listeners = \<lparr>listenTCP = (\<lambda>a r. Inr ()), startWSSListener = (\<lambda>c d. Inr ()), startKCPListener = (\<lambda>c d. Inr ()),
     startQUICListener = (\<lambda>c d. Inr ())\<rparr>"

theorem roles_start_witness:
  "snd (server_Run free_listeners (sample_config ''server'')) = Serves \<and>
   client_Run free_listeners (sample_config ''client'') = ([DialTask], Serves)"
proof -
  have d: "Role (sample_config r) = r" "Direction (sample_config r) = ''reverse''"
    "can_listen free_listeners (sample_config r)" for r
    by (simp_all add: sample_config_def defaultConfig_def can_listen_def sample_disguise_def startDisguiseListener_def
        free_listeners_def)
  have "dialsOut (sample_config ''client'')" by (simp add: dialsOut_def d)
  then show ?thesis
    using roles_start [OF sample_config_valid d(1) sample_config_valid d(1) _ d(3) d(3)] d(2) by simp
qed



end
