(* ===== verification/Backup.thy ===== *)
theory Backup
  imports Upkeep "HOL-Library.Countable"
begin

text \<open>
  Backup and restore, \<open>backup.go\<close>. The archive format (\<open>archive/tar\<close> in \<open>compress/gzip\<close>) is an argument: \<open>enc\<close> gives
  the bytes of an archive with the given entries, \<open>openArchive\<close> what reading some bytes as an archive yields.
  A path that is written is the file the operating system resolves it to, without symbolic links.
\<close>

section \<open>Paths\<close>

fun resolve :: "string list \<Rightarrow> string list \<Rightarrow> string list" where
  "resolve [] done = rev done"
| "resolve (e # es) done =
     (if e = [] \<or> e = ''.'' then resolve es done
      else if e = ''..'' then resolve es (tl done)
      else resolve es (e # done))"

definition elements :: "string \<Rightarrow> string list" where
  "elements p = resolve (split_char p CHR ''/'') []"

text \<open>\<open>filepath.Clean\<close> and \<open>filepath.Dir\<close> of an absolute path.\<close>

definition cleanPath :: "string \<Rightarrow> string" where
  "cleanPath p = ''/'' @ join (elements p) ''/''"

definition pathDir :: "string \<Rightarrow> string" where
  "pathDir p = cleanPath (rev (dropWhile (\<lambda>c. c \<noteq> CHR ''/'') (rev p)))"

text \<open>A path as the user typed it, which is relative to the working directory unless it begins with a slash.\<close>

definition fullPath :: "host \<Rightarrow> string \<Rightarrow> string" where
  "fullPath h p = (if hasPrefix p ''/'' then p else h_cwd h @ ''/'' @ p)"

section \<open>Creating a backup\<close>

definition backupsDir :: string where "backupsDir = ''/etc/rmtunnel/backups''"

definition backupManifest :: "box \<Rightarrow> string list" where
  "backupManifest b =
     map tr_Path (listTunnels (readDir b)) @
     (if stat b sysctlConfPath then [sysctlConfPath] else []) @
     (if stat b autoRefreshTimerPath then [autoRefreshTimerPath] else [])"

text \<open>
  What can go wrong on the disk: \<open>os.Create\<close>, the writing of the k-th file (and what is left then), and the
  closing of the writers, which flushes them and whose errors are not looked at.
\<close>

record disk =
  d_create :: "goerror option"
  d_loop :: "nat \<Rightarrow> goerror option"
  d_partial :: string
  d_close :: "string option"

fun tar_loop :: "disk \<Rightarrow> box \<Rightarrow> nat \<Rightarrow> string list \<Rightarrow> (string \<times> string) list \<times> goerror option" where
  "tar_loop d b k [] = ([], None)"
| "tar_loop d b k (p # ps) =
     (case readFile b p of
        None \<Rightarrow> tar_loop d b (Suc k) ps
      | Some data \<Rightarrow>
          (case d_loop d k of
             Some e \<Rightarrow> ([], Some e)
           | None \<Rightarrow> (let (es, r) = tar_loop d b (Suc k) ps in ((trimPrefix p ''/'', data) # es, r))))"

definition writeBackupArchive ::
    "((string \<times> string) list \<Rightarrow> string) \<Rightarrow> disk \<Rightarrow> string \<Rightarrow> string list \<Rightarrow> box \<Rightarrow> box \<times> goerror option" where
  "writeBackupArchive enc d archivePath paths b =
     (case d_create d of
        Some e \<Rightarrow> (b, Some e)
      | None \<Rightarrow>
          (case tar_loop d b 0 paths of
             (es, Some e) \<Rightarrow> (b\<lparr>files := AList.update archivePath (d_partial d) (files b)\<rparr>, Some e)
           | (es, None) \<Rightarrow>
               (b\<lparr>files := AList.update archivePath (case d_close d of None \<Rightarrow> enc es | Some left \<Rightarrow> left) (files b)\<rparr>, None)))"

text \<open>\<open>createBackup\<close> on Linux: the archive it reports as created. The name carries the time.\<close>

definition createBackup ::
    "host \<Rightarrow> ((string \<times> string) list \<Rightarrow> string) \<Rightarrow> disk \<Rightarrow> string \<Rightarrow> box \<Rightarrow> (string option \<times> box) ask" where
  "createBackup h enc d name b =
     (let paths = backupManifest b; archivePath = backupsDir @ ''/'' @ name in
      then_ask pressEnter (\<lambda>u. answer
        (if paths = [] \<or> h_mkdir h backupsDir \<noteq> None then (None, b)
         else case writeBackupArchive enc d archivePath paths b of
           (b', Some e) \<Rightarrow> (None, b')
         | (b', None) \<Rightarrow> (Some archivePath, b'))))"

section \<open>Restoring\<close>

datatype tar_event = TarEntry string "goerror + string" | TarError goerror

definition allowedRestorePath :: "string \<Rightarrow> bool" where
  "allowedRestorePath p \<longleftrightarrow> hasPrefix p (tunnelsRoot @ ''/'') \<or> p = sysctlConfPath \<or>
     p = autoRefreshTimerPath \<or> p = autoRefreshServicePath"

fun extract_loop :: "host \<Rightarrow> tar_event list \<Rightarrow> string list \<Rightarrow> box \<Rightarrow> box \<times> string list \<times> goerror option" where
  "extract_loop h [] restored b = (b, restored, None)"
| "extract_loop h (TarError e # evs) restored b = (b, restored, Some e)"
| "extract_loop h (TarEntry name r # evs) restored b =
     (let dest = ''/'' @ name in
      if \<not> allowedRestorePath dest then extract_loop h evs restored b
      else case h_mkdir h (pathDir dest) of
        Some e \<Rightarrow> (b, restored, Some e)
      | None \<Rightarrow>
          (case r of
             Inl e \<Rightarrow> (b, restored, Some e)
           | Inr data \<Rightarrow>
               (case writeFile h (cleanPath dest) data b of
                  (b', Some e) \<Rightarrow> (b', restored, Some e)
                | (b', None) \<Rightarrow> extract_loop h evs (restored @ [dest]) b')))"

definition extractBackupArchive ::
    "host \<Rightarrow> (string \<Rightarrow> goerror + tar_event list) \<Rightarrow> string \<Rightarrow> box \<Rightarrow> box \<times> string list \<times> goerror option" where
  "extractBackupArchive h openArchive archivePath b =
     (case readFile b (cleanPath (fullPath h archivePath)) of
        None \<Rightarrow> (b, [], Some (Msg ''open''))
      | Some content \<Rightarrow>
          (case openArchive content of
             Inl e \<Rightarrow> (b, [], Some (Wrap ''not a valid backup archive'' e))
           | Inr evs \<Rightarrow> extract_loop h evs [] b))"

text \<open>\<open>strings.Contains\<close>.\<close>

definition containsStr :: "string \<Rightarrow> string \<Rightarrow> bool" where
  "containsStr s t = list_ex (\<lambda>i. hasPrefix (drop i s) t) [0..<Suc (length s)]"

fun install_restored :: "host \<Rightarrow> string list \<Rightarrow> tunnelRef list \<Rightarrow> box \<Rightarrow> box ask" where
  "install_restored h restored [] b = answer b"
| "install_restored h restored (t # ts) b =
     (if \<not> containsPath restored (tr_Path t) \<or> h_active h (tunnel_unit t) then install_restored h restored ts b
      else then_ask (confirm True) (\<lambda>yes. install_restored h restored ts (if yes then installTunnel h t b else b)))"

definition backups_found :: "box \<Rightarrow> string list" where
  "backups_found b =
     rev (sort (map fst (filter (\<lambda>e. \<not> snd e \<and> hasSuffix (fst e) ''.tar.gz'')
       (case readDir b backupsDir of None \<Rightarrow> [] | Some es \<Rightarrow> es))))"

definition restoreBackup :: "host \<Rightarrow> (string \<Rightarrow> goerror + tar_event list) \<Rightarrow> box \<Rightarrow> box ask" where
  "restoreBackup h openArchive b =
     (let found = backups_found b in
      then_ask readLine (\<lambda>ans.
        if ans = [] then answer b
        else let path = (case indexFromChoice ans (length found) of
              None \<Rightarrow> ans | Some i \<Rightarrow> backupsDir @ ''/'' @ found ! i) in
          case extractBackupArchive h openArchive path b of
            (b1, restored, Some e) \<Rightarrow> then_ask pressEnter (\<lambda>u. answer b1)
          | (b1, restored, None) \<Rightarrow>
              if restored = [] then then_ask pressEnter (\<lambda>u. answer b1)
              else
                then_ask (if containsStr (join restored [newline]) sysctlConfPath then confirm True else answer False) (\<lambda>apply.
                let b2 = (if apply then applySysctlTuning h b1 else b1) in
                then_ask (install_restored h restored (listTunnels (readDir b2)) b2) (\<lambda>b3.
                then_ask pressEnter (\<lambda>u. answer b3)))))"

section \<open>Clean paths\<close>

lemma fullPath_absolute [simp]: "fullPath h (CHR ''/'' # p) = CHR ''/'' # p"
  by (simp add: fullPath_def hasPrefix_def)

definition plain_element :: "string \<Rightarrow> bool" where
  "plain_element e \<longleftrightarrow> e \<noteq> [] \<and> e \<noteq> ''.'' \<and> e \<noteq> ''..'' \<and> CHR ''/'' \<notin> set e"

lemma resolve_plain: "\<forall>e\<in>set es. plain_element e \<Longrightarrow> resolve es done = rev done @ es"
  by (induction es arbitrary: "done") (auto simp: plain_element_def)

lemma elements_join: "\<forall>e\<in>set es. plain_element e \<Longrightarrow> elements (''/'' @ join es ''/'') = es"
proof (cases "es = []")
  case False
  assume p: "\<forall>e\<in>set es. plain_element e"
  then have "split_char (join es [CHR ''/'']) CHR ''/'' = es"
    using False by (intro split_char_join) (auto simp: plain_element_def)
  then show ?thesis using resolve_plain [OF p] by (simp add: elements_def)
qed (simp add: elements_def)

lemma cleanPath_join: "\<forall>e\<in>set es. plain_element e \<Longrightarrow> cleanPath (''/'' @ join es ''/'') = ''/'' @ join es ''/''"
  using elements_join by (simp add: cleanPath_def)

lemma cleanPath_config:
  assumes "role \<in> set tunnelRoles" "CHR ''/'' \<notin> set name"
  shows "cleanPath (tunnelConfigPath role name) = tunnelConfigPath role name"
proof -
  have "plain_element (name @ tunnelConfigExt role)"
    using assms(2) by (auto simp: plain_element_def tunnelConfigExt_def append_eq_Cons_conv)
  moreover have "plain_element role" using assms(1) by (auto simp: tunnelRoles_def plain_element_def)
  ultimately have "\<forall>e\<in>set [''etc'', ''rmtunnel'', ''tunnels'', role, name @ tunnelConfigExt role]. plain_element e"
    by (simp add: plain_element_def)
  from cleanPath_join [OF this] show ?thesis by (simp add: tunnelConfigPath_def tunnelDir_def tunnelsRoot_def)
qed

text \<open>Everything in a manifest may be restored, and is the path it says.\<close>

lemma manifest_path:
  assumes "p \<in> set (backupManifest b)"
  shows "allowedRestorePath p" "cleanPath p = p" "''/'' @ trimPrefix p ''/'' = p" "readFile b p \<noteq> None"
proof -
  have conf: "tr_Path t = tunnelConfigPath (tr_Role t) (tr_Name t)" "tr_Role t \<in> set tunnelRoles"
      "CHR ''/'' \<notin> set (tr_Name t)" "stat b (tr_Path t)" if "t \<in> set (listTunnels (readDir b))" for t
    using that unfolding listed_iff by blast+
  have slash: "''/'' @ trimPrefix (''/'' @ x) ''/'' = ''/'' @ x" for x by (simp only: trimPrefix_append)
  have sys: "sysctlConfPath = ''/'' @ ''etc/sysctl.d/99-rmtunnel.conf''"
    and timer: "autoRefreshTimerPath = ''/'' @ ''etc/systemd/system/rmtunnel-autorefresh.timer''"
    by (simp_all add: sysctlConfPath_def autoRefreshTimerPath_def autoRefreshTimerUnit_def)
  consider (tunnel) t where "t \<in> set (listTunnels (readDir b))" "p = tr_Path t"
    | (other) "p = sysctlConfPath \<or> p = autoRefreshTimerPath" "stat b p"
    using assms by (auto simp: backupManifest_def split: if_splits)
  then have "allowedRestorePath p \<and> cleanPath p = p \<and> ''/'' @ trimPrefix p ''/'' = p \<and> readFile b p \<noteq> None"
  proof cases
    case tunnel
    note c = conf [OF tunnel(1)]
    have d: "tunnelConfigPath r n = (tunnelsRoot @ ''/'') @ r @ ''/'' @ n @ tunnelConfigExt r" for r n
      by (simp add: tunnelConfigPath_def tunnelDir_def)
    have e: "tunnelConfigPath r n = ''/'' @ ''etc/rmtunnel/tunnels/'' @ r @ ''/'' @ n @ tunnelConfigExt r" for r n
      by (simp add: d tunnelsRoot_def)
    have 1: "''/'' @ trimPrefix p ''/'' = p" unfolding tunnel(2) c(1) e by (rule slash)
    have 2: "allowedRestorePath p" unfolding allowedRestorePath_def tunnel(2) c(1) d by (simp only: hasPrefix_append simp_thms)
    have 3: "cleanPath p = p" unfolding tunnel(2) c(1) by (rule cleanPath_config [OF c(2,3)])
    have 4: "readFile b p \<noteq> None" using c(4) unfolding tunnel(2) stat_readFile .
    from 1 2 3 4 show ?thesis by blast
  next
    case other
    have 1: "allowedRestorePath p" using other(1) unfolding allowedRestorePath_def by blast
    have 2: "cleanPath p = p" using other(1)
      by (auto simp: sysctlConfPath_def autoRefreshTimerPath_def autoRefreshTimerUnit_def cleanPath_def elements_def)
    have 3: "''/'' @ trimPrefix p ''/'' = p" using other(1) slash sys timer by metis
    have 4: "readFile b p \<noteq> None" using other(2) unfolding stat_readFile .
    from 1 2 3 4 show ?thesis by blast
  qed
  then show "allowedRestorePath p" "cleanPath p = p" "''/'' @ trimPrefix p ''/'' = p" "readFile b p \<noteq> None" by blast+
qed

lemma tar_loop_entries:
  "tar_loop d b k ps = (es, None) \<Longrightarrow>
     es = map (\<lambda>p. (trimPrefix p ''/'', the (readFile b p))) (filter (\<lambda>p. readFile b p \<noteq> None) ps)"
  by (induction d b k ps arbitrary: es rule: tar_loop.induct) (auto split: option.splits prod.splits)

lemma restore_paths:
  assumes "\<forall>p\<in>set ps. allowedRestorePath p \<and> cleanPath p = p \<and> ''/'' @ trimPrefix p ''/'' = p \<and> readFile src p \<noteq> None \<and>
    h_mkdir h (pathDir p) = None \<and> h_io h p = None"
  shows "\<exists>b'. extract_loop h (map (\<lambda>p. TarEntry (trimPrefix p ''/'') (Inr (the (readFile src p)))) ps) acc b = (b', acc @ ps, None) \<and>
    (\<forall>q. readFile b' q = (if q \<in> set ps then readFile src q else readFile b q))"
  using assms
proof (induction ps arbitrary: acc b)
  case (Cons p ps)
  have p: "allowedRestorePath p" "cleanPath p = p" "''/'' @ trimPrefix p ''/'' = p" "readFile src p \<noteq> None"
      "h_mkdir h (pathDir p) = None" "h_io h p = None"
    using Cons.prems by simp_all
  obtain c where w: "writeFile h p (the (readFile src p)) b = (c, None)"
    using p(6) by (simp add: writeFile_def)
  then have c: "readFile c q = (if q = p then readFile src p else readFile b q)" for q
    using readFile_write [of h p "the (readFile src p)" b q] p(4,6) by auto
  obtain b' where b': "extract_loop h (map (\<lambda>p. TarEntry (trimPrefix p ''/'') (Inr (the (readFile src p)))) ps) (acc @ [p]) c =
        (b', acc @ p # ps, None)"
      "\<forall>q. readFile b' q = (if q \<in> set ps then readFile src q else readFile c q)"
    using Cons.IH [of "acc @ [p]" c] Cons.prems by auto
  have "extract_loop h (TarEntry (trimPrefix p ''/'') (Inr (the (readFile src p))) # evs) acc b =
      extract_loop h evs (acc @ [p]) c" for evs
    unfolding extract_loop.simps Let_def p(3) using p(1,2,5) w by simp
  then show ?case using b' c by auto
qed simp

text \<open>
  Property C26. A backup restores what it was made from: reading the archive that was written on one box puts every
  file of its manifest (each tunnel configuration, the kernel tuning, the timer) back on any other box with
  the contents it had, touches no other file, and the tunnels of the first box are listed on the second.
  Reading the archive format back is assumed to give the entries that were written, and the writes to succeed.
\<close>
theorem backup_restores:
  assumes "\<And>es. openArchive (enc es) = Inr (map (\<lambda>(n, c). TarEntry n (Inr c)) es)"
    and "writeBackupArchive enc d ap (backupManifest b) b = (b1, None)" "d_close d = None"
    and "readFile b2 (cleanPath (fullPath h ap2)) = readFile b1 ap"
    and "\<forall>p \<in> set (backupManifest b). h_mkdir h (pathDir p) = None \<and> h_io h p = None"
  shows "\<exists>b3. extractBackupArchive h openArchive ap2 b2 = (b3, backupManifest b, None) \<and>
    (\<forall>p. readFile b3 p = (if p \<in> set (backupManifest b) then readFile b p else readFile b2 p)) \<and>
    set (listTunnels (readDir b)) \<subseteq> set (listTunnels (readDir b3))"
proof -
  let ?ps = "backupManifest b"
  let ?evs = "map (\<lambda>p. TarEntry (trimPrefix p ''/'') (Inr (the (readFile b p)))) ?ps"
  have f: "filter (\<lambda>p. readFile b p \<noteq> None) ?ps = ?ps" using manifest_path(4) by (simp add: filter_id_conv)
  have "readFile b1 ap = Some (enc (map (\<lambda>p. (trimPrefix p ''/'', the (readFile b p))) ?ps))"
    using assms(2,3) tar_loop_entries [of d b 0 ?ps] unfolding f
    by (auto simp: writeBackupArchive_def readFile_def AList.update_conv' split: option.splits prod.splits)
  then have "extractBackupArchive h openArchive ap2 b2 = extract_loop h ?evs [] b2"
    by (simp add: extractBackupArchive_def assms(1,4) comp_def)
  moreover obtain b3 where b3: "extract_loop h ?evs [] b2 = (b3, ?ps, None)"
      "\<forall>q. readFile b3 q = (if q \<in> set ?ps then readFile b q else readFile b2 q)"
    using restore_paths [of ?ps b h "[]" b2] manifest_path assms(5) by auto
  moreover have "t \<in> set (listTunnels (readDir b3))" if "t \<in> set (listTunnels (readDir b))" for t
  proof -
    have "tr_Path t \<in> set ?ps" using that by (simp add: backupManifest_def)
    with b3(2) have "readFile b3 (tr_Path t) = readFile b (tr_Path t)" by simp
    with that show ?thesis unfolding listed_iff stat_readFile by metis
  qed
  ultimately show ?thesis by auto
qed

definition willing :: host where
  "willing = \<lparr>h_io = (\<lambda>p. None), h_mkdir = (\<lambda>p. None), h_look = (\<lambda>p. None), h_self = None, h_active = (\<lambda>u. False), h_cwd = ''/root''\<rparr>"

text \<open>A toy archive format.\<close>

definition toy_enc :: "(string \<times> string) list \<Rightarrow> string" where
  "toy_enc es = replicate (to_nat es) CHR ''x''"

definition toy_open :: "string \<Rightarrow> goerror + tar_event list" where
  "toy_open s = Inr (map (\<lambda>(n, c). TarEntry n (Inr c)) (from_nat (length s)))"

lemma toy_open_enc: "toy_open (toy_enc es) = Inr (map (\<lambda>(n, c). TarEntry n (Inr c)) es)"
  by (simp add: toy_open_def toy_enc_def)

definition old_box :: box where
  "old_box = \<lparr>files = [(tunnelConfigPath ''client'' ''a'', ''token'')], ran = []\<rparr>"

lemma old_box_manifest: "backupManifest old_box = [tunnelConfigPath ''client'' ''a'']"
  by (simp add: backupManifest_def old_box_def listTunnels_def tunnelRoles_def list_role_def readDir_def dir_entry_def
      tunnelConfigPath_def tunnelDir_def tunnelsRoot_def tunnelConfigExt_def hasPrefix_def trimPrefix_def hasSuffix_def
      trimSuffix_def stat_def sysctlConfPath_def autoRefreshTimerPath_def autoRefreshTimerUnit_def Let_def)

theorem backup_restores_witness:
  "\<exists>b3. extractBackupArchive willing toy_open ''/root/x''
      \<lparr>files = [(''/root/x'', toy_enc [(''etc/rmtunnel/tunnels/client/a.toml'', ''token'')])], ran = []\<rparr> =
        (b3, [tunnelConfigPath ''client'' ''a''], None) \<and>
     readFile b3 (tunnelConfigPath ''client'' ''a'') = Some ''token''"
proof -
  let ?d = "\<lparr>d_create = None, d_loop = (\<lambda>k. None), d_partial = [], d_close = None\<rparr>"
  let ?b2 = "\<lparr>files = [(''/root/x'', toy_enc [(''etc/rmtunnel/tunnels/client/a.toml'', ''token'')])], ran = []\<rparr>"
  let ?c = "tunnelConfigPath ''client'' ''a''"
  have old: "readFile old_box ?c = Some ''token''" "trimPrefix ?c ''/'' = ''etc/rmtunnel/tunnels/client/a.toml''"
    by (simp add: old_box_def readFile_def)
      (simp add: trimPrefix_def hasPrefix_def tunnelConfigPath_def tunnelDir_def tunnelsRoot_def tunnelConfigExt_def)
  obtain b1 where b1: "writeBackupArchive toy_enc ?d ''/a'' (backupManifest old_box) old_box = (b1, None)"
      "readFile b1 ''/a'' = Some (toy_enc [(''etc/rmtunnel/tunnels/client/a.toml'', ''token'')])"
    using old by (simp add: writeBackupArchive_def old_box_manifest) (simp add: readFile_def AList.update_conv')
  have "cleanPath ''/root/x'' = ''/root/x''" by (simp add: cleanPath_def elements_def)
  then have "readFile ?b2 (cleanPath (fullPath willing ''/root/x'')) = readFile b1 ''/a''" using b1(2) by (simp add: readFile_def)
  from backup_restores [OF toy_open_enc b1(1) _ this] show ?thesis
    by (simp add: old_box_manifest willing_def) (auto simp: old_box_def readFile_def)
qed

section \<open>What a restore may write\<close>

definition inside :: "string \<Rightarrow> bool" where
  "inside p \<longleftrightarrow> take 3 (elements p) = [''etc'', ''rmtunnel'', ''tunnels''] \<or>
     p \<in> {sysctlConfPath, autoRefreshTimerPath, autoRefreshServicePath}"

lemma extract_loop_writes:
  "extract_loop h evs acc b = (b', restored, err) \<Longrightarrow> readFile b' p \<noteq> readFile b p \<Longrightarrow>
     \<exists>q. allowedRestorePath q \<and> p = cleanPath q"
proof (induction evs arbitrary: acc b)
  case (Cons ev evs)
  show ?case
  proof (cases ev)
    case (TarEntry name r)
    let ?q = "''/'' @ name"
    show ?thesis
    proof (cases "\<exists>data. allowedRestorePath ?q \<and> h_mkdir h (pathDir ?q) = None \<and> r = Inr data")
      case True
      then obtain data c e where w: "allowedRestorePath ?q" "h_mkdir h (pathDir ?q) = None" "r = Inr data"
          "writeFile h (cleanPath ?q) data b = (c, e)"
        by (metis surj_pair)
      have "readFile c p = readFile b p" if "p \<noteq> cleanPath ?q" using writeFile_other [OF w(4) that] .
      moreover have "readFile b' p = readFile c p \<or> (\<exists>q. allowedRestorePath q \<and> p = cleanPath q)"
        using Cons.prems(1) Cons.IH [of "acc @ [?q]" c] w by (auto simp: TarEntry split: option.splits)
      ultimately show ?thesis using Cons.prems(2) w(1) by metis
    next
      case False
      then have "b' = b \<or> extract_loop h evs acc b = (b', restored, err)"
        using Cons.prems(1) by (auto simp: TarEntry Let_def split: option.splits sum.splits if_splits prod.splits)
      then show ?thesis using Cons.prems(2) Cons.IH by blast
    qed
  qed (use Cons.prems in simp)
qed simp

lemma resolve_no_dotdot: "''..'' \<notin> set es \<Longrightarrow> resolve es done = rev done @ filter (\<lambda>e. e \<noteq> [] \<and> e \<noteq> ''.'') es"
  by (induction es arbitrary: "done") auto

lemma allowed_inside:
  assumes "allowedRestorePath q" "''..'' \<notin> set (split_char q CHR ''/'')"
  shows "inside (cleanPath q)"
proof (cases "hasPrefix q (tunnelsRoot @ ''/'')")
  case True
  then obtain r where q: "q = ''/etc/rmtunnel/tunnels/'' @ r" by (auto simp: hasPrefix_iff tunnelsRoot_def)
  let ?es = "filter (\<lambda>e. e \<noteq> [] \<and> e \<noteq> ''.'') (split_char q CHR ''/'')"
  have e: "elements q = ?es" using resolve_no_dotdot [OF assms(2), of "[]"] by (simp add: elements_def)
  have "\<forall>e\<in>set ?es. plain_element e" using assms(2) split_char_pieces by (auto simp: plain_element_def)
  then have "elements (cleanPath q) = ?es" unfolding cleanPath_def e by (rule elements_join)
  moreover have "take 3 ?es = [''etc'', ''rmtunnel'', ''tunnels'']" by (simp add: q)
  ultimately show ?thesis by (simp add: inside_def)
next
  case False
  with assms(1) have "q \<in> {sysctlConfPath, autoRefreshTimerPath, autoRefreshServicePath}"
    by (auto simp: allowedRestorePath_def)
  moreover have "cleanPath q = q" if "q \<in> {sysctlConfPath, autoRefreshTimerPath, autoRefreshServicePath}"
    using that by (auto simp: sysctlConfPath_def autoRefreshTimerPath_def autoRefreshTimerUnit_def autoRefreshServicePath_def
        cleanPath_def elements_def)
  ultimately show ?thesis by (auto simp: inside_def)
qed



text \<open>
  Property C28. The prefix is compared before the path is resolved, so an archive entry whose name climbs out of the
  tunnel directory passes the check: restoring such an archive overwrites a file anywhere on the box.
\<close>
theorem restore_escapes:
  "\<exists>name. \<forall>c b. readFile (fst (extract_loop willing [TarEntry name (Inr c)] [] b)) ''/etc/passwd'' = Some c"
proof (intro exI allI)
  fix c b
  show "readFile (fst (extract_loop willing [TarEntry ''etc/rmtunnel/tunnels/../../passwd'' (Inr c)] [] b)) ''/etc/passwd'' = Some c"
    by (simp add: allowedRestorePath_def hasPrefix_def tunnelsRoot_def willing_def writeFile_def cleanPath_def elements_def
        readFile_def AList.update_conv')
qed

section \<open>Two surprises\<close>

text \<open>
  The writers are closed by deferred calls whose errors nobody looks at, and closing is what flushes a small
  archive: a backup whose last write fails is reported as created, with whatever reached the disk.
\<close>
theorem failed_flush_unreported:
  assumes "d_create d = None" "\<And>k. d_loop d k = None" "d_close d = Some left"
  shows "\<exists>b'. writeBackupArchive enc d ap paths b = (b', None) \<and> readFile b' ap = Some left"
proof -
  have "snd (tar_loop d b k ps) = None" for k ps
    by (induction ps arbitrary: k) (auto simp: assms(2) split: option.splits prod.splits, metis snd_conv)
  then obtain es where "tar_loop d b 0 paths = (es, None)" by (metis prod.collapse)
  then show ?thesis by (simp add: writeBackupArchive_def assms readFile_def AList.update_conv')
qed

lemma installTunnel_tuning: "readFile (installTunnel h t b) sysctlConfPath = readFile b sysctlConfPath"
  by (rule readFile_installTunnel) (simp_all add: unitPath_def sysctlConfPath_def rmtunnelBin_def)

lemma install_restored_tuning:
  "install_restored h restored ts b inp = Answer b' rest \<Longrightarrow> readFile b' sysctlConfPath = readFile b sysctlConfPath"
proof (induction ts arbitrary: b inp)
  case (Cons t ts)
  have "\<exists>c inp'. install_restored h restored ts c inp' = Answer b' rest \<and> readFile c sysctlConfPath = readFile b sysctlConfPath"
    using Cons.prems
    by (auto simp: then_ask_def installTunnel_tuning split: if_splits reply.splits)
  then show ?case using Cons.IH by metis
qed (simp add: answer_def)

lemma join_member: "w \<in> set ws \<Longrightarrow> \<exists>a c. join ws sep = a @ w @ c"
proof (induction ws sep rule: join.induct)
  case (2 v sep)
  then have "join [v] sep = [] @ w @ []" by simp
  then show ?case by blast
next
  case (3 v v' ws sep)
  show ?case
  proof (cases "w = v")
    case True
    then have "join (v # v' # ws) sep = [] @ w @ (sep @ join (v' # ws) sep)" by simp
    then show ?thesis by blast
  next
    case False
    with 3 obtain a c where "join (v' # ws) sep = a @ w @ c" by auto
    then have "join (v # v' # ws) sep = (v @ sep @ a) @ w @ c" by simp
    then show ?thesis by blast
  qed
qed simp

lemma containsStr_append: "containsStr (a @ w @ c) w"
proof -
  have "length a \<in> set [0..<Suc (length (a @ w @ c))]" "hasPrefix (drop (length a) (a @ w @ c)) w"
    by (simp_all add: hasPrefix_append del: upt_Suc)
  then show ?thesis unfolding containsStr_def list_ex_iff by blast
qed

text \<open>
  The question after a restore, whether to apply the restored kernel tuning, is answered by writing the built-in
  tuning over it: what the archive held for that file is lost.
\<close>
theorem restored_tuning_discarded:
  assumes "extractBackupArchive h openArchive path b = (b1, restored, None)" "sysctlConfPath \<in> set restored"
    and "h_io h sysctlConfPath = None" "trimSpace ans = path" "path \<noteq> []"
    and "indexFromChoice path (length (backups_found b)) = None"
    and "restoreBackup h openArchive b (ans # ''y'' # inp) = Answer b' rest"
  shows "readFile b' sysctlConfPath = Some sysctlContent"
proof -
  have "containsStr (join restored [newline]) sysctlConfPath"
    using join_member [OF assms(2)] containsStr_append by metis
  moreover have "restored \<noteq> []" "trimSpace ''y'' = ''y''" using assms(2) by (auto simp: trimSpace_def is_space_def)
  ultimately have "restoreBackup h openArchive b (ans # ''y'' # inp) =
      then_ask (install_restored h restored (listTunnels (readDir (applySysctlTuning h b1))) (applySysctlTuning h b1))
        (\<lambda>b3. then_ask pressEnter (\<lambda>u. answer b3)) inp"
    using assms(1,4-6) by (simp add: restoreBackup_def then_ask_def readLine_def answer_def confirm_def lower_char_def Let_def)
  then obtain ts mid where r: "install_restored h restored ts (applySysctlTuning h b1) inp = Answer b' mid"
    using assms(7) by (auto simp: then_ask_def pressEnter_def readLine_def answer_def split: reply.splits list.splits)
  have "readFile (applySysctlTuning h b1) sysctlConfPath = Some sysctlContent"
    using assms(3) by (simp add: applySysctlTuning_def writeFile_def runCmd_def readFile_def AList.update_conv')
  with install_restored_tuning [OF r] show ?thesis by simp
qed

end
