(* ===== verification/Paqet_Install.thy ===== *)
theory Paqet_Install
  imports Update
begin

text \<open>
  Installing the paqet binary and finding out about the network, \<open>paqet_install.go\<close>. The release list, the download
  and the output of the commands that are run are arguments; \<open>None\<close> is a command that fails.
\<close>

section \<open>Installing the binary\<close>

definition paqetArchAssetSuffix :: "string \<Rightarrow> string" where
  "paqetArchAssetSuffix goarch = (if goarch = ''arm64'' then ''arm64'' else ''amd64'')"

definition paqetInstalled :: "box \<Rightarrow> bool" where
  "paqetInstalled b = stat b paqetBinPath"

fun paqet_asset :: "string \<Rightarrow> (string \<times> string) list \<Rightarrow> string" where
  "paqet_asset prefix [] = []"
| "paqet_asset prefix ((name, url) # as) =
     (if hasPrefix name prefix \<and> hasSuffix name ''.tar.gz'' then url else paqet_asset prefix as)"

text \<open>
  The entries of the archive: whether it is a regular file, its name, what can be read of it and the error that ends the
  reading. The end of the list is the end of the archive.
\<close>

datatype asset_event = AssetEntry bool string string "goerror option" | AssetError goerror

text \<open>\<open>opened\<close> is the error of \<open>os.OpenFile\<close>; a failing write is one of \<open>io.Copy\<close>.\<close>

fun extract_binary :: "host \<Rightarrow> goerror option \<Rightarrow> string \<Rightarrow> asset_event list \<Rightarrow> box \<Rightarrow> box \<times> goerror option" where
  "extract_binary h opened binName [] b = (b, Some (Msg (binName @ '' not found inside the release archive'')))"
| "extract_binary h opened binName (AssetError e # evs) b = (b, Some e)"
| "extract_binary h opened binName (AssetEntry regular name data broken # evs) b =
     (if \<not> regular \<or> \<not> hasSuffix name binName then extract_binary h opened binName evs b
      else case opened of
        Some e \<Rightarrow> (b, Some e)
      | None \<Rightarrow>
          (case writeFile h paqetBinPath data b of
             (b1, Some e) \<Rightarrow> (removeFile paqetBinPath b1, Some e)
           | (b1, None) \<Rightarrow>
               (case broken of Some e \<Rightarrow> (removeFile paqetBinPath b1, Some e) | None \<Rightarrow> (b1, None))))"

text \<open>\<open>get\<close>: the request, its status and the gzip header can fail; then the entries come.\<close>

definition installPaqetBinary ::
    "host \<Rightarrow> goerror option \<Rightarrow> string \<Rightarrow> goerror + release \<Rightarrow> (string \<Rightarrow> goerror + asset_event list) \<Rightarrow> box \<Rightarrow> box \<times> goerror option" where
  "installPaqetBinary h opened goarch latest get b =
     (case latest of
        Inl e \<Rightarrow> (b, Some (Wrap ''checking paqet releases'' e))
      | Inr rel \<Rightarrow>
          let url = paqet_asset (''paqet-linux-'' @ paqetArchAssetSuffix goarch @ ''-'') (rel_Assets rel) in
          if url = [] then (b, Some (Msg (''no linux/'' @ paqetArchAssetSuffix goarch @ '' asset found in paqet release '' @ rel_Tag rel)))
          else case get url of
            Inl e \<Rightarrow> (b, Some e)
          | Inr evs \<Rightarrow> extract_binary h opened (''paqet_linux_'' @ paqetArchAssetSuffix goarch) evs b)"

section \<open>Finding out about the network\<close>

text \<open>The classes of the regular expressions: \<open>\s\<close>, word characters for \<open>\b\<close>, and the characters of a hardware address.\<close>

definition re_space :: "char \<Rightarrow> bool" where
  "re_space c \<longleftrightarrow> (of_char c :: nat) \<in> {9, 10, 12, 13, 32}"

definition word_char :: "char \<Rightarrow> bool" where
  "word_char c \<longleftrightarrow> name_char c \<and> c \<noteq> CHR ''-''"

definition mac_char :: "char \<Rightarrow> bool" where
  "mac_char c \<longleftrightarrow> (let n = (of_char c :: nat) in
     (48 \<le> n \<and> n \<le> 57) \<or> (97 \<le> n \<and> n \<le> 102) \<or> (65 \<le> n \<and> n \<le> 70) \<or> c = CHR '':'')"

text \<open>\<open>w\s+(\S+)\<close> and \<open>\s+([0-9a-fA-F:]{17})\<close>, at the beginning of a string.\<close>

definition token_after :: "string \<Rightarrow> string \<Rightarrow> string option" where
  "token_after w s =
     (let r = drop (length w) s; t = dropWhile re_space r; tok = takeWhile (\<lambda>c. \<not> re_space c) t in
      if hasPrefix s w \<and> t \<noteq> r \<and> tok \<noteq> [] then Some tok else None)"

definition mac_after :: "string \<Rightarrow> string option" where
  "mac_after r =
     (let t = dropWhile re_space r in
      if t \<noteq> r \<and> length t \<ge> 17 \<and> list_all mac_char (take 17 t) then Some (take 17 t) else None)"

text \<open>The leftmost match of \<open>\bw\s+(\S+)\<close>; \<open>after_word\<close> tells whether a word character comes before.\<close>

fun find_word :: "string \<Rightarrow> bool \<Rightarrow> string \<Rightarrow> string option" where
  "find_word w after_word [] = None"
| "find_word w after_word (c # s) =
     (case (if after_word then None else token_after w (c # s)) of
        Some tok \<Rightarrow> Some tok
      | None \<Rightarrow> find_word w (word_char c) s)"

definition mac_here :: "string \<Rightarrow> string option" where
  "mac_here s = (if hasPrefix s ''lladdr'' then mac_after (drop 6 s) else if hasPrefix s ''at'' then mac_after (drop 2 s) else None)"

fun find_mac :: "string \<Rightarrow> string option" where
  "find_mac [] = None"
| "find_mac (c # s) = (case mac_here (c # s) of Some m \<Rightarrow> Some m | None \<Rightarrow> find_mac s)"

record detectedNetwork =
  dn_Interface :: string
  dn_LocalIP :: string
  dn_RouterMAC :: string

definition or_empty :: "string option \<Rightarrow> string" where
  "or_empty m = (case m of None \<Rightarrow> [] | Some s \<Rightarrow> s)"

definition gatewayIP :: "(string list \<Rightarrow> string option) \<Rightarrow> string \<Rightarrow> string" where
  "gatewayIP cmd route =
     (case find_word ''via'' False route of
        Some gw \<Rightarrow> gw
      | None \<Rightarrow> (case cmd [''ip'', ''route'', ''show'', ''default''] of
                  None \<Rightarrow> []
                | Some out \<Rightarrow> or_empty (find_word ''via'' False out)))"

definition routerMAC :: "(string list \<Rightarrow> string option) \<Rightarrow> string \<Rightarrow> string" where
  "routerMAC cmd gw =
     (let ask = (\<lambda>c. case cmd c of None \<Rightarrow> [] | Some out \<Rightarrow> map lower_char (or_empty (find_mac out)));
          mac = ask [''ip'', ''neigh'', ''show'', gw]
      in if mac = [] then ask [''arp'', ''-n'', gw] else mac)"

definition detectNetwork :: "(string list \<Rightarrow> string option) \<Rightarrow> detectedNetwork" where
  "detectNetwork cmd =
     (case cmd [''ip'', ''route'', ''get'', ''1.1.1.1''] of
        None \<Rightarrow> \<lparr>dn_Interface = [], dn_LocalIP = [], dn_RouterMAC = []\<rparr>
      | Some route \<Rightarrow>
          let gw = gatewayIP cmd route in
          \<lparr>dn_Interface = or_empty (find_word ''dev'' False route), dn_LocalIP = or_empty (find_word ''src'' False route),
           dn_RouterMAC = (if gw = [] then [] else routerMAC cmd gw)\<rparr>)"

section \<open>What an installation leaves\<close>

lemma extract_binary_spec:
  assumes "extract_binary h opened binName evs b = (b', err)"
  shows "(\<forall>p. p \<noteq> paqetBinPath \<longrightarrow> readFile b' p = readFile b p) \<and> ran b' = ran b \<and>
    (case err of
       None \<Rightarrow> (\<exists>name data. AssetEntry True name data None \<in> set evs \<and> hasSuffix name binName \<and> readFile b' paqetBinPath = Some data)
     | Some e \<Rightarrow> readFile b' paqetBinPath \<in> {None, readFile b paqetBinPath})"
  using assms
proof (induction h opened binName evs b rule: extract_binary.induct)
  case (3 h opened binName regular name data broken evs b)
  have w: "ran (fst (writeFile h p d c)) = ran c" "ran (removeFile p c) = ran c" for p d c
    by (auto simp: writeFile_def removeFile_def split: option.splits)
  show ?case
  proof (cases "\<not> regular \<or> \<not> hasSuffix name binName")
    case True
    with 3 show ?thesis by (auto split: option.splits) 
  next
    case False
    obtain b1 r where r: "writeFile h paqetBinPath data b = (b1, r)" by fastforce
    have r1: "b1 = fst (writeFile h paqetBinPath data b)" "r = snd (writeFile h paqetBinPath data b)" using r by simp_all
    show ?thesis
    proof (cases "opened = None \<and> r = None \<and> broken = None")
      case True
      then have "b' = b1" "err = None" using 3(2) False r by auto
      moreover have "readFile b1 paqetBinPath = Some data" using True r1 by (simp add: readFile_write snd_write)
      moreover have "readFile b1 p = readFile b p" if "p \<noteq> paqetBinPath" for p using that r1 by (simp add: readFile_write)
      ultimately show ?thesis using False True w(1) r1(1) by auto
    next
      case other: False
      then have "err \<noteq> None" "b' = b \<or> b' = removeFile paqetBinPath b1"
        using 3(2) False r by (auto split: option.splits)
      then show ?thesis using r1 w by (auto simp: readFile_remove readFile_write)
    qed
  qed
qed (auto split: option.splits)

section \<open>What the output of \<open>ip\<close> yields\<close>

definition token :: "string \<Rightarrow> bool" where
  "token t \<longleftrightarrow> t \<noteq> [] \<and> list_all (\<lambda>c. \<not> re_space c) t"

lemma re_space_not_word: "re_space c \<Longrightarrow> \<not> word_char c"
  by (auto simp: re_space_def word_char_def name_char_def Let_def)

lemma dropWhile_token: "list_all (\<lambda>c. \<not> re_space c) t \<Longrightarrow> t \<noteq> [] \<Longrightarrow> dropWhile re_space (t @ s) = t @ s"
  by (cases t) simp_all

lemma hasPrefix_token:
  assumes "list_all (\<lambda>c. \<not> re_space c) w" "re_space y"
  shows "hasPrefix (u @ y # s) w \<longleftrightarrow> hasPrefix u w"
proof
  assume "hasPrefix (u @ y # s) w"
  then obtain r where r: "u @ y # s = w @ r" by (auto simp: hasPrefix_iff)
  then obtain v where "u = w @ v \<or> w = u @ y # v"
    by (auto simp: append_eq_append_conv2 Cons_eq_append_conv)
  with assms show "hasPrefix u w" by (auto simp: hasPrefix_iff)
qed (auto simp: hasPrefix_iff)

lemma find_word_skip:
  assumes "token w" "re_space y" "list_all (\<lambda>c. \<not> re_space c) u" "\<not> hasSuffix u w"
  shows "find_word w after_word (u @ y # s) = find_word w False s"
  using assms(3,4)
proof (induction u arbitrary: after_word)
  case Nil
  have "\<not> hasPrefix (y # s) w" using assms(1,2) hasPrefix_token [of w y "[]" s] by (simp add: token_def hasPrefix_iff)
  then show ?case using re_space_not_word [OF assms(2)] by (simp add: token_after_def)
next
  case (Cons c u)
  have n: "\<not> hasSuffix u w" using Cons.prems(2) by (auto simp: hasSuffix_iff)
  have "token_after w (c # u @ y # s) = None"
  proof (cases "hasPrefix (c # u) w")
    case True
    then obtain v where v: "c # u = w @ v" by (auto simp: hasPrefix_iff)
    then have "v \<noteq> []" using Cons.prems(2) by (auto simp: hasSuffix_iff)
    then have "dropWhile re_space (v @ y # s) = v @ y # s"
      using v Cons.prems(1) by (intro dropWhile_token) (metis list_all_append)
    moreover have "drop (length w) (c # u @ y # s) = v @ y # s" using v by (metis append_Cons append_assoc append_eq_conv_conj)
    ultimately show ?thesis by (simp add: token_after_def)
  next
    case False
    then show ?thesis using assms(1,2) hasPrefix_token [of w y "c # u" s] by (simp add: token_after_def token_def)
  qed
  with Cons n show ?case by simp
qed

lemma find_word_hit:
  assumes "token w" "token t" "rest = [] \<or> re_space (hd rest)"
  shows "find_word w False (w @ CHR '' '' # t @ rest) = Some t"
proof -
  have sp: "re_space CHR '' ''" by (simp add: re_space_def)
  have "takeWhile (\<lambda>c. \<not> re_space c) (t @ rest) = t"
    using assms(2,3) by (cases rest) (simp_all add: token_def list_all_iff takeWhile_append)
  moreover have "dropWhile re_space (t @ rest) = t @ rest" using assms(2) by (simp add: token_def dropWhile_token)
  moreover have "t @ rest \<noteq> CHR '' '' # t @ rest" by (metis not_Cons_self)
  ultimately have "token_after w (w @ CHR '' '' # t @ rest) = Some t"
    using assms(2) sp by (simp add: token_after_def hasPrefix_append token_def Let_def)
  with assms(1) show ?thesis by (cases w) (simp_all add: token_def)
qed

lemma find_mac_skip:
  assumes "list_all (\<lambda>c. \<not> re_space c) u" "re_space y"
    and "mac_after (y # s) = None \<or> \<not> hasSuffix u ''at'' \<and> \<not> hasSuffix u ''lladdr''"
  shows "find_mac (u @ y # s) = find_mac s"
  using assms(1,3)
proof (induction u)
  case Nil
  then show ?case using assms(2) by (auto simp: mac_here_def hasPrefix_def re_space_def)
next
  case (Cons c u)
  have here: "hasPrefix (c # u @ y # s) w \<Longrightarrow> mac_after (drop n (c # u @ y # s)) = None"
    if w: "token w" "n = length w" "mac_after (y # s) = None \<or> \<not> hasSuffix (c # u) w" for w n
  proof -
    assume "hasPrefix (c # u @ y # s) w"
    then have "hasPrefix (c # u) w" using w assms(2) hasPrefix_token [of w y "c # u" s] by (simp add: token_def)
    then obtain v where v: "c # u = w @ v" by (auto simp: hasPrefix_iff)
    then have d: "drop n (c # u @ y # s) = v @ y # s" by (metis append_Cons append_assoc append_eq_conv_conj w(2))
    show "mac_after (drop n (c # u @ y # s)) = None"
    proof (cases "v = []")
      case False
      then have "dropWhile re_space (v @ y # s) = v @ y # s"
        using v Cons.prems by (intro dropWhile_token) (metis list_all_append)
      then show ?thesis by (simp only: d) (simp add: mac_after_def)
    next
      case True
      then show ?thesis using w(3) v d by (auto simp: hasSuffix_iff)
    qed
  qed
  have keys: "token ''lladdr''" "token ''at''" "6 = length ''lladdr''" "2 = length ''at''"
    by (simp_all add: token_def re_space_def)
  have "hasPrefix (c # u @ y # s) ''lladdr'' \<Longrightarrow> mac_after (drop 6 (c # u @ y # s)) = None"
    using here [OF keys(1,3)] Cons.prems(2) by blast
  moreover have "hasPrefix (c # u @ y # s) ''at'' \<Longrightarrow> mac_after (drop 2 (c # u @ y # s)) = None"
    using here [OF keys(2,4)] Cons.prems(2) by blast
  ultimately have "mac_here (c # u @ y # s) = None" by (simp only: mac_here_def split: if_splits) blast
  moreover have "mac_after (y # s) = None \<or> \<not> hasSuffix u ''at'' \<and> \<not> hasSuffix u ''lladdr''"
    using Cons.prems(2) by (auto simp: hasSuffix_iff)
  ultimately show ?case using Cons by simp
qed

lemma mac_here_hit:
  assumes "length mac = 17" "list_all mac_char mac"
  shows "find_mac (''lladdr '' @ mac @ rest) = Some mac"
proof -
  have "\<not> re_space c" if "mac_char c" for c using that by (auto simp: mac_char_def re_space_def Let_def)
  then have "list_all (\<lambda>c. \<not> re_space c) mac" using assms(2) by (simp add: list_all_iff)
  then have "dropWhile re_space (mac @ rest) = mac @ rest" using assms(1) by (intro dropWhile_token) auto
  moreover have "mac @ rest \<noteq> CHR '' '' # mac @ rest" by (metis not_Cons_self)
  ultimately have "mac_after (CHR '' '' # mac @ rest) = Some mac"
    using assms by (simp add: mac_after_def re_space_def Let_def)
  then show ?thesis by (simp add: mac_here_def hasPrefix_def)
qed

section \<open>Properties\<close>

text \<open>
  Installing the binary touches no other file. When it reports no error the binary is the whole of a regular file of the
  downloaded archive with the right name; otherwise it is as it was before or gone, never half written.
\<close>
theorem install_all_or_nothing:
  assumes "installPaqetBinary h opened goarch latest get b = (b', err)"
  shows "(\<forall>p. p \<noteq> paqetBinPath \<longrightarrow> readFile b' p = readFile b p) \<and>
    (if err = None
     then paqetInstalled b' \<and> (\<exists>rel url evs name data. latest = Inr rel \<and> url \<in> snd ` set (rel_Assets rel) \<and> get url = Inr evs \<and>
       AssetEntry True name data None \<in> set evs \<and> hasSuffix name (''paqet_linux_'' @ paqetArchAssetSuffix goarch) \<and>
       readFile b' paqetBinPath = Some data)
     else readFile b' paqetBinPath \<in> {None, readFile b paqetBinPath})"
proof -
  have url: "paqet_asset pre as = [] \<or> paqet_asset pre as \<in> snd ` set as" for pre as
    by (induction pre as rule: paqet_asset.induct) auto
  consider (early) e where "b' = b" "err = Some e"
    | (found) rel evs where "latest = Inr rel" "get (paqet_asset (''paqet-linux-'' @ paqetArchAssetSuffix goarch @ ''-'') (rel_Assets rel)) = Inr evs"
        "paqet_asset (''paqet-linux-'' @ paqetArchAssetSuffix goarch @ ''-'') (rel_Assets rel) \<noteq> []"
        "extract_binary h opened (''paqet_linux_'' @ paqetArchAssetSuffix goarch) evs b = (b', err)"
    using assms by (auto simp: installPaqetBinary_def Let_def split: sum.splits if_splits)
  then show ?thesis
  proof cases
    case (found rel evs)
    note s = extract_binary_spec [OF found(4)]
    show ?thesis
    proof (cases err)
      case None
      with s obtain name data where e: "AssetEntry True name data None \<in> set evs"
          "hasSuffix name (''paqet_linux_'' @ paqetArchAssetSuffix goarch)" "readFile b' paqetBinPath = Some data"
        by (simp only: option.case) blast
      let ?url = "paqet_asset (''paqet-linux-'' @ paqetArchAssetSuffix goarch @ ''-'') (rel_Assets rel)"
      have "latest = Inr rel \<and> ?url \<in> snd ` set (rel_Assets rel) \<and> get ?url = Inr evs" using url found(1-3) by blast
      with e have "\<exists>rel url evs name data. latest = Inr rel \<and> url \<in> snd ` set (rel_Assets rel) \<and> get url = Inr evs \<and>
         AssetEntry True name data None \<in> set evs \<and> hasSuffix name (''paqet_linux_'' @ paqetArchAssetSuffix goarch) \<and>
         readFile b' paqetBinPath = Some data"
        by (intro exI [of _ rel] exI [of _ ?url] exI [of _ evs] exI [of _ name] exI [of _ data] conjI) blast+
      with s e(3) None show ?thesis by (simp only: paqetInstalled_def stat_readFile if_True) simp
    next
      case (Some e)
      with s show ?thesis by simp
    qed
  qed simp
qed

theorem install_all_or_nothing_witness:
  "readFile (fst (installPaqetBinary
       \<lparr>h_io = (\<lambda>p. None), h_mkdir = (\<lambda>p. None), h_look = (\<lambda>p. None), h_self = None, h_active = (\<lambda>u. False), h_cwd = []\<rparr>
       None ''amd64'' (Inr \<lparr>rel_Tag = ''v1'', rel_Assets = [(''paqet-linux-amd64-v1.tar.gz'', ''u'')]\<rparr>)
       (\<lambda>url. Inr [AssetEntry True ''paqet_linux_amd64'' ''elf'' (Some EOF)]) \<lparr>files = [(''/a'', ''x'')], ran = []\<rparr>)) ''/a'' = Some ''x''"
proof -
  let ?r = "installPaqetBinary
       \<lparr>h_io = (\<lambda>p. None), h_mkdir = (\<lambda>p. None), h_look = (\<lambda>p. None), h_self = None, h_active = (\<lambda>u. False), h_cwd = []\<rparr>
       None ''amd64'' (Inr \<lparr>rel_Tag = ''v1'', rel_Assets = [(''paqet-linux-amd64-v1.tar.gz'', ''u'')]\<rparr>)
       (\<lambda>url. Inr [AssetEntry True ''paqet_linux_amd64'' ''elf'' (Some EOF)]) \<lparr>files = [(''/a'', ''x'')], ran = []\<rparr>"
  have "?r = (fst ?r, snd ?r)" by simp
  from install_all_or_nothing [OF this, THEN conjunct1, rule_format, of "''/a''"]
  show ?thesis by (simp add: paqetBinPath_def readFile_def)
qed

definition plain_token :: "string \<Rightarrow> bool" where
  "plain_token t \<longleftrightarrow> token t \<and> \<not> hasSuffix t ''dev'' \<and> \<not> hasSuffix t ''src'' \<and> \<not> hasSuffix t ''via''"

text \<open>
  The network is read off the output of \<open>ip\<close> as it prints it: the gateway, the interface and the source address
  after their keywords, whatever they are (no white space, and not ending in a keyword), and the hardware address
  of the gateway in lower case.
\<close>
theorem detect_reads_route:
  assumes "plain_token dst" "plain_token gw" "plain_token ifc" "plain_token ip" "rest = [] \<or> re_space (hd rest)"
    and "cmd [''ip'', ''route'', ''get'', ''1.1.1.1''] = Some (dst @ '' via '' @ gw @ '' dev '' @ ifc @ '' src '' @ ip @ rest)"
    and "cmd [''ip'', ''neigh'', ''show'', gw] = Some (gw @ '' dev '' @ ifc @ '' lladdr '' @ mac @ state)"
    and "length mac = 17" "list_all mac_char mac"
  shows "detectNetwork cmd = \<lparr>dn_Interface = ifc, dn_LocalIP = ip, dn_RouterMAC = map lower_char mac\<rparr>"
proof -
  let ?route = "dst @ '' via '' @ gw @ '' dev '' @ ifc @ '' src '' @ ip @ rest"
  have sp: "re_space CHR '' ''" by (simp add: re_space_def)
  have key: "token ''via''" "token ''dev''" "token ''src''" by (simp_all add: token_def re_space_def)
  have seg: "\<not> hasSuffix ''via'' ''dev''" "\<not> hasSuffix ''via'' ''src''" "\<not> hasSuffix ''dev'' ''src''"
    by (simp_all add: hasSuffix_def)
  have t: "token x" "list_all (\<lambda>c. \<not> re_space c) x" "\<not> hasSuffix x ''dev''" "\<not> hasSuffix x ''src''" "\<not> hasSuffix x ''via''"
    if "plain_token x" for x using that by (simp_all add: plain_token_def token_def)
  have l: "list_all (\<lambda>c. \<not> re_space c) ''via''" "list_all (\<lambda>c. \<not> re_space c) ''dev''" "list_all (\<lambda>c. \<not> re_space c) ''src''"
    using key by (simp_all add: token_def)
  have end_of: "x = [] \<or> re_space (hd x)" if "x = CHR '' '' # y" for x y using that sp by simp
  have via: "find_word ''via'' False ?route = Some gw"
    using find_word_skip [OF key(1) sp t(2,5) [OF assms(1)], of False "''via'' @ CHR '' '' # gw @ '' dev '' @ ifc @ '' src '' @ ip @ rest"]
      find_word_hit [OF key(1) t(1) [OF assms(2)], of "'' dev '' @ ifc @ '' src '' @ ip @ rest"] sp by simp
  have dev: "find_word ''dev'' False ?route = Some ifc"
    using find_word_skip [OF key(2) sp t(2,3) [OF assms(1)], of False "''via'' @ CHR '' '' # gw @ '' dev '' @ ifc @ '' src '' @ ip @ rest"]
      find_word_skip [OF key(2) sp l(1) seg(1), of False "gw @ '' dev '' @ ifc @ '' src '' @ ip @ rest"]
      find_word_skip [OF key(2) sp t(2,3) [OF assms(2)], of False "''dev'' @ CHR '' '' # ifc @ '' src '' @ ip @ rest"]
      find_word_hit [OF key(2) t(1) [OF assms(3)], of "'' src '' @ ip @ rest"] sp by simp
  have src: "find_word ''src'' False ?route = Some ip"
    using find_word_skip [OF key(3) sp t(2,4) [OF assms(1)], of False "''via'' @ CHR '' '' # gw @ '' dev '' @ ifc @ '' src '' @ ip @ rest"]
      find_word_skip [OF key(3) sp l(1) seg(2), of False "gw @ '' dev '' @ ifc @ '' src '' @ ip @ rest"]
      find_word_skip [OF key(3) sp t(2,4) [OF assms(2)], of False "''dev'' @ CHR '' '' # ifc @ '' src '' @ ip @ rest"]
      find_word_skip [OF key(3) sp l(2) seg(3), of False "ifc @ '' src '' @ ip @ rest"]
      find_word_skip [OF key(3) sp t(2,4) [OF assms(3)], of False "''src'' @ CHR '' '' # ip @ rest"]
      find_word_hit [OF key(3) t(1) [OF assms(4)] assms(5)] by simp
  have no_mac: "mac_after (CHR '' '' # CHR ''d'' # CHR ''e'' # CHR ''v'' # s) = None"
    "mac_after (CHR '' '' # CHR ''l'' # s) = None" for s
    by (simp_all add: mac_after_def re_space_def mac_char_def numeral_eq_Suc)
  have kd: "\<not> hasSuffix ''dev'' ''at''" "\<not> hasSuffix ''dev'' ''lladdr''" by (simp_all add: hasSuffix_def)
  have "find_mac (gw @ '' dev '' @ ifc @ '' lladdr '' @ mac @ state) = Some mac"
    using find_mac_skip [OF t(2) [OF assms(2)] sp, of "''dev'' @ CHR '' '' # ifc @ '' lladdr '' @ mac @ state"]
      find_mac_skip [OF l(2) sp, of "ifc @ '' lladdr '' @ mac @ state"]
      find_mac_skip [OF t(2) [OF assms(3)] sp, of "''lladdr '' @ mac @ state"]
      mac_here_hit [OF assms(8,9), of state] no_mac kd by simp
  moreover have "mac \<noteq> []" using assms(8) by auto
  moreover have "gw \<noteq> []" using assms(2) by (simp add: plain_token_def token_def)
  ultimately show ?thesis
    by (simp only: detectNetwork_def assms(6) option.case via dev src gatewayIP_def routerMAC_def assms(7) or_empty_def Let_def)
       simp
qed

theorem detect_reads_route_witness:
  "detectNetwork (\<lambda>c. if c = [''ip'', ''route'', ''get'', ''1.1.1.1''] then Some ''1.1.1.1 via 10.0.0.1 dev ens3 src 10.0.0.9 uid 0''
     else if c = [''ip'', ''neigh'', ''show'', ''10.0.0.1''] then Some ''10.0.0.1 dev ens3 lladdr 52:54:00:AB:cd:ef REACHABLE'' else None) =
   \<lparr>dn_Interface = ''ens3'', dn_LocalIP = ''10.0.0.9'', dn_RouterMAC = ''52:54:00:ab:cd:ef''\<rparr>"
proof -
  have t: "plain_token ''1.1.1.1''" "plain_token ''10.0.0.1''" "plain_token ''ens3''" "plain_token ''10.0.0.9''"
    by (simp_all add: plain_token_def token_def re_space_def hasSuffix_def)
  have m: "length ''52:54:00:AB:cd:ef'' = 17" "list_all mac_char ''52:54:00:AB:cd:ef''"
    by (simp_all add: mac_char_def)
  have l: "map lower_char ''52:54:00:AB:cd:ef'' = ''52:54:00:ab:cd:ef''" by (simp add: lower_char_def char_of_def bit_0)
  show ?thesis
    by (rule detect_reads_route [OF t, of "'' uid 0''", OF _ _ _ m, of _ "'' REACHABLE''", unfolded l]) (simp_all add: re_space_def)
qed

end
