(* ===== verification/Paqet.thy ===== *)
theory Paqet
  imports Wizard_Build Backup Paqet_Install
begin

text \<open>
  The engine that wraps the separate program paqet: its configuration (\<open>paqet.go\<close>), the firewall rules it needs
  (\<open>paqet_install.go\<close>), and its wizard and editor (\<open>paqet_wizard.go\<close>). \<open>iptables\<close> and YAML are arguments, and so is
  what theory \<open>Paqet_Install\<close> takes from outside.
\<close>

section \<open>Configuration\<close>

record paqetForward =
  pf_Listen :: string
  pf_Target :: string
  pf_Protocol :: string

record paqetSocks5 =
  ps_Listen :: string
  ps_Username :: string
  ps_Password :: string

record paqetNetwork =
  pn_Interface :: string
  pn_GUID :: string
  pn_Addr :: string
  pn_RouterMAC :: string
  pn_LocalFlag :: "string list"
  pn_RemoteFlag :: "string list"
  pn_Sockbuf :: "int option"

record paqetKCP =
  pk_Mode :: string
  pk_NoDelay :: "int option"
  pk_Interval :: "int option"
  pk_Resend :: "int option"
  pk_NoCongestion :: "int option"
  pk_WDelay :: "bool option"
  pk_AckNoDelay :: "bool option"
  pk_MTU :: int
  pk_Rcvwnd :: int
  pk_Sndwnd :: int
  pk_Dshard :: int
  pk_Pshard :: int
  pk_Block :: string
  pk_Key :: string
  pk_Smuxbuf :: int
  pk_Streambuf :: int
  pk_Smuxkalive :: int
  pk_Smuxktimeout :: int

record paqetConf =
  pc_Role :: string
  pc_LogLevel :: string
  pc_Listen :: "string option"
  pc_SOCKS5 :: "paqetSocks5 list"
  pc_Forward :: "paqetForward list"
  pc_Network :: paqetNetwork
  pc_Server :: "string option"
  pc_Protocol :: string
  pc_Conn :: int
  pc_KCP :: paqetKCP

definition new_kcp :: "string \<Rightarrow> paqetKCP" where
  "new_kcp key = \<lparr>pk_Mode = [], pk_NoDelay = None, pk_Interval = None, pk_Resend = None, pk_NoCongestion = None,
     pk_WDelay = None, pk_AckNoDelay = None, pk_MTU = 0, pk_Rcvwnd = 0, pk_Sndwnd = 0, pk_Dshard = 0, pk_Pshard = 0,
     pk_Block = ''aes'', pk_Key = key, pk_Smuxbuf = 0, pk_Streambuf = 0, pk_Smuxkalive = 0, pk_Smuxktimeout = 0\<rparr>"

definition gaming :: "paqetKCP \<Rightarrow> paqetKCP" where
  "gaming k = k\<lparr>pk_Mode := ''manual'', pk_NoDelay := Some 1, pk_Interval := Some 10, pk_Resend := Some 2,
     pk_NoCongestion := Some 1, pk_WDelay := Some True, pk_AckNoDelay := Some False, pk_MTU := 1420,
     pk_Rcvwnd := 8192, pk_Sndwnd := 8192, pk_Smuxbuf := 128 * 2 ^ 20, pk_Streambuf := 16 * 2 ^ 20\<rparr>"

text \<open>The presets with what they apply; the last one is entered by hand.\<close>

definition paqetKCPPresets :: "(string \<times> (paqetKCP \<Rightarrow> paqetKCP) option) list" where
  "paqetKCPPresets =
    [(''fast3'', Some (\<lambda>k. k\<lparr>pk_Mode := ''fast3''\<rparr>)),
     (''gaming (manual, max optimization)'', Some gaming),
     (''normal'', Some (\<lambda>k. k\<lparr>pk_Mode := ''normal''\<rparr>)),
     (''custom manual'', None)]"

text \<open>Without several backends per port: the first one is used.\<close>

definition first_backend :: "string \<Rightarrow> string" where
  "first_backend target = (case index_char target CHR ''|'' of None \<Rightarrow> target | Some i \<Rightarrow> take i target)"

definition paqetForwardsFromPorts :: "PortMap list \<Rightarrow> paqetForward list" where
  "paqetForwardsFromPorts ports =
     concat (map (\<lambda>p.
       let target = first_backend (Target p) in
       \<lparr>pf_Listen = Listen p, pf_Target = target, pf_Protocol = ''tcp''\<rparr> #
       (if UDP p then [\<lparr>pf_Listen = Listen p, pf_Target = target, pf_Protocol = ''udp''\<rparr>] else [])) ports)"

definition parsePaqetFlags :: "string \<Rightarrow> string list" where
  "parsePaqetFlags raw =
     (let upper = (\<lambda>c. let n = (of_char c :: nat) in if 97 \<le> n \<and> n \<le> 122 then char_of (n - 32) else c);
          out = filter (\<lambda>p. p \<noteq> []) (map (\<lambda>p. map upper (trimSpace p)) (split_char (trimSpace raw) CHR '',''))
      in if trimSpace raw = [] \<or> out = [] then [''PA''] else out)"

section \<open>Firewall rules\<close>

definition paqetIPTablesRules :: "string \<Rightarrow> string list list" where
  "paqetIPTablesRules port =
    [[''-t'', ''raw'', ''-A'', ''PREROUTING'', ''-p'', ''tcp'', ''--dport'', port, ''-j'', ''NOTRACK''],
     [''-t'', ''raw'', ''-A'', ''OUTPUT'', ''-p'', ''tcp'', ''--sport'', port, ''-j'', ''NOTRACK''],
     [''-t'', ''mangle'', ''-A'', ''OUTPUT'', ''-p'', ''tcp'', ''--sport'', port, ''--tcp-flags'', ''RST'', ''RST'', ''-j'', ''DROP'']]"

type_synonym 'k iptables = "string list \<Rightarrow> 'k \<Rightarrow> 'k \<times> bool"

definition paqetIPTableRuleExists :: "'k iptables \<Rightarrow> string list \<Rightarrow> 'k \<Rightarrow> 'k \<times> bool" where
  "paqetIPTableRuleExists ipt appendArgs k = ipt (appendArgs[2 := ''-C'']) k"

fun apply_rules :: "'k iptables \<Rightarrow> string list list \<Rightarrow> 'k \<Rightarrow> 'k \<times> goerror option" where
  "apply_rules ipt [] k = (k, None)"
| "apply_rules ipt (rule # rules) k =
     (case paqetIPTableRuleExists ipt rule k of
        (k1, True) \<Rightarrow> apply_rules ipt rules k1
      | (k1, False) \<Rightarrow>
          (case ipt rule k1 of
             (k2, True) \<Rightarrow> apply_rules ipt rules k2
           | (k2, False) \<Rightarrow> (k2, Some (Msg (''iptables '' @ join rule '' '')))))"

definition applyPaqetIPTables :: "'k iptables \<Rightarrow> string \<Rightarrow> 'k \<Rightarrow> 'k \<times> goerror option" where
  "applyPaqetIPTables ipt port = apply_rules ipt (paqetIPTablesRules port)"

fun verify_rules :: "'k iptables \<Rightarrow> string list list \<Rightarrow> 'k \<Rightarrow> 'k \<times> bool" where
  "verify_rules ipt [] k = (k, True)"
| "verify_rules ipt (rule # rules) k =
     (case paqetIPTableRuleExists ipt rule k of
        (k1, True) \<Rightarrow> verify_rules ipt rules k1
      | (k1, False) \<Rightarrow> (k1, False))"

definition verifyPaqetIPTables :: "'k iptables \<Rightarrow> string \<Rightarrow> 'k \<Rightarrow> 'k \<times> bool" where
  "verifyPaqetIPTables ipt port = verify_rules ipt (paqetIPTablesRules port)"

section \<open>Questions\<close>

record 'k paqet_env =
  pq_ipt :: "'k iptables"
  pq_save :: "'k \<Rightarrow> string option"
  pq_yaml :: "paqetConf \<Rightarrow> goerror + string"
  pq_load :: "string \<Rightarrow> paqetConf option"
  pq_cmd :: "string list \<Rightarrow> string option"
  pq_random :: bytes
  pq_arch :: string
  pq_latest :: "goerror + release"
  pq_get :: "string \<Rightarrow> goerror + asset_event list"
  pq_open :: "goerror option"

text \<open>The files: \<open>yaml.Marshal\<close> below a comment, and \<open>yaml.Unmarshal\<close>; \<open>None\<close> stands for either error.\<close>

definition renderPaqetYAML :: "('k, 'm) paqet_env_scheme \<Rightarrow> paqetConf \<Rightarrow> goerror + string" where
  "renderPaqetYAML env c =
     (case pq_yaml env c of
        Inl e \<Rightarrow> Inl e
      | Inr data \<Rightarrow> Inr (''# generated by the rmtunnel wizard for paqet '' @ dash @ '' https://github.com/hanselime/paqet'' @ [newline] @ data))"

definition loadPaqetConf :: "('k, 'm) paqet_env_scheme \<Rightarrow> box \<Rightarrow> string \<Rightarrow> paqetConf option" where
  "loadPaqetConf env b path = (case readFile b path of None \<Rightarrow> None | Some data \<Rightarrow> pq_load env data)"

definition ensurePaqetBinary :: "('k, 'm) paqet_env_scheme \<Rightarrow> host \<Rightarrow> box \<Rightarrow> (bool \<times> box) ask" where
  "ensurePaqetBinary env h b =
     (if paqetInstalled b then answer (True, b)
      else then_ask (confirm True) (\<lambda>yes.
        if \<not> yes then answer (False, b)
        else case installPaqetBinary h (pq_open env) (pq_arch env) (pq_latest env) (pq_get env) b of
          (b1, err) \<Rightarrow> answer (err = None, b1)))"

definition askPaqetNetwork :: "('k, 'm) paqet_env_scheme \<Rightarrow> string \<Rightarrow> (string \<times> string \<times> string) ask" where
  "askPaqetNetwork env listenPort =
     (let d = detectNetwork (pq_cmd env) in
      then_ask (readLineDefault (dn_Interface d)) (\<lambda>iface.
      then_ask (readLineDefault (dn_LocalIP d)) (\<lambda>ip.
      then_ask (readLineDefault (dn_RouterMAC d)) (\<lambda>mac. answer (iface, ip @ '':'' @ listenPort, mac)))))"

definition askPaqetLogLevel :: "string ask" where
  "askPaqetLogLevel = readLineDefault ''info''"

definition noAuth :: "string \<Rightarrow> bool" where
  "noAuth block \<longleftrightarrow> block = ''none'' \<or> block = ''null''"

definition askPaqetBlock :: "('k, 'm) paqet_env_scheme \<Rightarrow> paqetKCP \<Rightarrow> bool \<Rightarrow> paqetKCP ask" where
  "askPaqetBlock env k mustMatchKey =
     then_ask (readLineDefault ''aes'') (\<lambda>block.
       let k = k\<lparr>pk_Block := block\<rparr> in
       if mustMatchKey \<and> \<not> noAuth block then
         then_ask (ask_until (\<lambda>key. key \<noteq> []) readLine) (\<lambda>key. answer (k\<lparr>pk_Key := key\<rparr>))
       else if \<not> noAuth block \<and> pk_Key k = [] then answer (k\<lparr>pk_Key := genToken (pq_random env)\<rparr>)
       else answer k)"

definition askPaqetManual :: "paqetKCP \<Rightarrow> paqetKCP ask" where
  "askPaqetManual k =
     then_ask (askInt ''1'' 1) (\<lambda>nodelay.
     then_ask (askInt ''10'' 10) (\<lambda>interval.
     then_ask (askInt ''2'' 2) (\<lambda>resend.
     then_ask (askInt ''1'' 1) (\<lambda>nocongestion.
     then_ask (confirm False) (\<lambda>wdelay.
     then_ask (confirm True) (\<lambda>acknodelay.
     then_ask (askInt ''1420'' 1420) (\<lambda>mtu.
     then_ask (askInt ''2048'' 2048) (\<lambda>rcvwnd.
     then_ask (askInt ''2048'' 2048) (\<lambda>sndwnd.
       let k = k\<lparr>pk_Mode := ''manual'', pk_NoDelay := Some nodelay, pk_Interval := Some interval, pk_Resend := Some resend,
                 pk_NoCongestion := Some nocongestion, pk_WDelay := Some wdelay, pk_AckNoDelay := Some acknodelay,
                 pk_MTU := mtu, pk_Rcvwnd := rcvwnd, pk_Sndwnd := sndwnd\<rparr> in
     then_ask (confirm False) (\<lambda>fec.
     then_ask (if fec then then_ask (askInt ''10'' 10) (\<lambda>d. then_ask (askInt ''3'' 3) (\<lambda>p. answer (d, p))) else answer (0, 0)) (\<lambda>shards.
     then_ask (askInt ''4194304'' 4194304) (\<lambda>smuxbuf.
     then_ask (askInt ''2097152'' 2097152) (\<lambda>streambuf.
       answer (k\<lparr>pk_Dshard := fst shards, pk_Pshard := snd shards, pk_Smuxbuf := smuxbuf, pk_Streambuf := streambuf\<rparr>))))))))))))))"

definition askPaqetKCP :: "('k, 'm) paqet_env_scheme \<Rightarrow> string \<Rightarrow> bool \<Rightarrow> paqetKCP ask" where
  "askPaqetKCP env key mustMatchKey =
     then_ask (askChoice ''1'') (\<lambda>choice.
       let idx = (case indexFromChoice choice (length paqetKCPPresets) of None \<Rightarrow> 0 | Some i \<Rightarrow> i) in
       case snd (paqetKCPPresets ! idx) of
         Some apply \<Rightarrow> askPaqetBlock env (apply (new_kcp key)) mustMatchKey
       | None \<Rightarrow> then_ask (askPaqetManual (new_kcp key)) (\<lambda>k. askPaqetBlock env k mustMatchKey))"

definition askSocks5 :: "paqetSocks5 list ask" where
  "askSocks5 =
     then_ask (confirm False) (\<lambda>yes.
       if \<not> yes then answer []
       else
         then_ask (readLineDefault ''127.0.0.1:1080'') (\<lambda>listen.
         then_ask (readLineDefault []) (\<lambda>user.
         then_ask (if user \<noteq> [] then readLineDefault [] else answer []) (\<lambda>password.
           answer [\<lparr>ps_Listen = listen, ps_Username = user, ps_Password = password\<rparr>]))))"

section \<open>Building a tunnel\<close>

definition persistPaqetIPTables :: "('k, 'm) paqet_env_scheme \<Rightarrow> host \<Rightarrow> 'k \<Rightarrow> box \<Rightarrow> box" where
  "persistPaqetIPTables env h k b =
     (if h_look h ''netfilter-persistent'' \<noteq> None then runCmd [''netfilter-persistent'', ''save''] b
      else if h_look h ''iptables-save'' \<noteq> None then
        (case pq_save env k of None \<Rightarrow> b | Some out \<Rightarrow> fst (writeFile h ''/etc/iptables/rules.v4'' out b))
      else b)"

text \<open>Apply, confirm, and make permanent: the same steps in the wizard and in the menu of a tunnel.\<close>

definition setPaqetIPTables :: "('k, 'm) paqet_env_scheme \<Rightarrow> host \<Rightarrow> string \<Rightarrow> box \<times> 'k \<Rightarrow> box \<times> 'k" where
  "setPaqetIPTables env h port s =
     (case applyPaqetIPTables (pq_ipt env) port (snd s) of
        (k1, Some e) \<Rightarrow> (fst s, k1)
      | (k1, None) \<Rightarrow>
          (case verifyPaqetIPTables (pq_ipt env) port k1 of
             (k2, True) \<Rightarrow> (persistPaqetIPTables env h k2 (fst s), k2)
           | (k2, False) \<Rightarrow> (fst s, k2)))"

text \<open>\<open>portOf\<close> is what follows the last colon.\<close>

definition reapplyPaqetIPTables :: "('k, 'm) paqet_env_scheme \<Rightarrow> host \<Rightarrow> tunnelRef \<Rightarrow> box \<times> 'k \<Rightarrow> (box \<times> 'k) ask" where
  "reapplyPaqetIPTables env h t s =
     (case loadPaqetConf env (fst s) (tr_Path t) of
        None \<Rightarrow> then_ask pressEnter (\<lambda>u. answer s)
      | Some c \<Rightarrow>
          (case pc_Listen c of
             None \<Rightarrow> then_ask pressEnter (\<lambda>u. answer s)
           | Some addr \<Rightarrow>
               if addr = [] then then_ask pressEnter (\<lambda>u. answer s)
               else let port = (case last_index addr CHR '':'' of None \<Rightarrow> addr | Some i \<Rightarrow> drop (i + 1) addr) in
                 then_ask pressEnter (\<lambda>u. answer (setPaqetIPTables env h port s))))"

definition finishPaqetWizard ::
    "('k, 'm) paqet_env_scheme \<Rightarrow> host \<Rightarrow> string \<Rightarrow> string \<Rightarrow> paqetConf \<Rightarrow> string \<Rightarrow> box \<times> 'k \<Rightarrow> (box \<times> 'k) ask" where
  "finishPaqetWizard env h role name c iptablesPort s =
     (case renderPaqetYAML env c of
        Inl e \<Rightarrow> then_ask pressEnter (\<lambda>u. answer s)
      | Inr yaml \<Rightarrow>
          then_ask (readLineDefault (tunnelConfigPath role name)) (\<lambda>path.
            if h_mkdir h (pathDir (fullPath h path)) \<noteq> None then then_ask pressEnter (\<lambda>u. answer s)
            else case writeFile h (cleanPath (fullPath h path)) yaml (fst s) of
              (b1, Some e) \<Rightarrow> then_ask pressEnter (\<lambda>u. answer (b1, snd s))
            | (b1, None) \<Rightarrow>
                then_ask (if iptablesPort \<noteq> [] then confirm True else answer False) (\<lambda>apply.
                let s2 = (if apply then setPaqetIPTables env h iptablesPort (b1, snd s) else (b1, snd s)) in
                then_ask (confirm True) (\<lambda>install.
                then_ask pressEnter (\<lambda>u. answer
                  (if install then (installPaqetService h (systemdUnitInstance role name) path (fst s2), snd s2) else s2))))))"

text \<open>The answers of the two wizards: the configuration and, on the listening side, the port for the firewall rules.\<close>

definition buildPaqetKharej :: "('k, 'm) paqet_env_scheme \<Rightarrow> (paqetConf \<times> string) ask" where
  "buildPaqetKharej env =
     then_ask (readLineDefault ''7979'') (\<lambda>port.
     then_ask (askPaqetNetwork env port) (\<lambda>(iface, addr, mac).
     then_ask (askPaqetKCP env [] False) (\<lambda>kcp.
     then_ask (askInt ''1'' 1) (\<lambda>conn.
     then_ask askPaqetLogLevel (\<lambda>logLevel.
       answer (\<lparr>pc_Role = ''server'', pc_LogLevel = logLevel, pc_Listen = Some ('':'' @ port), pc_SOCKS5 = [], pc_Forward = [],
          pc_Network = \<lparr>pn_Interface = iface, pn_GUID = [], pn_Addr = addr, pn_RouterMAC = mac,
             pn_LocalFlag = [''PA''], pn_RemoteFlag = [], pn_Sockbuf = None\<rparr>,
          pc_Server = None, pc_Protocol = ''kcp'', pc_Conn = conn, pc_KCP = kcp\<rparr>, port))))))"

definition buildPaqetIran :: "('k, 'm) paqet_env_scheme \<Rightarrow> paqetConf ask" where
  "buildPaqetIran env =
     then_ask readLine (\<lambda>serverAddr.
     then_ask (askInt ''1'' 1) (\<lambda>conn.
     then_ask (if conn = 1 then readLineDefault ''0'' else answer ''0'') (\<lambda>listenPort.
     then_ask (askPaqetNetwork env listenPort) (\<lambda>(iface, addr, mac).
     then_ask (askPaqetKCP env [] True) (\<lambda>kcp.
     then_ask (askPorts False) (\<lambda>ports.
     then_ask askSocks5 (\<lambda>socks5.
     then_ask askPaqetLogLevel (\<lambda>logLevel.
       answer \<lparr>pc_Role = ''client'', pc_LogLevel = logLevel, pc_Listen = None, pc_SOCKS5 = socks5,
          pc_Forward = paqetForwardsFromPorts ports,
          pc_Network = \<lparr>pn_Interface = iface, pn_GUID = [], pn_Addr = addr, pn_RouterMAC = mac,
             pn_LocalFlag = [''PA''], pn_RemoteFlag = [''PA''], pn_Sockbuf = None\<rparr>,
          pc_Server = Some serverAddr, pc_Protocol = ''kcp'', pc_Conn = conn, pc_KCP = kcp\<rparr>))))))))"

text \<open>
  Both run within \<open>wizardClient\<close> and \<open>wizardServer\<close>, whose \<open>runWizard\<close> is put here, around the questions that can be
  cancelled: a cancellation keeps the binary that was installed before them.
\<close>

definition wizardPaqetKharej :: "('k, 'm) paqet_env_scheme \<Rightarrow> host \<Rightarrow> string \<Rightarrow> box \<times> 'k \<Rightarrow> (box \<times> 'k) ask" where
  "wizardPaqetKharej env h name s =
     then_ask (ensurePaqetBinary env h (fst s)) (\<lambda>(ready, b).
       if \<not> ready then then_ask pressEnter (\<lambda>u. answer (b, snd s))
       else then_ask (runWizard (buildPaqetKharej env)) (\<lambda>r.
         case r of
           None \<Rightarrow> answer (b, snd s)
         | Some (c, port) \<Rightarrow> finishPaqetWizard env h ''paqet-server'' name c port (b, snd s)))"

definition wizardPaqetIran :: "('k, 'm) paqet_env_scheme \<Rightarrow> host \<Rightarrow> string \<Rightarrow> box \<times> 'k \<Rightarrow> (box \<times> 'k) ask" where
  "wizardPaqetIran env h name s =
     then_ask (ensurePaqetBinary env h (fst s)) (\<lambda>(ready, b).
       if \<not> ready then then_ask pressEnter (\<lambda>u. answer (b, snd s))
       else then_ask (runWizard (buildPaqetIran env)) (\<lambda>r.
         case r of
           None \<Rightarrow> answer (b, snd s)
         | Some c \<Rightarrow> finishPaqetWizard env h ''paqet-client'' name c [] (b, snd s)))"

section \<open>Editing a tunnel\<close>

text \<open>Showing the settings reads through a pointer that the file may have left nil.\<close>

definition printPaqetSettings_ok :: "paqetConf \<Rightarrow> bool" where
  "printPaqetSettings_ok c \<longleftrightarrow> (if pc_Role c = ''client'' then pc_Server c \<noteq> None else pc_Listen c \<noteq> None)"

definition savePaqetEdit :: "('k, 'm) paqet_env_scheme \<Rightarrow> host \<Rightarrow> tunnelRef \<Rightarrow> box \<Rightarrow> paqetConf \<Rightarrow> box ask" where
  "savePaqetEdit env h t b c =
     (case renderPaqetYAML env c of
        Inl e \<Rightarrow> then_ask pressEnter (\<lambda>u. answer b)
      | Inr yaml \<Rightarrow>
          (case writeFile h (tr_Path t) yaml b of
             (b1, Some e) \<Rightarrow> then_ask pressEnter (\<lambda>u. answer b1)
           | (b1, None) \<Rightarrow>
               then_ask (confirm True) (\<lambda>restart. then_ask pressEnter (\<lambda>u.
                 answer (if restart then runCmd [''systemctl'', ''restart'', tunnel_unit t] b1 else b1)))))"

definition editPaqetTunnelBody :: "('k, 'm) paqet_env_scheme \<Rightarrow> host \<Rightarrow> tunnelRef \<Rightarrow> box \<Rightarrow> box ask" where
  "editPaqetTunnelBody env h t b =
     (case loadPaqetConf env b (tr_Path t) of
        None \<Rightarrow> then_ask pressEnter (\<lambda>u. answer b)
      | Some c \<Rightarrow>
          if \<not> printPaqetSettings_ok c then panic
          else
            let client = (pc_Role c = ''client'');
                kcpOpt = (if client then ''3'' else ''2'');
                logOpt = (if client then ''4'' else ''3'');
                save = savePaqetEdit env h t b
            in then_ask readLine (\<lambda>choice.
              if choice = ''1'' then
                then_ask (readLineDefault (pk_Key (pc_KCP c))) (\<lambda>key. save (c\<lparr>pc_KCP := (pc_KCP c)\<lparr>pk_Key := key\<rparr>\<rparr>))
              else if client \<and> choice = ''2'' then
                then_ask (askPorts False) (\<lambda>ports. save (c\<lparr>pc_Forward := paqetForwardsFromPorts ports\<rparr>))
              else if choice = kcpOpt then
                then_ask (askPaqetKCP env (pk_Key (pc_KCP c)) False) (\<lambda>kcp. save (c\<lparr>pc_KCP := kcp\<rparr>))
              else if choice = logOpt then
                then_ask askPaqetLogLevel (\<lambda>level. save (c\<lparr>pc_LogLevel := level\<rparr>))
              else answer b))"

text \<open>A cancelled edit leaves the box as it is.\<close>

definition editPaqetTunnel :: "('k, 'm) paqet_env_scheme \<Rightarrow> host \<Rightarrow> tunnelRef \<Rightarrow> box \<Rightarrow> box ask" where
  "editPaqetTunnel env h t b =
     then_ask (runWizard (editPaqetTunnelBody env h t b)) (\<lambda>r. answer (case r of None \<Rightarrow> b | Some b' \<Rightarrow> b'))"

section \<open>The rules are applied once\<close>

text \<open>
  What \<open>iptables\<close> is relied on for, with \<open>copies k r\<close> the number of rules in the kernel that appending \<open>r\<close> has
  made: checking changes nothing and succeeds when there is one, appending adds one or fails without effect.
\<close>

definition iptables_ok :: "'k iptables \<Rightarrow> ('k \<Rightarrow> string list \<Rightarrow> nat) \<Rightarrow> bool" where
  "iptables_ok ipt copies \<longleftrightarrow>
     (\<forall>k r. length r > 2 \<longrightarrow> r ! 2 = ''-A'' \<longrightarrow>
        ipt (r[2 := ''-C'']) k = (k, copies k r > 0) \<and>
        copies (fst (ipt r k)) = (if snd (ipt r k) then (copies k)(r := copies k r + 1) else copies k))"

lemma iptables_append:
  assumes "iptables_ok ipt copies" "length r > 2" "r ! 2 = ''-A''" "ipt r k = (k', ok)"
  shows "copies k' = (if ok then (copies k)(r := copies k r + 1) else copies k)"
  using assms unfolding iptables_ok_def by (metis fst_conv snd_conv)

lemma apply_rules_spec:
  assumes "iptables_ok ipt copies" "\<forall>r\<in>set rs. length r > 2 \<and> r ! 2 = ''-A''" "distinct rs"
    and "apply_rules ipt rs k = (k', err)"
  shows "(\<forall>r. r \<notin> set rs \<longrightarrow> copies k' r = copies k r) \<and>
    (\<forall>r. copies k r \<le> copies k' r \<and> copies k' r \<le> max 1 (copies k r)) \<and>
    (err = None \<longrightarrow> (\<forall>r\<in>set rs. 0 < copies k' r))"
  using assms(2-4)
proof (induction rs arbitrary: k)
  case (Cons r rs)
  have r: "length r > 2" "r ! 2 = ''-A''" using Cons.prems(1) by simp_all
  have chk: "paqetIPTableRuleExists ipt r k = (k, copies k r > 0)"
    using assms(1) r by (simp add: iptables_ok_def paqetIPTableRuleExists_def)
  have rs: "\<forall>r\<in>set rs. length r > 2 \<and> r ! 2 = ''-A''" "distinct rs" "r \<notin> set rs" using Cons.prems(1,2) by simp_all
  show ?case
  proof (cases "0 < copies k r")
    case True
    then have "apply_rules ipt rs k = (k', err)" using Cons.prems(3) chk by simp
    note ih = Cons.IH [OF rs(1,2) this]
    have "0 < copies k' r" using ih True by (meson less_le_trans)
    then show ?thesis using ih by simp
  next
    case False
    obtain k1 ok where a: "ipt r k = (k1, ok)" by fastforce
    note s = iptables_append [OF assms(1) r a]
    show ?thesis
    proof (cases ok)
      case True
      then have "apply_rules ipt rs k1 = (k', err)" using Cons.prems(3) chk False a by simp
      note ih = Cons.IH [OF rs(1,2) this]
      have c1: "copies k1 x = (if x = r then 1 else copies k x)" for x using s True False by simp
      have one: "copies k' r = 1" "copies k r = 0" using ih rs(3) c1 False by simp_all
      have "copies k x \<le> copies k' x \<and> copies k' x \<le> max 1 (copies k x)" for x
        using ih c1 [of x] one by (cases "x = r") (simp, metis)
      then show ?thesis using ih c1 one by simp
    next
      case False': False
      then have "k' = k1" "err \<noteq> None" using Cons.prems(3) chk False a by auto
      then show ?thesis using s False' by auto
    qed
  qed
qed simp

lemma paqetIPTablesRules_append: "\<forall>r\<in>set (paqetIPTablesRules port). length r > 2 \<and> r ! 2 = ''-A''"
  by (simp add: paqetIPTablesRules_def)

lemma paqetIPTablesRules_distinct: "distinct (paqetIPTablesRules port)"
  by (simp add: paqetIPTablesRules_def)

lemma present_rules_kept:
  assumes "iptables_ok ipt copies" "\<forall>r\<in>set rs. length r > 2 \<and> r ! 2 = ''-A''" "\<forall>r\<in>set rs. 0 < copies k r"
  shows "apply_rules ipt rs k = (k, None) \<and> verify_rules ipt rs k = (k, True)"
  using assms(2,3)
proof (induction rs)
  case (Cons r rs)
  have "paqetIPTableRuleExists ipt r k = (k, True)"
    using assms(1) Cons.prems by (simp add: iptables_ok_def paqetIPTableRuleExists_def)
  then show ?case using Cons by simp
qed simp

section \<open>Properties\<close>

text \<open>
  Property C34. Applying the firewall rules of a listening paqet tunnel is idempotent: after a run that reports no
  error the check finds all of them, and a second run, as the menu offers it, reports no error and changes nothing.
  No rule but these is touched, none is removed, and none is there twice because of it.
\<close>

theorem paqet_rules_idempotent:
  assumes "iptables_ok ipt copies" "applyPaqetIPTables ipt port k = (k1, None)"
  shows "verifyPaqetIPTables ipt port k1 = (k1, True) \<and> applyPaqetIPTables ipt port k1 = (k1, None) \<and>
    (\<forall>r. copies k r \<le> copies k1 r \<and> copies k1 r \<le> max 1 (copies k r)) \<and>
    (\<forall>r. r \<notin> set (paqetIPTablesRules port) \<longrightarrow> copies k1 r = copies k r)"
proof -
  note spec = apply_rules_spec [OF assms(1) paqetIPTablesRules_append paqetIPTablesRules_distinct
      assms(2) [unfolded applyPaqetIPTables_def]]
  then have "\<forall>r\<in>set (paqetIPTablesRules port). 0 < copies k1 r" by blast
  note kept = present_rules_kept [OF assms(1) paqetIPTablesRules_append this]
  show ?thesis
    unfolding applyPaqetIPTables_def verifyPaqetIPTables_def using spec kept by blast
qed

text \<open>A kernel that keeps the list of its rules.\<close>

definition listed_rules :: "string list list iptables" where
  "listed_rules r k = (if r ! 2 = ''-C'' then (k, r[2 := ''-A''] \<in> set k) else (k @ [r], True))"

lemma listed_rules_ok: "iptables_ok listed_rules count_list"
  unfolding iptables_ok_def
proof (intro allI impI conjI)
  fix k :: "string list list" and r :: "string list"
  assume r: "length r > 2" "r ! 2 = ''-A''"
  then have "r[2 := ''-A''] = r" by (metis list_update_id)
  then show "listed_rules (r[2 := ''-C'']) k = (k, 0 < count_list k r)"
    using r by (simp add: listed_rules_def) (metis count_list_0_iff not_gr_zero)
  show "count_list (fst (listed_rules r k)) =
      (if snd (listed_rules r k) then (count_list k)(r := count_list k r + 1) else count_list k)"
    using r by (auto simp: listed_rules_def fun_eq_iff)
qed

lemma paqet_rules_idempotent_witness:
  "verifyPaqetIPTables listed_rules ''7979'' (paqetIPTablesRules ''7979'') = (paqetIPTablesRules ''7979'', True)"
proof -
  have "applyPaqetIPTables listed_rules ''7979'' [] = (paqetIPTablesRules ''7979'', None)"
    by (simp add: applyPaqetIPTables_def paqetIPTablesRules_def paqetIPTableRuleExists_def listed_rules_def)
  then show ?thesis using paqet_rules_idempotent [OF listed_rules_ok] by blast
qed

text \<open>What one port of the wizard turns into.\<close>

lemma first_backend_no_bar: "CHR ''|'' \<notin> set (first_backend t)"
proof (cases "index_char t CHR ''|''")
  case None
  then have "CHR ''|'' \<notin> set t" by (simp add: index_char_None)
  then show ?thesis by (simp add: first_backend_def None)
next
  case (Some i)
  then show ?thesis using index_char_SomeD [OF Some] by (simp add: first_backend_def)
qed

definition forward_ok :: "paqetForward list \<Rightarrow> paqetForward \<Rightarrow> bool" where
  "forward_ok fs f \<longleftrightarrow> CHR ''|'' \<notin> set (pf_Target f) \<and> pf_Protocol f \<in> {''tcp'', ''udp''} \<and> f\<lparr>pf_Protocol := ''tcp''\<rparr> \<in> set fs"

lemma paqetForwards_ok:
  assumes "ports \<noteq> []"
  shows "paqetForwardsFromPorts ports \<noteq> [] \<and> (\<forall>f\<in>set (paqetForwardsFromPorts ports). forward_ok (paqetForwardsFromPorts ports) f)"
proof
  show "paqetForwardsFromPorts ports \<noteq> []" using assms by (cases ports) (simp_all add: paqetForwardsFromPorts_def Let_def)
  show "\<forall>f\<in>set (paqetForwardsFromPorts ports). forward_ok (paqetForwardsFromPorts ports) f"
    by (auto simp: paqetForwardsFromPorts_def forward_ok_def Let_def first_backend_no_bar split: if_splits)
qed

definition keyed :: "paqetKCP \<Rightarrow> bool" where
  "keyed k \<longleftrightarrow> noAuth (pk_Block k) \<or> pk_Key k \<noteq> []"

lemma yields_askPaqetBlock:
  assumes "mustMatchKey \<or> pq_random env \<noteq> []"
  shows "yields (askPaqetBlock env k mustMatchKey) keyed"
  unfolding askPaqetBlock_def Let_def
  by (intro yields_bind yields_if yields_then [OF yields_until [OF yields_any]] yields_answer)
    (use assms genToken_nonempty [of "pq_random env"] in \<open>auto simp: keyed_def\<close>)

lemma yields_askPaqetKCP:
  assumes "mustMatchKey \<or> pq_random env \<noteq> []"
  shows "yields (askPaqetKCP env key mustMatchKey) keyed"
proof -
  have "yields (case preset of Some f \<Rightarrow> askPaqetBlock env (f (new_kcp key)) mustMatchKey
      | None \<Rightarrow> then_ask (askPaqetManual (new_kcp key)) (\<lambda>k. askPaqetBlock env k mustMatchKey)) keyed" for preset
    by (cases preset) (simp_all add: yields_bind yields_askPaqetBlock [OF assms])
  then show ?thesis unfolding askPaqetKCP_def Let_def by (intro yields_bind)
qed

lemma yields_askPaqetNetwork:
  assumes "\<And>iface addr mac ip. addr = ip @ '':'' @ port \<Longrightarrow> yields (k (iface, addr, mac)) P"
  shows "yields (then_ask (askPaqetNetwork env port) k) P"
proof (rule yields_then [where Q = "\<lambda>(i, a, m). \<exists>ip. a = ip @ '':'' @ port"])
  show "yields (askPaqetNetwork env port) (\<lambda>(i, a, m). \<exists>ip. a = ip @ '':'' @ port)"
    unfolding askPaqetNetwork_def Let_def by (intro yields_bind yields_answer) simp
  show "yields (k x) P" if "case x of (i, a, m) \<Rightarrow> \<exists>ip. a = ip @ '':'' @ port" for x
    using that by (cases x) (auto intro: assms)
qed

definition kharej_usable :: "paqetConf \<Rightarrow> string \<Rightarrow> bool" where
  "kharej_usable c port \<longleftrightarrow>
     pc_Role c = ''server'' \<and> pc_Listen c = Some ('':'' @ port) \<and> (\<exists>ip. pn_Addr (pc_Network c) = ip @ '':'' @ port) \<and>
     keyed (pc_KCP c) \<and> printPaqetSettings_ok c"

definition iran_usable :: "paqetConf \<Rightarrow> bool" where
  "iran_usable c \<longleftrightarrow>
     pc_Role c = ''client'' \<and> pc_Server c \<noteq> None \<and> pc_Forward c \<noteq> [] \<and> (\<forall>f\<in>set (pc_Forward c). forward_ok (pc_Forward c) f) \<and>
     (pc_Conn c \<noteq> 1 \<longrightarrow> (\<exists>ip. pn_Addr (pc_Network c) = ip @ '':0'')) \<and> keyed (pc_KCP c) \<and> printPaqetSettings_ok c"

lemma yields_buildPaqetKharej:
  "pq_random env \<noteq> [] \<Longrightarrow> yields (buildPaqetKharej env) (\<lambda>(c, port). kharej_usable c port)"
  unfolding buildPaqetKharej_def
  by (rule yields_bind, rule yields_askPaqetNetwork, simp only: prod.case, rule yields_then [OF yields_askPaqetKCP], simp,
      rule yields_bind, rule yields_bind, rule yields_answer) (simp add: kharej_usable_def printPaqetSettings_ok_def)

lemma yields_buildPaqetIran: "yields (buildPaqetIran env) iran_usable"
proof -
  have port: "yields (if conn = 1 then readLineDefault ''0'' else answer ''0'') (\<lambda>p. conn \<noteq> (1::int) \<longrightarrow> p = ''0'')" for conn
    by (simp add: yields_def answer_def)
  show ?thesis
    unfolding buildPaqetIran_def
    by (rule yields_bind, rule yields_bind, rule yields_then [OF port], rule yields_askPaqetNetwork, simp only: prod.case,
        rule yields_then [OF yields_askPaqetKCP], simp, rule yields_then [OF askPorts_nonempty], rule yields_bind,
        rule yields_bind, rule yields_answer)
      (simp add: iran_usable_def printPaqetSettings_ok_def paqetForwards_ok)
qed

text \<open>
  Whatever is typed into the two paqet wizards, what they write is usable. The listening side listens
  on the port its firewall rules are for, and binds to that port. The dialling side has a server address, forwards at
  least one port, each of them over tcp as well as over udp where asked, to a single backend, and dials from a port the
  system picks unless it has exactly one connection. On either side a cipher that authenticates has a key, and the
  editor can show the settings.
\<close>

theorem paqet_builds_usable:
  assumes "pq_random env \<noteq> []"
  shows "yields (buildPaqetKharej env) (\<lambda>(c, port). kharej_usable c port) \<and> yields (buildPaqetIran env) iran_usable"
  using yields_buildPaqetKharej [OF assms] yields_buildPaqetIran by blast

definition sample_paqet_env :: "unit paqet_env" where
  "sample_paqet_env = \<lparr>pq_ipt = (\<lambda>r k. (k, True)), pq_save = (\<lambda>k. None), pq_yaml = (\<lambda>c. Inr []),
     pq_load = (\<lambda>s. None), pq_cmd = (\<lambda>c. None), pq_random = [1, 2], pq_arch = ''amd64'', pq_latest = Inl EOF,
     pq_get = (\<lambda>u. Inl EOF), pq_open = None\<rparr>"

lemma sample_kcp:
  "askPaqetKCP sample_paqet_env [] False ([] # [] # rest) = Answer ((new_kcp (genToken [1, 2]))\<lparr>pk_Mode := ''fast3''\<rparr>) rest"
  by (simp add: ask_simps number_simps askPaqetKCP_def paqetKCPPresets_def askPaqetBlock_def noAuth_def new_kcp_def
      sample_paqet_env_def)

lemma sample_network: "askPaqetNetwork sample_paqet_env port ([] # [] # [] # rest) = Answer ([], CHR '':'' # port, []) rest"
  by (simp add: ask_simps askPaqetNetwork_def sample_paqet_env_def detectNetwork_def Let_def)

lemma paqet_builds_usable_witness:
  "\<exists>c rest. buildPaqetKharej sample_paqet_env [[], [], [], [], [], [], [], []] = Answer (c, ''7979'') rest \<and>
     kharej_usable c ''7979''"
proof -
  have "\<exists>c rest. buildPaqetKharej sample_paqet_env [[], [], [], [], [], [], [], []] = Answer (c, ''7979'') rest"
    by (simp add: buildPaqetKharej_def ask_simps askInt_def sample_network sample_kcp askPaqetLogLevel_def)
  moreover have "pq_random sample_paqet_env \<noteq> []" by (simp add: sample_paqet_env_def)
  ultimately show ?thesis using paqet_builds_usable [of sample_paqet_env] unfolding yields_def by fastforce
qed

text \<open>
  The editor asks the preset as the listening side does: on the dialling side, a tunnel without authentication that is
  switched to a cipher gets a key of its own, which its peer does not have.
\<close>

theorem client_edit_invents_key:
  assumes "loadPaqetConf env b (tr_Path t) = Some c" "pc_Role c = ''client''" "pc_Server c \<noteq> None" "pk_Key (pc_KCP c) = []"
    and "\<And>c. \<exists>data. pq_yaml env c = Inr data" "h_io h (tr_Path t) = None"
  shows "\<exists>b' c' yaml. editPaqetTunnel env h t b [''3'', ''1'', ''aes'', ''y'', []] = Answer b' [] \<and>
    renderPaqetYAML env c' = Inr yaml \<and> readFile b' (tr_Path t) = Some yaml \<and>
    pk_Block (pc_KCP c') = ''aes'' \<and> pk_Key (pc_KCP c') = genToken (pq_random env)"
proof -
  let ?c = "c\<lparr>pc_KCP := (new_kcp [])\<lparr>pk_Mode := ''fast3'', pk_Block := ''aes'', pk_Key := genToken (pq_random env)\<rparr>\<rparr>"
  obtain yaml where y: "renderPaqetYAML env ?c = Inr yaml" using assms(5) [of ?c] by (auto simp: renderPaqetYAML_def)
  obtain b1 where w: "writeFile h (tr_Path t) yaml b = (b1, None)" using assms(6) by (simp add: writeFile_def)
  have r: "readFile b1 (tr_Path t) = Some yaml" using readFile_write [of h "tr_Path t" yaml b "tr_Path t"] assms(6) w by simp
  have k: "askPaqetKCP env [] False (''1'' # ''aes'' # rest) =
      Answer ((new_kcp [])\<lparr>pk_Mode := ''fast3'', pk_Block := ''aes'', pk_Key := genToken (pq_random env)\<rparr>) rest" for rest
    by (simp add: ask_simps number_simps askPaqetKCP_def paqetKCPPresets_def askPaqetBlock_def noAuth_def new_kcp_def)
  have s: "savePaqetEdit env h t b ?c [''y'', []] = Answer (runCmd [''systemctl'', ''restart'', tunnel_unit t] b1) []"
    unfolding savePaqetEdit_def y sum.case w prod.case option.case by (simp add: ask_simps)
  have "readFile (runCmd [''systemctl'', ''restart'', tunnel_unit t] b1) (tr_Path t) = Some yaml"
    using r by (simp add: readFile_run)
  moreover have "editPaqetTunnel env h t b [''3'', ''1'', ''aes'', ''y'', []] =
      Answer (runCmd [''systemctl'', ''restart'', tunnel_unit t] b1) []"
    using assms(2-4) s
    by (simp add: editPaqetTunnel_def editPaqetTunnelBody_def assms(1) printPaqetSettings_ok_def runWizard_def readLine_def
        trimSpace_def is_space_def then_ask_def k answer_def Let_def)
  ultimately show ?thesis using y by (intro exI conjI) (assumption | simp)+
qed

text \<open>
  The editor of a tunnel whose file lacks the section of its role ends the process: the settings that it shows first
  read through a nil pointer. Reapplying the rules of the same file only reports it.
\<close>

lemma editor_panics:
  assumes "loadPaqetConf env (fst s) (tr_Path t) = Some c" "pc_Role c \<noteq> ''client''" "pc_Listen c = None"
  shows "editPaqetTunnel env h t (fst s) inp = Panicked \<and> reapplyPaqetIPTables env h t s ([] # inp) = Answer s inp"
  using assms
  by (simp add: editPaqetTunnel_def editPaqetTunnelBody_def printPaqetSettings_ok_def runWizard_def then_ask_def panic_def
      reapplyPaqetIPTables_def pressEnter_def readLine_def answer_def)

end
