(* ===== verification/Asking.thy ===== *)
theory Asking
  imports Paqet Link_Test
begin

text \<open>
  Where the questions of the wizards and editors can be cancelled, and that none of them panics: one rule for each question,
  in the collection \<open>behave_rules\<close>.
\<close>

section \<open>Questions about a tunnel\<close>

lemma behaves_askPorts_loop [behave_rules]: "behaves C P (askPorts_loop acc)"
proof -
  define ok :: "string list \<Rightarrow> PortMap list reply \<Rightarrow> bool" where
    "ok inp r \<longleftrightarrow> (\<exists>x rest. r = Answer x rest \<and> length rest \<le> length inp) \<or> r = Exited" for inp r
  have more_input: "ok inp r \<Longrightarrow> ok (l # inp) r" for inp r l unfolding ok_def by fastforce
  have "ok inp (askPorts_loop acc inp)" for inp acc
  proof (induction inp arbitrary: acc)
    case Nil
    show ?case by (simp add: ok_def)
  next
    case (Cons l inp)
    then have "ok (l # inp) (askPorts_loop acc' inp)" for acc' by (rule more_input)
    moreover have "ok (l # inp) (Answer acc inp)" by (simp add: ok_def)
    ultimately show ?case by (simp add: Let_def split: sum.split)
  qed
  then have r: "ok inp (askPorts_loop acc inp)" for inp .
  show ?thesis
    unfolding behaves_def
  proof
    fix inp
    show "case askPorts_loop acc inp of Answer x rest \<Rightarrow> length rest \<le> length inp
      | Cancelled rest \<Rightarrow> C \<and> length rest \<le> length inp | Exited \<Rightarrow> True | Panicked \<Rightarrow> P"
      using r [of inp] by (cases "askPorts_loop acc inp") (simp_all add: ok_def)
  qed
qed

lemma behaves_askPorts [behave_rules]: "behaves C P (askPorts forceUDP)"
  unfolding askPorts_def by (intro behave_rules)

lemma behaves_disguise_questions [behave_rules]:
  "behaves C P (askWSSDisguiseAnswer listens)" "behaves C P (askNoiseDisguiseAnswer listens)"
  "behaves C P (askPlainDisguiseAnswer listens)" "behaves C P (askQUICDisguiseAnswer listens)"
  unfolding type_questions address_questions askBackupAddrs_def Let_def by (intro behave_rules)+

lemma behaves_askKCP [behave_rules]: "behaves C P (askKCPDisguiseAnswer listens)"
  unfolding askKCPDisguiseAnswer_def askKCPSettings_def askCustomKCP_def address_questions askBackupAddrs_def Let_def
  by (intro behave_rules)

lemma behaves_askDisguises [behave_rules]: "behaves C P (askDisguises listens exclude)"
  unfolding askDisguises_def askDisguises_round_def offer_def Let_def by (intro behave_rules)

lemma behaves_askTransportMode [behave_rules]: "behaves True P (askTransportMode direction listens)"
  unfolding askTransportMode_def askFamily_def askUDPVariant_def askTCPVariant_def by (intro behave_rules)

lemma behaves_askTierPreset [behave_rules]: "behaves True P (askTierPreset env host)"
  unfolding askTierPreset_def askLiveBenchTier_def askManualBenchTier_def askStaticTier_def Let_def by (intro behave_rules)

lemma behaves_askTunnelName [behave_rules]: "behaves C P (askTunnelName env role)"
  unfolding askTunnelName_def by (intro behave_rules)

lemma behaves_finishWizard [behave_rules]: "behaves C P (finishWizard env role name data)"
  unfolding finishWizard_def by (intro behave_rules)

lemma behaves_wizards [behave_rules]: "behaves True P (wizardServerBody env)" "behaves True P (wizardClientBody env)"
  unfolding wizardServerBody_def wizardServerRest_def wizardClientBody_def wizardClientRest_def askDirection_def
    askDirectEngine_def Let_def
  by (intro behave_rules)+

lemma behaves_editChoice [behave_rules]:
  assumes "\<And>cfg. behaves True P (save cfg)"
  shows "behaves True P (editChoice env role cfg same save)"
  unfolding editChoice_def Let_def by (intro behave_rules assms)

section \<open>Questions about paqet\<close>

lemma behaves_askPaqetKCP [behave_rules]: "behaves True P (askPaqetKCP env key mustMatchKey)"
  unfolding askPaqetKCP_def askPaqetBlock_def askPaqetManual_def Let_def by (intro behave_rules)

lemma behaves_buildPaqet [behave_rules]: "behaves True P (buildPaqetKharej env)" "behaves True P (buildPaqetIran env)"
  unfolding buildPaqetKharej_def buildPaqetIran_def askPaqetNetwork_def askPaqetLogLevel_def askSocks5_def Let_def
  by (intro behave_rules)+

lemma behaves_ensurePaqetBinary [behave_rules]: "behaves C P (ensurePaqetBinary env h b)"
  unfolding ensurePaqetBinary_def by (intro behave_rules)

lemma behaves_finishPaqetWizard [behave_rules]: "behaves C P (finishPaqetWizard env h role name c port s)"
  unfolding finishPaqetWizard_def Let_def by (intro behave_rules)

lemma behaves_wizardPaqet [behave_rules]:
  "behaves C P (wizardPaqetKharej env h name s)" "behaves C P (wizardPaqetIran env h name s)"
  unfolding wizardPaqetKharej_def wizardPaqetIran_def by (intro behave_rules)+

lemma behaves_reapplyPaqetIPTables [behave_rules]: "behaves C P (reapplyPaqetIPTables env h t s)"
  unfolding reapplyPaqetIPTables_def Let_def by (intro behave_rules)

text \<open>The editor can panic.\<close>

lemma behaves_editPaqetTunnel [behave_rules]: "behaves C True (editPaqetTunnel env h t b)"
  unfolding editPaqetTunnel_def editPaqetTunnelBody_def savePaqetEdit_def askPaqetLogLevel_def Let_def
  by (intro behave_rules)

section \<open>Upkeep\<close>

lemma behaves_upkeep [behave_rules]:
  "behaves C P (deleteTunnel t b)" "behaves C P (menuUninstall b)" "behaves C P (menuTune h b)"
  "behaves C P (menuAutoRefresh h b)"
  unfolding deleteTunnel_def menuUninstall_def menuTune_def menuAutoRefresh_def Let_def by (intro behave_rules)+

lemma behaves_restore [behave_rules]:
  "behaves C P (createBackup h enc d name b)" "behaves C P (restoreBackup h openArchive b)"
proof -
  have i: "behaves C P (install_restored h restored ts b)" for restored ts b
    by (induction h restored ts b rule: install_restored.induct) (auto intro: behave_rules)
  show "behaves C P (createBackup h enc d name b)" "behaves C P (restoreBackup h openArchive b)"
    unfolding createBackup_def restoreBackup_def Let_def by (intro behave_rules i)+
qed

lemma behaves_menuUpdate [behave_rules]: "behaves C P (menuUpdate h goarch latest get dec enc rnd b)"
  unfolding menuUpdate_def Let_def by (intro behave_rules)

text \<open>The link test asks outside of a wizard.\<close>

lemma behaves_saveAndRestart [behave_rules]: "behaves C P (saveAndRestart h enc t cfg b)"
  unfolding saveAndRestart_def by (intro behave_rules)

lemma behaves_menuLinkTest [behave_rules]: "behaves True P (menuLinkTest h dec enc probes rnd tunnels b)"
proof -
  have "behaves True P (recommendTransport h enc t cfg d st b)" for t cfg d st b
    unfolding recommendTransport_def by (cases "transport_advice cfg d st") (auto intro!: behave_rules)
  then show ?thesis
    unfolding menuLinkTest_def suggestTimers_def Let_def by (intro behave_rules)
qed

end
