(* ===== verification/Menu.thy ===== *)
theory Menu
  imports Asking
begin

text \<open>
  The interactive program: \<open>runMenu\<close> of \<open>menu.go\<close> and the screens below it (\<open>tunnels.go\<close>, \<open>backup.go\<close>, \<open>help.go\<close>,
  \<open>update.go\<close>), composed of the questions, wizards and actions of the other theories. A screen takes the box and the
  firewall and the lines still to be typed. What the outside answers may change from one choice to the next.
\<close>

section \<open>The world of the menu\<close>

record 'k menu_env =
  me_host :: host
  me_bench :: bench_env
  me_random :: bytes
  me_dec :: "string \<Rightarrow> Config \<Rightarrow> goerror + (Config \<times> string list)"
  me_enc :: "Config \<Rightarrow> goerror + string"
  me_paqet :: "'k paqet_env"
  me_arch :: string
  me_latest :: "goerror + release"
  me_download :: "string \<Rightarrow> goerror + (string \<times> goerror option)"
  me_probes :: "Config \<Rightarrow> DisguiseConfig \<Rightarrow> int option list"
  me_open :: "string \<Rightarrow> goerror + tar_event list"
  me_tar :: "(string \<times> string) list \<Rightarrow> string"
  me_disk :: disk
  me_backupName :: string
  me_benchServer :: "string \<Rightarrow> string \<Rightarrow> goerror option"

text \<open>\<open>w_turn\<close> counts the choices made; the n-th one meets the n-th environment.\<close>

record 'k world =
  w_box :: box
  w_kernel :: 'k
  w_turn :: nat

type_synonym 'k surroundings = "nat \<Rightarrow> 'k menu_env"

definition next_turn :: "'k world \<Rightarrow> 'k world" where
  "next_turn w = w\<lparr>w_turn := w_turn w + 1\<rparr>"

definition on_box :: "'k world \<Rightarrow> box ask \<Rightarrow> 'k world ask" where
  "on_box w m = then_ask m (\<lambda>b. answer (w\<lparr>w_box := b\<rparr>))"

definition on_both :: "'k world \<Rightarrow> (box \<times> 'k) ask \<Rightarrow> 'k world ask" where
  "on_both w m = then_ask m (\<lambda>s. answer (w\<lparr>w_box := fst s, w_kernel := snd s\<rparr>))"

text \<open>The ends of a round: show the screen again, or return from it.\<close>

definition again :: "'k world ask \<Rightarrow> ('k world \<times> bool) ask" where
  "again m = then_ask m (\<lambda>w. answer (w, True))"

definition leave :: "'k world ask \<Rightarrow> ('k world \<times> bool) ask" where
  "leave m = then_ask m (\<lambda>w. answer (w, False))"

text \<open>What only shows something and waits.\<close>

definition shown :: "'k world \<Rightarrow> 'k world ask" where
  "shown w = then_ask pressEnter (\<lambda>u. answer w)"

definition toUpper :: "string \<Rightarrow> string" where
  "toUpper = map (\<lambda>c. let n = (of_char c :: nat) in if 97 \<le> n \<and> n \<le> 122 then char_of (n - 32) else c)"

definition listed :: "box \<Rightarrow> tunnelRef list" where
  "listed b = listTunnels (readDir b)"

section \<open>Building\<close>

definition wizard_env_of :: "'k menu_env \<Rightarrow> box \<Rightarrow> wizard_env" where
  "wizard_env_of e b =
     \<lparr>we_bench = me_bench e, we_exists = stat b, we_random = me_random e,
      we_saves = (\<lambda>p. h_mkdir (me_host e) (pathDir (fullPath (me_host e) p)) = None \<and>
                       h_io (me_host e) (cleanPath (fullPath (me_host e) p)) = None)\<rparr>"

text \<open>What \<open>finishWizard\<close> does to the box: the file, and the service if it was asked for.\<close>

definition finish_effect :: "host \<Rightarrow> string \<Rightarrow> string \<Rightarrow> string \<times> string \<times> bool option \<Rightarrow> box \<Rightarrow> box" where
  "finish_effect h role name out b =
     (case out of (path, tomlText, install) \<Rightarrow>
        if h_mkdir h (pathDir (fullPath h path)) \<noteq> None then b
        else
          let b1 = fst (writeFile h (cleanPath (fullPath h path)) tomlText b) in
          if install = Some True then installTunnelService h role name path b1 else b1)"

definition buildTunnel :: "'k menu_env \<Rightarrow> string \<Rightarrow> wizard_result option ask \<Rightarrow> 'k world \<Rightarrow> 'k world ask" where
  "buildTunnel e role wizard w =
     then_ask wizard (\<lambda>r.
       case r of
         None \<Rightarrow> answer w
       | Some res \<Rightarrow>
           (case res of
              HandOver role' name \<Rightarrow>
                on_both w
                  (if role' = ''paqet-client'' then wizardPaqetIran (me_paqet e) (me_host e) name (w_box w, w_kernel w)
                   else wizardPaqetKharej (me_paqet e) (me_host e) name (w_box w, w_kernel w))
            | Built b out \<Rightarrow> answer (w\<lparr>w_box := finish_effect (me_host e) role (b_name b) out (w_box w)\<rparr>)))"

definition menuWizardServer :: "'k menu_env \<Rightarrow> 'k world \<Rightarrow> 'k world ask" where
  "menuWizardServer e w = buildTunnel e ''server'' (wizardServer (wizard_env_of e (w_box w))) w"

definition menuWizardClient :: "'k menu_env \<Rightarrow> 'k world \<Rightarrow> 'k world ask" where
  "menuWizardClient e w = buildTunnel e ''client'' (wizardClient (wizard_env_of e (w_box w))) w"

section \<open>One tunnel\<close>

definition systemctl :: "string \<Rightarrow> tunnelRef \<Rightarrow> box \<Rightarrow> box" where
  "systemctl verb t = runCmd [''systemctl'', verb, tunnel_unit t]"

definition editSave :: "'k menu_env \<Rightarrow> tunnelRef \<Rightarrow> box \<Rightarrow> Config \<Rightarrow> box ask" where
  "editSave e t b cfg =
     (case saveConfig (me_host e) (me_enc e) cfg (tr_Path t) b of
        (b1, Some err) \<Rightarrow> then_ask pressEnter (\<lambda>u. answer b1)
      | (b1, None) \<Rightarrow>
          then_ask (confirm True) (\<lambda>restart. then_ask pressEnter (\<lambda>u.
            answer (if restart then systemctl ''restart'' t b1 else b1))))"

definition menuEditTunnel :: "'k menu_env \<Rightarrow> tunnelRef \<Rightarrow> box \<Rightarrow> box ask" where
  "menuEditTunnel e t b =
     (if isPaqet t then editPaqetTunnel (me_paqet e) (me_host e) t b
      else then_ask (runWizard
        (case loadFile (me_dec e) b (tr_Path t) (tr_Role t) of
           Inl err \<Rightarrow> then_ask pressEnter (\<lambda>u. answer b)
         | Inr cfg \<Rightarrow> editChoice (wizard_env_of e b) (tr_Role t) cfg b (editSave e t b)))
        (\<lambda>r. answer (case r of None \<Rightarrow> b | Some b' \<Rightarrow> b')))"

definition action_round :: "'k surroundings \<Rightarrow> tunnelRef \<Rightarrow> 'k world \<Rightarrow> ('k world \<times> bool) ask" where
  "action_round env t w =
     (let e = env (w_turn w); w = next_turn w; b = w_box w in
      then_ask readLine (\<lambda>choice.
        if choice = ''1'' then again (on_box w (menuEditTunnel e t b))
        else if choice = ''2'' then again (shown (w\<lparr>w_box := systemctl ''start'' t b\<rparr>))
        else if choice = ''3'' then again (shown (w\<lparr>w_box := systemctl ''stop'' t b\<rparr>))
        else if choice = ''4'' then again (shown (w\<lparr>w_box := systemctl ''restart'' t b\<rparr>))
        else if choice = ''5'' then again (shown w)
        else if choice = ''6'' then
          then_ask (deleteTunnel t b) (\<lambda>(gone, b'). answer (w\<lparr>w_box := b'\<rparr>, \<not> gone))
        else if choice = ''7'' \<and> tr_Role t = ''paqet-server'' then
          again (on_both w (reapplyPaqetIPTables (me_paqet e) (me_host e) t (b, w_kernel w)))
        else if choice = ''7'' \<and> tr_Role t = ''paqet-client'' then again (shown w)
        else if choice = ''0'' \<or> choice = [] then answer (w, False)
        else again (shown w)))"

definition tunnelActionMenu :: "'k surroundings \<Rightarrow> tunnelRef \<Rightarrow> 'k world \<Rightarrow> 'k world ask" where
  "tunnelActionMenu env t = screen (action_round env t)"

section \<open>All tunnels\<close>

definition tunnels_round :: "'k surroundings \<Rightarrow> 'k world \<Rightarrow> ('k world \<times> bool) ask" where
  "tunnels_round env w =
     (let tunnels = listed (w_box w); w = next_turn w in
      if tunnels = [] then leave (shown w)
      else then_ask readLine (\<lambda>choice.
        if toUpper choice = ''0'' \<or> toUpper choice = [] then answer (w, False)
        else if toUpper choice = ''R'' then again (on_box w (restartAllTunnels tunnels (w_box w)))
        else if toUpper choice = ''H'' then again (shown w)
        else if toUpper choice = ''F'' then again (shown w)
        else case indexFromChoice choice (length tunnels) of
          None \<Rightarrow> again (shown w)
        | Some idx \<Rightarrow> again (tunnelActionMenu env (tunnels ! idx) w)))"

definition menuManageTunnels :: "'k surroundings \<Rightarrow> 'k world \<Rightarrow> 'k world ask" where
  "menuManageTunnels env = screen (tunnels_round env)"

section \<open>Backup, help and benchmark\<close>

definition backup_round :: "'k surroundings \<Rightarrow> 'k world \<Rightarrow> ('k world \<times> bool) ask" where
  "backup_round env w =
     (let e = env (w_turn w); w = next_turn w in
      then_ask readLine (\<lambda>choice.
        if choice = ''1'' then
          again (on_box w (then_ask (createBackup (me_host e) (me_tar e) (me_disk e) (me_backupName e) (w_box w)) (\<lambda>r. answer (snd r))))
        else if choice = ''2'' then again (on_box w (restoreBackup (me_host e) (me_open e) (w_box w)))
        else answer (w, False)))"

definition menuBackupRestore :: "'k surroundings \<Rightarrow> 'k world \<Rightarrow> 'k world ask" where
  "menuBackupRestore env = screen (backup_round env)"

text \<open>Every topic and a wrong choice show something and wait.\<close>

definition help_round :: "'k world \<Rightarrow> ('k world \<times> bool) ask" where
  "help_round w = then_ask readLine (\<lambda>choice. if choice = ''0'' \<or> choice = [] then answer (w, False) else again (shown w))"

definition menuHelp :: "'k world \<Rightarrow> 'k world ask" where
  "menuHelp = screen help_round"

text \<open>A waiting benchmark returns only with an error; it is ended otherwise by ending the process.\<close>

definition menuBenchInteractive :: "'k menu_env \<Rightarrow> 'k world \<Rightarrow> 'k world ask" where
  "menuBenchInteractive e w =
     then_ask readLine (\<lambda>choice.
       if choice = ''1'' then
         then_ask (readLineDefault ''0.0.0.0:9999'') (\<lambda>addr.
         then_ask (readLineDefault (genToken (me_random e))) (\<lambda>token.
           case me_benchServer e addr token of None \<Rightarrow> (\<lambda>inp. Exited) | Some err \<Rightarrow> shown w))
       else if choice = ''2'' then then_ask readLine (\<lambda>addr. then_ask readLine (\<lambda>token. shown w))
       else answer w)"

section \<open>The two menus\<close>

definition manage_item :: "'k surroundings \<Rightarrow> 'k menu_env \<Rightarrow> string \<Rightarrow> 'k world \<Rightarrow> 'k world ask" where
  "manage_item env e choice w =
     (let b = w_box w; h = me_host e; tunnels = listed b in
      if choice = ''1'' then menuManageTunnels env w
      else if choice = ''2'' then shown w
      else if choice = ''3'' then shown w
      else if choice = ''4'' then on_box w (menuLinkTest h (me_dec e) (me_enc e) (me_probes e) (be_rnd (me_bench e)) tunnels b)
      else if choice = ''5'' then shown w
      else if choice = ''6'' then on_box w (restartAllTunnels tunnels b)
      else if choice = ''7'' then on_box w (menuAutoRefresh h b)
      else if choice = ''8'' then menuBackupRestore env w
      else shown w)"

definition manage_round :: "'k surroundings \<Rightarrow> 'k world \<Rightarrow> ('k world \<times> bool) ask" where
  "manage_round env w =
     (let e = env (w_turn w); w = next_turn w in
      then_ask readLine (\<lambda>line.
        let choice = toUpper line in
        if choice = ''0'' \<or> choice = [] then answer (w, False) else again (manage_item env e choice w)))"

definition menuManageRmtunnel :: "'k surroundings \<Rightarrow> 'k world \<Rightarrow> 'k world ask" where
  "menuManageRmtunnel env = screen (manage_round env)"

definition main_item :: "'k surroundings \<Rightarrow> 'k menu_env \<Rightarrow> string \<Rightarrow> 'k world \<Rightarrow> 'k world ask" where
  "main_item env e choice w =
     (if choice = ''1'' then menuWizardServer e w
      else if choice = ''2'' then menuWizardClient e w
      else if choice = ''3'' then menuManageRmtunnel env w
      else if choice = ''4'' then on_box w (menuTune (me_host e) (w_box w))
      else if choice = ''5'' then menuBenchInteractive e w
      else if choice = ''6'' then
        on_box w (menuUpdate (me_host e) (me_arch e) (me_latest e) (me_download e) (me_dec e) (me_enc e) (be_rnd (me_bench e)) (w_box w))
      else if choice = ''7'' then on_box w (menuUninstall (w_box w))
      else if choice = ''H'' then menuHelp w
      else shown w)"

definition main_round :: "'k surroundings \<Rightarrow> 'k world \<Rightarrow> ('k world \<times> bool) ask" where
  "main_round env w =
     (let e = env (w_turn w); w = next_turn w in
      then_ask readLine (\<lambda>line.
        let choice = toUpper line in
        if choice = ''0'' then answer (w, False) else again (main_item env e choice w)))"

definition runMenu :: "'k surroundings \<Rightarrow> 'k world \<Rightarrow> 'k world ask" where
  "runMenu env = screen (main_round env)"

section \<open>What stops the program\<close>

lemma behaves_on_box [behave_rules]: "behaves C P m \<Longrightarrow> behaves C P (on_box w m)"
  unfolding on_box_def by (intro behave_rules)

lemma behaves_on_both [behave_rules]: "behaves C P m \<Longrightarrow> behaves C P (on_both w m)"
  unfolding on_both_def by (intro behave_rules)

lemma behaves_again_leave [behave_rules]:
  "behaves C P m \<Longrightarrow> behaves C P (again m)" "behaves C P m \<Longrightarrow> behaves C P (leave m)"
  unfolding again_def leave_def by (intro behave_rules; assumption)+

lemma behaves_shown [behave_rules]: "behaves C P (shown w)"
  unfolding shown_def by (intro behave_rules)

lemma behaves_restartAllTunnels [behave_rules]: "behaves C P (restartAllTunnels tunnels b)"
  unfolding restartAllTunnels_def by (intro behave_rules)

lemma behaves_wizard_result [behave_rules]:
  "(\<And>r n. behaves C P (m r n)) \<Longrightarrow> (\<And>b out. behaves C P (k b out)) \<Longrightarrow>
   behaves C P (case res of HandOver r n \<Rightarrow> m r n | Built b out \<Rightarrow> k b out)"
  by (cases res) simp_all

lemma behaves_buildTunnel: "behaves C P wizard \<Longrightarrow> behaves C P (buildTunnel e role wizard w)"
  unfolding buildTunnel_def by (intro behave_rules)

lemma behaves_build [behave_rules]: "behaves C P (menuWizardServer e w)" "behaves C P (menuWizardClient e w)"
  unfolding menuWizardServer_def menuWizardClient_def wizardServer_def wizardClient_def
  by (intro behaves_buildTunnel behave_rules)+

lemma behaves_menuEditTunnel [behave_rules]: "behaves C (isPaqet t) (menuEditTunnel e t b)"
proof -
  have "behaves True P (editSave e t b cfg)" for P cfg unfolding editSave_def by (intro behave_rules)
  then show ?thesis unfolding menuEditTunnel_def
    by (cases "isPaqet t") (auto intro!: behave_rules)
qed


lemma behaves_menuEditTunnel_any [behave_rules]: "behaves C True (menuEditTunnel e t b)"
  by (rule behaves_mono [OF behaves_menuEditTunnel]) simp_all

lemma behaves_tunnelActionMenu: "behaves C (isPaqet t) (tunnelActionMenu env t w)"
  unfolding tunnelActionMenu_def action_round_def Let_def by (intro behave_rules)

lemma behaves_tunnelActionMenu_any [behave_rules]: "behaves C True (tunnelActionMenu env t w)"
  by (rule behaves_mono [OF behaves_tunnelActionMenu]) simp_all

lemma behaves_menuManageTunnels [behave_rules]: "behaves C True (menuManageTunnels env w)"
  unfolding menuManageTunnels_def tunnels_round_def Let_def by (intro behave_rules)

lemma behaves_menuBackupRestore [behave_rules]: "behaves C P (menuBackupRestore env w)"
  unfolding menuBackupRestore_def backup_round_def Let_def by (intro behave_rules)

lemma behaves_menuHelp [behave_rules]: "behaves C P (menuHelp w)"
  unfolding menuHelp_def help_round_def by (intro behave_rules)

lemma behaves_exit [behave_rules]: "behaves C P (\<lambda>inp. Exited)"
  by (simp add: behaves_def)

lemma behaves_menuBenchInteractive [behave_rules]: "behaves C P (menuBenchInteractive e w)"
  unfolding menuBenchInteractive_def by (intro behave_rules)

lemma behaves_manage_item: "behaves (choice = ''4'') (choice = ''1'') (manage_item env e choice w)"
proof -
  consider "choice = ''1''" | "choice = ''4''" | "choice \<noteq> ''1''" "choice \<noteq> ''4''" by blast
  then show ?thesis
    unfolding manage_item_def Let_def by cases (simp_all add: behave_rules)
qed

lemma behaves_manage_item_any [behave_rules]: "behaves True True (manage_item env e choice w)"
  by (rule behaves_mono [OF behaves_manage_item]) simp_all

lemma behaves_menuManageRmtunnel [behave_rules]: "behaves True True (menuManageRmtunnel env w)"
  unfolding menuManageRmtunnel_def manage_round_def Let_def by (intro behave_rules)

lemma behaves_main_item: "behaves (choice = ''3'') (choice = ''3'') (main_item env e choice w)"
proof (cases "choice = ''3''")
  case False
  then have m: "main_item env e choice w = (if choice = ''1'' then menuWizardServer e w
      else if choice = ''2'' then menuWizardClient e w
      else if choice = ''4'' then on_box w (menuTune (me_host e) (w_box w))
      else if choice = ''5'' then menuBenchInteractive e w
      else if choice = ''6'' then
        on_box w (menuUpdate (me_host e) (me_arch e) (me_latest e) (me_download e) (me_dec e) (me_enc e) (be_rnd (me_bench e)) (w_box w))
      else if choice = ''7'' then on_box w (menuUninstall (w_box w))
      else if choice = ''H'' then menuHelp w
      else shown w)" by (simp add: main_item_def)
  show ?thesis unfolding m by (intro behave_rules)
qed (simp add: main_item_def behave_rules)

lemma behaves_main_item_any [behave_rules]: "behaves True True (main_item env e choice w)"
  by (rule behaves_mono [OF behaves_main_item]) simp_all

lemma behaves_runMenu: "behaves True True (runMenu env w)"
  unfolding runMenu_def main_round_def Let_def by (intro behave_rules)

section \<open>The screens are the loops of the code\<close>

lemma consumes_pressEnter: "consumes pressEnter"
  unfolding pressEnter_def by (intro consumes_then consumes_readLine keeps_answer)

lemma consumes_shown: "consumes (leave (shown w))"
  unfolding leave_def shown_def then_ask_assoc by (intro consumes_then consumes_pressEnter) (simp add: keeps_answer)

lemmas consumes_round = consumes_behaves [OF consumes_readLine, where C = True and P = True]

lemma consumes_action_round: "consumes (action_round env t w)"
  unfolding action_round_def Let_def by (rule consumes_round) (intro behave_rules)

lemma consumes_tunnels_round: "consumes (tunnels_round env w)"
  unfolding tunnels_round_def Let_def
  by (simp add: consumes_shown) (intro impI consumes_round behave_rules)

lemma consumes_menu_rounds: "consumes (manage_round env w)" "consumes (main_round env w)"
  unfolding manage_round_def main_round_def Let_def by (rule consumes_round, intro behave_rules)+

text \<open>The main menu, as the loop it is: until \<open>0\<close> is chosen, every choice is followed by the next.\<close>

lemma runMenu_eof: "runMenu env w [] = Exited"
  by (simp add: runMenu_def screen_def main_round_def then_ask_def readLine_def Let_def)

lemma runMenu_unfold:
  "runMenu env w (line # inp) =
     (let choice = toUpper (trimSpace line) in
      if choice = ''0'' then Answer (next_turn w) inp
      else (case main_item env (env (w_turn w)) choice (next_turn w) inp of
        Answer w' rest \<Rightarrow> runMenu env w' rest
      | Cancelled rest \<Rightarrow> Cancelled rest | Exited \<Rightarrow> Exited | Panicked \<Rightarrow> Panicked))"
  unfolding runMenu_def
  by (subst screen_unfold [of "main_round env", OF consumes_menu_rounds(2)])
    (simp add: main_round_def then_ask_def readLine_def answer_def again_def Let_def split: reply.split)

lemma menuManageRmtunnel_unfold:
  "menuManageRmtunnel env w (line # inp) =
     (let choice = toUpper (trimSpace line) in
      if choice = ''0'' \<or> choice = [] then Answer (next_turn w) inp
      else (case manage_item env (env (w_turn w)) choice (next_turn w) inp of
        Answer w' rest \<Rightarrow> menuManageRmtunnel env w' rest
      | Cancelled rest \<Rightarrow> Cancelled rest | Exited \<Rightarrow> Exited | Panicked \<Rightarrow> Panicked))"
  unfolding menuManageRmtunnel_def
  by (subst screen_unfold [of "manage_round env", OF consumes_menu_rounds(1)])
    (simp add: manage_round_def then_ask_def readLine_def answer_def again_def Let_def split: reply.split)

section \<open>What a screen may write\<close>

text \<open>\<open>confined P b b'\<close>: from \<open>b\<close> to \<open>b'\<close> only files in \<open>P\<close> have changed.\<close>

definition confined :: "string set \<Rightarrow> box \<Rightarrow> box \<Rightarrow> bool" where
  "confined P b b' \<longleftrightarrow> (\<forall>p. p \<notin> P \<longrightarrow> readFile b' p = readFile b p)"

named_theorems confined_rules "introduction rules for confined"

lemma confined_same [confined_rules]: "confined P b b"
  by (simp add: confined_def)

lemma confined_trans: "confined P b b' \<Longrightarrow> confined P b' b'' \<Longrightarrow> confined P b b''"
  by (simp add: confined_def)

lemma confined_run [confined_rules]: "confined P b b' \<Longrightarrow> confined P b (runCmd cmd b')"
  by (simp add: confined_def readFile_run)

lemma confined_systemctl [confined_rules]: "confined P b b' \<Longrightarrow> confined P b (systemctl verb t b')"
  by (simp add: confined_def systemctl_def readFile_run)

lemma confined_write [confined_rules]: "p \<in> P \<Longrightarrow> confined P b b' \<Longrightarrow> confined P b (fst (writeFile h p data b'))"
  by (auto simp: confined_def readFile_write)

lemma confined_remove [confined_rules]: "p \<in> P \<Longrightarrow> confined P b b' \<Longrightarrow> confined P b (removeFile p b')"
  by (auto simp: confined_def readFile_remove)

lemma confined_written: "writeFile h p data b = (b', r) \<Longrightarrow> p \<in> P \<Longrightarrow> confined P b b'"
  using confined_write [of p P b b h data] confined_same by simp

text \<open>The files of a tunnel, and the one file outside them that its menu may write: the saved firewall rules.\<close>

definition tunnel_files :: "tunnelRef \<Rightarrow> string set" where
  "tunnel_files t = {tr_Path t, unitPath (tunnel_unit t), metricsPath (tr_Path t)}"

definition rules_v4 :: string where "rules_v4 = ''/etc/iptables/rules.v4''"

lemma confined_deleted: "confined (insert rules_v4 (tunnel_files t)) b (deleted t b)"
  by (simp add: confined_def readFile_deleted tunnel_files_def)

lemma yields_on_box: "yields m (\<lambda>b. Q (w\<lparr>w_box := b\<rparr>)) \<Longrightarrow> yields (on_box w m) Q"
  unfolding on_box_def by (erule yields_then) (rule yields_answer)

lemma yields_again: "yields m Q \<Longrightarrow> yields (again m) (\<lambda>r. Q (fst r))"
  unfolding again_def by (erule yields_then) (rule yields_answer, simp)

lemma yields_shown: "Q w \<Longrightarrow> yields (shown w) Q"
  unfolding shown_def by (intro yields_bind yields_answer)

lemma yields_option:
  "(r = None \<Longrightarrow> yields m Q) \<Longrightarrow> (\<And>x. r = Some x \<Longrightarrow> yields (k x) Q) \<Longrightarrow> yields (case r of None \<Rightarrow> m | Some x \<Rightarrow> k x) Q"
  by (cases r) simp_all

lemma yields_runWizard:
  assumes "yields m Q" "Q b"
  shows "yields (then_ask (runWizard m) (\<lambda>r. answer (case r of None \<Rightarrow> b | Some b' \<Rightarrow> b'))) Q"
  using assms
  by (auto simp: yields_def then_ask_Answer_iff answer_def runWizard_Some_iff split: option.splits)

text \<open>A box that was written to one of the files, before and after the restart.\<close>

lemma yields_saved:
  assumes "writeFile h p data b = r" "p \<in> P"
    and "\<And>b1. confined P b b1 \<Longrightarrow> yields (m b1) Q" "\<And>b1. confined P b b1 \<Longrightarrow> yields (m' b1) Q"
  shows "yields (case r of (b1, None) \<Rightarrow> m b1 | (b1, Some e) \<Rightarrow> m' b1) Q"
  using confined_written [of h p data b _ _ P] assms by (auto split: prod.split option.split)

lemma yields_editPaqetTunnel:
  assumes "tr_Path t \<in> P"
  shows "yields (editPaqetTunnel env h t b) (confined P b)"
proof -
  have save: "yields (savePaqetEdit env h t b c) (confined P b)" for c
    unfolding savePaqetEdit_def
    by (cases "renderPaqetYAML env c") (auto intro!: yields_saved [OF refl assms] yields_bind yields_answer confined_rules)
  have "yields (editPaqetTunnelBody env h t b) (confined P b)"
    unfolding editPaqetTunnelBody_def Let_def
    by (intro yields_option yields_bind yields_if save yields_answer confined_rules) (simp_all add: yields_def panic_def)
  then show ?thesis unfolding editPaqetTunnel_def by (rule yields_runWizard) (rule confined_same)
qed

lemma yields_menuEditTunnel:
  assumes "tr_Path t \<in> P"
  shows "yields (menuEditTunnel e t b) (confined P b)"
proof -
  have save: "yields (editSave e t b cfg) (confined P b)" for cfg
  proof (cases "me_enc e cfg")
    case (Inl err)
    then show ?thesis by (simp add: editSave_def saveConfig_def yields_bind yields_answer confined_same)
  next
    case (Inr data)
    then show ?thesis unfolding editSave_def saveConfig_def
      by (auto intro!: yields_saved [OF refl assms] yields_bind yields_answer confined_rules)
  qed
  have "yields (editChoice env role cfg b (editSave e t b)) (confined P b)" for env role cfg
    unfolding editChoice_def Let_def by (intro yields_bind yields_if save yields_answer confined_rules)
  then have "yields (case loadFile (me_dec e) b (tr_Path t) (tr_Role t) of
      Inl err \<Rightarrow> then_ask pressEnter (\<lambda>u. answer b)
    | Inr cfg \<Rightarrow> editChoice (wizard_env_of e b) (tr_Role t) cfg b (editSave e t b)) (confined P b)"
    by (cases "loadFile (me_dec e) b (tr_Path t) (tr_Role t)") (simp_all add: yields_bind yields_answer confined_same)
  then show ?thesis unfolding menuEditTunnel_def
    by (intro yields_if yields_editPaqetTunnel assms yields_runWizard confined_same)
qed

lemma confined_setPaqetIPTables:
  assumes "rules_v4 \<in> P"
  shows "confined P (fst s) (fst (setPaqetIPTables env h port s))"
proof -
  have "confined P b (persistPaqetIPTables env h k b)" for k b
    using assms unfolding persistPaqetIPTables_def rules_v4_def
    by (auto intro: confined_rules split: option.splits)
  then show ?thesis
    unfolding setPaqetIPTables_def by (auto simp: confined_same split: prod.splits option.splits bool.splits)
qed

lemma yields_reapply:
  assumes "rules_v4 \<in> P"
  shows "yields (reapplyPaqetIPTables env h t s) (\<lambda>s'. confined P (fst s) (fst s'))"
  unfolding reapplyPaqetIPTables_def Let_def
  by (intro yields_option yields_if yields_bind yields_answer confined_same confined_setPaqetIPTables assms)

lemma yields_action_round:
  fixes t :: tunnelRef
  defines "P \<equiv> insert rules_v4 (tunnel_files t)"
  assumes "confined P b (w_box w)"
  shows "yields (action_round env t w) (\<lambda>r. confined P b (w_box (fst r)))"
proof -
  have own: "tr_Path t \<in> P" "rules_v4 \<in> P" by (simp_all add: P_def tunnel_files_def)
  have nb: "w_box (next_turn w) = w_box w" by (simp add: next_turn_def)
  have keep: "confined P b b'" if "confined P (w_box w) b'" for b' using assms(2) that by (rule confined_trans)
  let ?Q = "\<lambda>w'. confined P b (w_box w')"
  have shown_ok: "yields (again (shown w')) (\<lambda>r. ?Q (fst r))" if "?Q w'" for w' :: "'a world"
    using that by (intro yields_again yields_shown)
  have edit: "yields (again (on_box w' (menuEditTunnel e t (w_box w)))) (\<lambda>r. ?Q (fst r))" for w' :: "'a world" and e
    by (intro yields_again yields_on_box yields_mono [OF yields_menuEditTunnel [OF own(1)]]) (simp add: keep)
  have delete: "yields (then_ask (deleteTunnel t (w_box w)) (\<lambda>(gone, b'). answer (w'\<lparr>w_box := b'\<rparr>, \<not> gone))) (\<lambda>r. ?Q (fst r))"
    for w' :: "'a world"
  proof -
    have del: "confined P (w_box w) (deleted t (w_box w))" unfolding P_def by (rule confined_deleted)
    have "yields (deleteTunnel t (w_box w)) (\<lambda>r. confined P b (snd r))"
      unfolding deleteTunnel_def
      by (intro yields_bind yields_if yields_answer) (simp_all add: assms(2) keep [OF del])
    then show ?thesis by (rule yields_then) (auto intro: yields_answer)
  qed
  have reapply: "yields (again (on_both w' (reapplyPaqetIPTables env' h t (w_box w, k)))) (\<lambda>r. ?Q (fst r))"
    for w' :: "'a world" and env' h k
    unfolding on_both_def
    by (intro yields_again yields_then [OF yields_reapply [OF own(2)]] yields_answer) (simp add: keep)
  show ?thesis
    unfolding action_round_def Let_def nb
    by (rule yields_bind, intro yields_if edit delete reapply shown_ok yields_answer)
      (simp_all add: nb systemctl_def confined_run assms(2))
qed

section \<open>Properties\<close>



text \<open>
  Property C32. Whatever is done in the menu of a tunnel, for as long as it is open, stays with that tunnel: no other file changes than its
  configuration, its unit file, its metrics and the saved firewall rules. Every other tunnel on the box is still
  listed afterwards, with the files it had.
\<close>
theorem action_menu_confined:
  assumes "t \<in> set (listed (w_box w))"
  shows "yields (tunnelActionMenu env t w) (\<lambda>w'.
    (\<forall>p. p \<notin> insert rules_v4 (tunnel_files t) \<longrightarrow> readFile (w_box w') p = readFile (w_box w) p) \<and>
    (\<forall>u \<in> set (listed (w_box w)) - {t}. u \<in> set (listed (w_box w')) \<and>
       (\<forall>p \<in> tunnel_files u. readFile (w_box w') p = readFile (w_box w) p)))"
proof -
  let ?P = "insert rules_v4 (tunnel_files t)"
  have "yields (tunnelActionMenu env t w) (\<lambda>w'. confined ?P (w_box w) (w_box w'))"
    unfolding tunnelActionMenu_def by (intro yields_screen yields_action_round) (simp_all add: confined_same)
  then show ?thesis
  proof (rule yields_mono)
    fix w' assume c: "confined ?P (w_box w) (w_box w')"
    have same: "readFile (w_box w') p = readFile (w_box w) p" if "u \<in> set (listed (w_box w)) - {t}" "p \<in> tunnel_files u" for u p
    proof -
      have "p \<notin> tunnel_files t"
        using tunnel_files_apart [of t "w_box w" u p] assms that by (auto simp: listed_def tunnel_files_def)
      moreover have "p \<noteq> rules_v4"
      proof -
        have "tr_Path u = tunnelConfigPath (tr_Role u) (tr_Name u)" using that(1) by (simp add: listed_def listed_iff)
        then show ?thesis using that(2) metricsPath_config [of "tr_Role u" "tr_Name u"]
          by (auto simp: tunnel_files_def rules_v4_def unitPath_def tunnelConfigPath_def tunnelDir_def tunnelsRoot_def)
      qed
      ultimately show ?thesis using c by (simp add: confined_def)
    qed
    moreover have "u \<in> set (listed (w_box w'))" if u: "u \<in> set (listed (w_box w)) - {t}" for u
    proof -
      have r: "readFile (w_box w') (tr_Path u) = readFile (w_box w) (tr_Path u)"
        using same [OF u, of "tr_Path u"] by (simp add: tunnel_files_def)
      from u show ?thesis unfolding listed_def Diff_iff listed_iff stat_readFile r by blast
    qed
    ultimately show "(\<forall>p. p \<notin> ?P \<longrightarrow> readFile (w_box w') p = readFile (w_box w) p) \<and>
      (\<forall>u \<in> set (listed (w_box w)) - {t}. u \<in> set (listed (w_box w')) \<and>
         (\<forall>p \<in> tunnel_files u. readFile (w_box w') p = readFile (w_box w) p))"
      using c by (simp add: confined_def)
  qed
qed

section \<open>A sample\<close>

definition sample_menu_env :: "unit menu_env" where
  "sample_menu_env = \<lparr>me_host = willing, me_bench = we_bench sample_env, me_random = [1, 2],
     me_dec = (\<lambda>s c. Inr (sample_config ''client'', [])), me_enc = (\<lambda>c. Inr []), me_paqet = sample_paqet_env,
     me_arch = ''amd64'', me_latest = Inl EOF, me_download = (\<lambda>u. Inl EOF), me_probes = (\<lambda>c d. []),
     me_open = (\<lambda>s. Inl EOF), me_tar = (\<lambda>es. []),
     me_disk = \<lparr>d_create = None, d_loop = (\<lambda>k. None), d_partial = [], d_close = None\<rparr>, me_backupName = ''b.tar.gz'',
     me_benchServer = (\<lambda>a t. None)\<rparr>"

definition client_tunnel :: "string \<Rightarrow> tunnelRef" where
  "client_tunnel name = \<lparr>tr_Role = ''client'', tr_Name = name, tr_Path = tunnelConfigPath ''client'' name\<rparr>"

definition two_tunnels :: "unit world" where
  "two_tunnels = \<lparr>w_box = \<lparr>files = [(tunnelConfigPath ''client'' ''a'', ''x''), (tunnelConfigPath ''client'' ''b'', ''y'')], ran = []\<rparr>,
     w_kernel = (), w_turn = 0\<rparr>"

lemma two_tunnels_listed: "set (listed (w_box two_tunnels)) = {client_tunnel ''a'', client_tunnel ''b''}"
  unfolding listed_def two_tunnels_def client_tunnel_def
  by (rule set_eqI, simp add: listed_iff tunnelRoles_def stat_def) (auto simp: tunnelConfigPath_def tunnelDir_def)

theorem action_menu_confined_witness:
  "\<exists>w'. tunnelActionMenu (\<lambda>n. sample_menu_env) (client_tunnel ''a'') two_tunnels [''6'', ''y'', []] = Answer w' [] \<and>
     readFile (w_box w') (tunnelConfigPath ''client'' ''b'') = Some ''y''"
proof -
  have t: "client_tunnel ''a'' \<in> set (listed (w_box two_tunnels))" "client_tunnel ''b'' \<in> set (listed (w_box two_tunnels)) - {client_tunnel ''a''}"
    using two_tunnels_listed by (simp_all add: client_tunnel_def)
  have "\<exists>w'. tunnelActionMenu (\<lambda>n. sample_menu_env) (client_tunnel ''a'') two_tunnels [''6'', ''y'', []] = Answer w' []"
    by (simp add: tunnelActionMenu_def screen_def action_round_def deleteTunnel_def ask_simps Let_def)
  then obtain w' where w': "tunnelActionMenu (\<lambda>n. sample_menu_env) (client_tunnel ''a'') two_tunnels [''6'', ''y'', []] = Answer w' []"
    by blast
  from action_menu_confined [OF t(1), of "\<lambda>n. sample_menu_env", unfolded yields_def, rule_format, OF w'] t(2)
  have "\<forall>p \<in> tunnel_files (client_tunnel ''b''). readFile (w_box w') p = readFile (w_box two_tunnels) p" by blast
  then have "readFile (w_box w') (tunnelConfigPath ''client'' ''b'') = Some ''y''"
    by (simp add: tunnel_files_def client_tunnel_def two_tunnels_def readFile_def tunnelConfigPath_def)
  with w' show ?thesis by blast
qed


section \<open>From the wizard to the list\<close>

lemma yields_finish_saved:
  "yields (finishWizard env role name data) (\<lambda>out. snd (snd out) \<noteq> None \<longrightarrow> we_saves env (fst out))"
  unfolding finishWizard_def by (intro yields_bind yields_if yields_answer) simp_all

definition saved_ok :: "wizard_env \<Rightarrow> wizard_result \<Rightarrow> bool" where
  "saved_ok env r = (case r of HandOver role' n \<Rightarrow> True | Built b out \<Rightarrow> snd (snd out) \<noteq> None \<longrightarrow> we_saves env (fst out))"

lemma yields_wizards_saved: "yields (wizardServerBody env) (saved_ok env)" "yields (wizardClientBody env) (saved_ok env)"
proof -
  have "yields (wizardServerRest env direction) (saved_ok env)" "yields (wizardClientRest env direction) (saved_ok env)" for direction
    unfolding wizardServerRest_def wizardClientRest_def Let_def
    by (intro yields_bind yields_then [OF yields_finish_saved] yields_answer, simp add: saved_ok_def)+
  then show "yields (wizardServerBody env) (saved_ok env)" "yields (wizardClientBody env) (saved_ok env)"
    unfolding wizardServerBody_def wizardClientBody_def
    by (intro yields_bind yields_if yields_answer; simp add: saved_ok_def)+
qed

lemma binary_apart: "tr_Path u = tunnelConfigPath (tr_Role u) (tr_Name u) \<Longrightarrow> rmtunnelBin \<notin> tunnel_files u"
  using metricsPath_config [of "tr_Role u" "tr_Name u"]
  by (auto simp: tunnel_files_def rmtunnelBin_def unitPath_def tunnelConfigPath_def tunnelDir_def tunnelsRoot_def)

text \<open>What a finished wizard that saved to the usual place changes.\<close>

lemma readFile_finish_effect:
  assumes "role \<in> set tunnelRoles" "isValidTunnelName name" "we_saves (wizard_env_of e b) (tunnelConfigPath role name)"
    and "b' = finish_effect (me_host e) role name (tunnelConfigPath role name, data, install) b"
  shows "readFile b' (tunnelConfigPath role name) = Some data"
    and "p \<notin> {tunnelConfigPath role name, unitPath (systemdUnitInstance role name), rmtunnelBin} \<Longrightarrow> readFile b' p = readFile b p"
proof -
  let ?h = "me_host e" and ?p = "tunnelConfigPath role name"
  have full: "fullPath ?h ?p = ?p" by (simp add: tunnelConfigPath_def tunnelDir_def tunnelsRoot_def)
  have clean: "cleanPath ?p = ?p" using assms(1) valid_name_chars(1) [OF assms(2)] by (rule cleanPath_config)
  have io: "h_mkdir ?h (pathDir ?p) = None" "h_io ?h ?p = None" using assms(3) by (simp_all add: wizard_env_of_def full clean)
  let ?b1 = "fst (writeFile ?h ?p data b)"
  have b': "b' = (if install = Some True then installTunnelService ?h role name ?p ?b1 else ?b1)"
    unfolding assms(4) finish_effect_def by (simp add: full clean io Let_def)
  have inst: "readFile b' q = readFile ?b1 q" if "q \<noteq> unitPath (systemdUnitInstance role name)" "q \<noteq> rmtunnelBin" for q
    unfolding b' using readFile_install [OF that] by simp
  have "?p \<noteq> unitPath (systemdUnitInstance role name)" "?p \<noteq> rmtunnelBin"
    by (simp_all add: unitPath_def rmtunnelBin_def tunnelConfigPath_def tunnelDir_def tunnelsRoot_def)
  with inst show "readFile b' ?p = Some data" by (simp add: readFile_write io)
  show "readFile b' p = readFile b p" if "p \<notin> {?p, unitPath (systemdUnitInstance role name), rmtunnelBin}"
    using inst [of p] that by (simp add: readFile_write)
qed

text \<open>Two listed tunnels at one path are one.\<close>

lemma listed_path_inj:
  assumes "u \<in> set (listed b)" "tr_Path u = tr_Path t" "tr_Role t \<in> set tunnelRoles"
    and "tr_Path t = tunnelConfigPath (tr_Role t) (tr_Name t)"
  shows "u = t"
proof -
  have u: "tr_Role u \<in> set tunnelRoles" "tr_Path u = tunnelConfigPath (tr_Role u) (tr_Name u)"
    using assms(1) unfolding listed_def listed_iff by blast+
  have conf: "tunnelConfigPath r n = tunnelDir r @ ''/'' @ (n @ tunnelConfigExt r)" for r n by (simp add: tunnelConfigPath_def)
  have "tunnelConfigPath (tr_Role u) (tr_Name u) = tunnelConfigPath (tr_Role t) (tr_Name t)" using assms(2,4) u(2) by simp
  then have "tr_Role u = tr_Role t \<and> tr_Name u @ tunnelConfigExt (tr_Role u) = tr_Name t @ tunnelConfigExt (tr_Role t)"
    unfolding conf same_dir_file [OF u(1) assms(3)] .
  then show ?thesis using assms(2) by (cases u, cases t) auto
qed

text \<open>Writing a listed tunnel's configuration, its unit and the binary leaves the files of every other tunnel alone.\<close>

lemma others_keep_files:
  assumes "t \<in> set (listed b')" "u \<in> set (listed b) - {t}"
    and "\<And>p. p \<notin> {tr_Path t, unitPath (tunnel_unit t), rmtunnelBin} \<Longrightarrow> readFile b' p = readFile b p"
  shows "u \<in> set (listed b') \<and> (\<forall>p \<in> tunnel_files u. readFile b' p = readFile b p)"
proof -
  have c: "tr_Role u \<in> set tunnelRoles" "tr_Path u = tunnelConfigPath (tr_Role u) (tr_Name u)" "CHR ''/'' \<notin> set (tr_Name u)"
    "stat b (tr_Path u)" using assms(2) unfolding listed_def Diff_iff listed_iff by blast+
  have t: "tr_Role t \<in> set tunnelRoles" "tr_Path t = tunnelConfigPath (tr_Role t) (tr_Name t)"
    using assms(1) unfolding listed_def listed_iff by blast+
  note bin = binary_apart [OF c(2)]
  have "tr_Path u \<noteq> tr_Path t" using listed_path_inj [OF _ _ t] assms(2) by blast
  moreover have "tr_Path u \<noteq> unitPath (tunnel_unit t)" unfolding c(2) by (simp add: tunnelConfigPath_def unitPath_outside)
  moreover have "tr_Path u \<noteq> rmtunnelBin" using bin by (auto simp: tunnel_files_def)
  ultimately have "readFile b' (tr_Path u) = readFile b (tr_Path u)" by (intro assms(3)) simp
  then have l: "u \<in> set (listed b')" using c unfolding listed_def listed_iff stat_readFile by metis
  have "readFile b' p = readFile b p" if "p \<in> tunnel_files u" for p
  proof (rule assms(3))
    have "p \<notin> tunnel_files t"
      using tunnel_files_apart [of t b' u p] assms(1,2) l that by (auto simp: listed_def tunnel_files_def)
    moreover have "p \<noteq> rmtunnelBin" using bin that by auto
    ultimately show "p \<notin> {tr_Path t, unitPath (tunnel_unit t), rmtunnelBin}" by (simp add: tunnel_files_def)
  qed
  with l show ?thesis by blast
qed


lemma sample_menu_wizard:
  "\<exists>bl data. wizardClientBody (wizard_env_of sample_menu_env \<lparr>files = [], ran = []\<rparr>)
     [''1'', ''1'', ''2'', ''h'', [], [], [], [], ''s'', ''3'', ''2'', [], ''n'', []] =
       Answer (Built bl (tunnelConfigPath ''client'' (b_name bl), data, Some False)) [] \<and>
   (\<forall>d\<in>set (b_disguises bl). \<not> half_fec d) \<and> b_name bl = ''main''"
  by (simp add: ask_simps number_simps wizardClientBody_def wizardClientRest_def askDirection_def askTransportMode_def
      askFamily_def askTCPVariant_def askPlainDisguiseAnswer_def askPeerAddr_def askBackups_def askBackupAddrs_def
      askTunnelName_def sample_env_def isValidTunnelName_def name_char_def askTierPreset_def askStaticTier_def
      tiers_def finishWizard_def half_fec_def answer_of_type_def Let_def wizard_env_of_def sample_menu_env_def
      stat_def willing_def
      del: then_ask_assoc then_ask_if)


end
