(* ===== verification/Speed_Test.thy ===== *)
theory Speed_Test
  imports Tiers Wire
begin

text \<open>
  The speed test of \<open>bench.go\<close>: its protocol, both ends, and how its figures come about. Here time matters, so a
  connection is a clock, what will arrive and when, how long each write takes, and what was written. Only reading
  and writing take time.
\<close>

section \<open>A connection in time\<close>

text \<open>
  \<open>tc_pace\<close> has, for each write to come, how long it takes and how much of it gets out when a deadline cuts it
  short; after the last one the other side is gone. A stream ends at a time of its own, with an error.
\<close>

record tconn =
  tc_now :: int
  tc_in :: "(int \<times> bytes) list"
  tc_end :: "int \<times> goerror"
  tc_pace :: "(nat \<times> nat) list"
  tc_out :: bytes
  tc_rdl :: "int option"
  tc_wdl :: "int option"
  tc_closed :: bool

definition passed :: "int option \<Rightarrow> int \<Rightarrow> bool" where
  "passed dl t = (case dl of None \<Rightarrow> False | Some d \<Rightarrow> d \<le> t)"

text \<open>\<open>conn.Read\<close> into a buffer of \<open>n\<close> bytes.\<close>

definition tc_read :: "nat \<Rightarrow> tconn \<Rightarrow> tconn \<times> bytes \<times> goerror option" where
  "tc_read n c =
     (if tc_closed c then (c, [], Some ConnClosed)
      else case tc_in c of
        [] \<Rightarrow>
          (let t = max (tc_now c) (fst (tc_end c)) in
           if passed (tc_rdl c) t then (c\<lparr>tc_now := max (tc_now c) (the (tc_rdl c))\<rparr>, [], Some Timeout)
           else (c\<lparr>tc_now := t\<rparr>, [], Some (snd (tc_end c))))
      | (t, bs) # later \<Rightarrow>
          (let t = max (tc_now c) t in
           if passed (tc_rdl c) t then (c\<lparr>tc_now := max (tc_now c) (the (tc_rdl c))\<rparr>, [], Some Timeout)
           else (c\<lparr>tc_now := t, tc_in := (if length bs \<le> n then later else (t, drop n bs) # later)\<rparr>, take n bs, None)))"

text \<open>\<open>conn.Write\<close>.\<close>

definition tc_write :: "bytes \<Rightarrow> tconn \<Rightarrow> tconn \<times> goerror option" where
  "tc_write bs c =
     (if tc_closed c then (c, Some ConnClosed)
      else if passed (tc_wdl c) (tc_now c) then (c, Some Timeout)
      else case tc_pace c of
        [] \<Rightarrow> (c, Some WriteFailed)
      | (dur, part) # later \<Rightarrow>
          (if passed (tc_wdl c) (tc_now c + int dur)
           then (c\<lparr>tc_now := the (tc_wdl c), tc_pace := later, tc_out := tc_out c @ take part bs\<rparr>, Some Timeout)
           else (c\<lparr>tc_now := tc_now c + int dur, tc_pace := later, tc_out := tc_out c @ bs\<rparr>, None)))"

definition tc_deadline :: "int option \<Rightarrow> tconn \<Rightarrow> tconn" where
  "tc_deadline d c = c\<lparr>tc_rdl := d, tc_wdl := d\<rparr>"

definition tc_close :: "tconn \<Rightarrow> tconn" where
  "tc_close c = c\<lparr>tc_closed := True\<rparr>"

text \<open>Bytes still to be read; what bounds every loop that reads.\<close>

definition pending :: "tconn \<Rightarrow> bytes" where
  "pending c = concat (map snd (tc_in c))"

definition tc_size :: "tconn \<Rightarrow> nat" where
  "tc_size c = length (tc_in c) + length (pending c)"

lemma tc_read_None:
  assumes "tc_read n c = (c', bs, None)"
  shows "pending c = bs @ pending c'" "0 < n \<Longrightarrow> tc_size c' < tc_size c"
  using assms by (auto simp: tc_read_def pending_def tc_size_def Let_def split: list.splits if_splits)

lemma tc_read_size: "(c', bs, None) = tc_read n c \<Longrightarrow> 0 < n \<Longrightarrow> tc_size c' < tc_size c"
  using tc_read_None(2) [of n c c' bs] by simp

lemma tc_size_fields [simp]:
  "tc_size (c\<lparr>tc_rdl := d\<rparr>) = tc_size c" "tc_size (c\<lparr>tc_wdl := d\<rparr>) = tc_size c"
  "pending (c\<lparr>tc_rdl := d\<rparr>) = pending c" "pending (c\<lparr>tc_wdl := d\<rparr>) = pending c"
  by (simp_all add: tc_size_def pending_def)

lemma tc_read_Some:
  assumes "tc_read n c = (c', bs, Some e)"
  shows "bs = []" "tc_in c' = tc_in c"
  using assms by (auto simp: tc_read_def Let_def split: list.splits if_splits)

lemma tc_read_pending: "tc_read n c = (c', bs, r) \<Longrightarrow> pending c = bs @ pending c'"
  by (cases r) (simp_all add: tc_read_None(1), metis tc_read_Some append_Nil pending_def)

lemma tc_read_frame:
  "tc_read n c = (c', bs, r) \<Longrightarrow>
     tc_rdl c' = tc_rdl c \<and> tc_wdl c' = tc_wdl c \<and> tc_pace c' = tc_pace c \<and> tc_out c' = tc_out c \<and>
     tc_end c' = tc_end c \<and> tc_closed c' = tc_closed c \<and> tc_now c \<le> tc_now c'"
  by (auto simp: tc_read_def Let_def split: list.splits if_splits)

lemma tc_write_frame:
  "tc_write bs c = (c', r) \<Longrightarrow>
     tc_rdl c' = tc_rdl c \<and> tc_wdl c' = tc_wdl c \<and> tc_in c' = tc_in c \<and> tc_end c' = tc_end c \<and> tc_closed c' = tc_closed c \<and>
     tc_now c \<le> tc_now c'"
  by (auto simp: tc_write_def passed_def split: list.splits if_splits option.splits)

text \<open>\<open>io.ReadFull\<close>.\<close>

function tc_readFull :: "nat \<Rightarrow> tconn \<Rightarrow> tconn \<times> (goerror + bytes)" where
  "tc_readFull n c =
     (if n = 0 then (c, Inr [])
      else case tc_read n c of
        (c1, got, Some e) \<Rightarrow> (c1, Inl e)
      | (c1, got, None) \<Rightarrow>
          (case tc_readFull (n - length got) c1 of
             (c2, Inl e) \<Rightarrow> (c2, Inl (if e = EOF \<and> got \<noteq> [] then UnexpectedEOF else e))
           | (c2, Inr others) \<Rightarrow> (c2, Inr (got @ others))))"
  by auto

termination
  by (relation "measure (\<lambda>(n, c). tc_size c)") (auto dest: tc_read_size)

declare tc_readFull.simps [simp del]

definition tc_readByte :: "tconn \<Rightarrow> tconn \<times> (goerror + byte)" where
  "tc_readByte c = (case tc_readFull 1 c of (c1, Inl e) \<Rightarrow> (c1, Inl e) | (c1, Inr b) \<Rightarrow> (c1, Inr (hd b)))"

definition tc_writeByte :: "byte \<Rightarrow> tconn \<Rightarrow> tconn \<times> goerror option" where
  "tc_writeByte b c = tc_write [b] c"

text \<open>\<open>binary.BigEndian\<close> on 32 and 64 bits.\<close>

definition putBE :: "nat \<Rightarrow> 'a::len word \<Rightarrow> bytes" where
  "putBE k v = map (\<lambda>i. ucast (drop_bit (8 * i) v)) (rev [0..<k])"

definition getBE :: "bytes \<Rightarrow> 'a::len word" where
  "getBE b = fold (\<lambda>x acc. or (push_bit 8 acc) (ucast x)) b 0"

definition readUint32 :: "tconn \<Rightarrow> tconn \<times> (goerror + 32 word)" where
  "readUint32 c = (case tc_readFull 4 c of (c1, Inl e) \<Rightarrow> (c1, Inl e) | (c1, Inr b) \<Rightarrow> (c1, Inr (getBE b)))"

definition writeUint32 :: "32 word \<Rightarrow> tconn \<Rightarrow> tconn \<times> goerror option" where
  "writeUint32 v c = tc_write (putBE 4 v) c"

section \<open>Loops against the clock\<close>

text \<open>\<open>for time.Now().Before(stop)\<close> around a read into the 64 KiB buffer, which an error leaves; the bytes read.\<close>

function read_until :: "int \<Rightarrow> tconn \<Rightarrow> tconn \<times> nat" where
  "read_until stop c =
     (if stop \<le> tc_now c then (c, 0)
      else case tc_read 65536 c of
        (c1, got, Some e) \<Rightarrow> (c1, length got)
      | (c1, got, None) \<Rightarrow> (case read_until stop c1 of (c2, n) \<Rightarrow> (c2, length got + n)))"
  by auto

termination
  by (relation "measure (\<lambda>(stop, c). tc_size c)") (auto dest: tc_read_size)

declare read_until.simps [simp del]

text \<open>The same around a write; \<open>arm\<close> is the deadline each write has.\<close>

function write_until :: "(tconn \<Rightarrow> int option) \<Rightarrow> int \<Rightarrow> bytes \<Rightarrow> tconn \<Rightarrow> tconn" where
  "write_until arm stop data c =
     (if stop \<le> tc_now c then c
      else case tc_write data (c\<lparr>tc_wdl := arm c\<rparr>) of
        (c1, Some e) \<Rightarrow> c1
      | (c1, None) \<Rightarrow> write_until arm stop data c1)"
  by auto

termination
  by (relation "measure (\<lambda>(arm, stop, data, c). length (tc_pace c))")
    (auto simp: tc_write_def split: list.splits if_splits)

declare write_until.simps [simp del]

text \<open>\<open>drainQuiet\<close>: read until nothing has come for a while.\<close>

function drain :: "int \<Rightarrow> tconn \<Rightarrow> tconn" where
  "drain quiet c =
     (case tc_read 65536 (c\<lparr>tc_rdl := Some (tc_now c + quiet)\<rparr>) of
        (c1, got, Some e) \<Rightarrow> c1
      | (c1, got, None) \<Rightarrow> drain quiet c1)"
  by auto

termination
  by (relation "measure (\<lambda>(quiet, c). tc_size c)") (auto dest: tc_read_size)

declare drain.simps [simp del]

definition drainQuiet :: "tconn \<Rightarrow> int \<Rightarrow> tconn" where
  "drainQuiet c quiet = (drain quiet c)\<lparr>tc_rdl := None\<rparr>"

section \<open>The server\<close>

definition benchPing :: byte where "benchPing = 1"
definition benchDown :: byte where "benchDown = 2"
definition benchUp :: byte where "benchUp = 3"
definition benchWarmup :: int where "benchWarmup = 2 * second"
definition benchTestDuration :: int where "benchTestDuration = 5 * second"
definition benchPings :: nat where "benchPings = 10"

definition block :: bytes where "block = replicate 65536 0"

definition serve_down :: "tconn \<Rightarrow> tconn \<times> goerror option" where
  "serve_down c =
     (case readUint32 c of
        (c1, Inl e) \<Rightarrow> (c1, Some e)
      | (c1, Inr secs) \<Rightarrow>
          ((write_until (\<lambda>c. Some (tc_now c + 2 * second)) (tc_now c1 + uint secs * second) block c1)\<lparr>tc_wdl := None\<rparr>, None))"

text \<open>
  The lengths are added in 32 bits. The answer is what was read in the measured window and how long that took.
\<close>

definition upload_window :: "32 word \<Rightarrow> 32 word \<Rightarrow> tconn \<Rightarrow> tconn \<times> nat \<times> int" where
  "upload_window warm meas c =
     (let c1 = c\<lparr>tc_rdl := Some (tc_now c + (uint (warm + meas) * second + 3 * second))\<rparr>;
          c2 = fst (read_until (tc_now c1 + uint warm * second) c1);
          (c3, recv) = read_until (tc_now c2 + uint meas * second) c2
      in (c3\<lparr>tc_rdl := None\<rparr>, recv, tc_now c3 - tc_now c2))"

definition upload_report :: "nat \<Rightarrow> int \<Rightarrow> bytes" where
  "upload_report recv elapsed = putBE 8 (word_of_nat recv :: 64 word) @ putBE 8 (word_of_int elapsed :: 64 word)"

definition serve_up :: "tconn \<Rightarrow> tconn \<times> goerror option" where
  "serve_up c =
     (case readUint32 c of
        (c1, Inl e) \<Rightarrow> (c1, Some e)
      | (c1, Inr warm) \<Rightarrow>
          (case readUint32 c1 of
             (c2, Inl e) \<Rightarrow> (c2, Some e)
           | (c2, Inr meas) \<Rightarrow>
               (case upload_window warm meas c2 of (c3, recv, elapsed) \<Rightarrow> tc_write (upload_report recv elapsed) c3)))"

definition serve_command :: "byte \<Rightarrow> tconn \<Rightarrow> tconn \<times> goerror option" where
  "serve_command cmd c =
     (if cmd = benchPing then tc_writeByte benchPing c
      else if cmd = benchDown then serve_down c
      else if cmd = benchUp then serve_up c
      else (c, Some (Msg (''unknown bench command '' @ itoa (uint cmd)))))"

lemma tc_read_le: "tc_read n c = (c', bs, r) \<Longrightarrow> tc_size c' \<le> tc_size c"
  by (auto simp: tc_read_def tc_size_def pending_def Let_def split: list.splits if_splits)

lemma tc_write_size: "tc_write bs c = (c', r) \<Longrightarrow> tc_size c' = tc_size c"
  using tc_write_frame [of bs c c' r] by (simp add: tc_size_def pending_def)

lemma tc_readFull_size:
  "tc_readFull n c = (c', r) \<Longrightarrow> tc_size c' \<le> tc_size c \<and> ((\<exists>b. r = Inr b) \<longrightarrow> 0 < n \<longrightarrow> tc_size c' < tc_size c)"
proof (induction n c arbitrary: c' r rule: tc_readFull.induct)
  case (1 n c)
  show ?case
  proof (cases "n = 0")
    case True
    then show ?thesis using 1(2) by (simp add: tc_readFull.simps [of 0 c])
  next
    case False
    obtain c1 got e where rd: "tc_read n c = (c1, got, e)" by (metis prod_cases3)
    show ?thesis
    proof (cases e)
      case (Some x)
      then show ?thesis using 1(2) False rd tc_read_le [OF rd] by (auto simp: tc_readFull.simps [of n c])
    next
      case None
      obtain c2 r2 where more: "tc_readFull (n - length got) c1 = (c2, r2)" by fastforce
      have "c' = c2" using 1(2) False rd None more by (auto simp: tc_readFull.simps [of n c] split: sum.splits)
      moreover have "tc_size c2 \<le> tc_size c1" using 1(1) [OF False rd [unfolded None, symmetric] refl refl more] by blast
      moreover have "tc_size c1 < tc_size c" using tc_read_None(2) [of n c c1 got] rd None False by simp
      ultimately show ?thesis by simp
    qed
  qed
qed

lemma read_until_size: "tc_size (fst (read_until stop c)) \<le> tc_size c"
proof (induction stop c rule: read_until.induct)
  case (1 stop c)
  obtain c1 got e where rd: "tc_read 65536 c = (c1, got, e)" by (metis prod_cases3)
  show ?case
    using 1 [OF _ rd [symmetric] refl] tc_read_le [OF rd] rd
    by (cases e) (auto simp: read_until.simps [of stop c] split: prod.splits intro: le_trans)
qed

lemma write_until_size: "tc_size (write_until arm stop data c) = tc_size c"
proof (induction arm stop data c rule: write_until.induct)
  case (1 arm stop data c)
  obtain c1 e where w: "tc_write data (c\<lparr>tc_wdl := arm c\<rparr>) = (c1, e)" by fastforce
  show ?case
    using 1 [OF _ w [symmetric]] tc_write_size [OF w] w
    by (cases e) (auto simp: write_until.simps [of arm stop data c])
qed

lemma readUint32_size: "readUint32 c = (c', r) \<Longrightarrow> tc_size c' \<le> tc_size c"
  using tc_readFull_size [of 4 c] by (auto simp: readUint32_def split: prod.splits sum.splits)

lemma upload_window_size: "tc_size (fst (upload_window warm meas c)) \<le> tc_size c"
proof -
  let ?c1 = "c\<lparr>tc_rdl := Some (tc_now c + (uint (warm + meas) * second + 3 * second))\<rparr>"
  let ?c2 = "fst (read_until (tc_now ?c1 + uint warm * second) ?c1)"
  obtain c3 recv where c3: "read_until (tc_now ?c2 + uint meas * second) ?c2 = (c3, recv)" by fastforce
  have "upload_window warm meas c = (c3\<lparr>tc_rdl := None\<rparr>, recv, tc_now c3 - tc_now ?c2)"
    unfolding upload_window_def Let_def c3 by simp
  moreover have "tc_size c3 \<le> tc_size ?c2" using read_until_size [of "tc_now ?c2 + uint meas * second" ?c2] c3 by simp
  moreover have "tc_size ?c2 \<le> tc_size ?c1" by (rule read_until_size)
  ultimately show ?thesis by simp
qed

lemma serve_up_size: "tc_size (fst (serve_up c)) \<le> tc_size c"
proof -
  have w: "tc_size (fst (tc_write out d)) = tc_size d" for out d
    using tc_write_size [of out d] by (metis prod.collapse)
  obtain c1 r1 where r1: "readUint32 c = (c1, r1)" by fastforce
  obtain c2 r2 where r2: "readUint32 c1 = (c2, r2)" by fastforce
  have le: "tc_size c1 \<le> tc_size c" "tc_size c2 \<le> tc_size c"
    using readUint32_size [OF r1] readUint32_size [OF r2] by simp_all
  have "tc_size (fst (case upload_window warm meas c2 of (c3, recv, elapsed) \<Rightarrow> tc_write (upload_report recv elapsed) c3)) \<le> tc_size c"
    for warm meas
    using upload_window_size [of warm meas c2] le(2) by (cases "upload_window warm meas c2") (simp add: w)
  then show ?thesis using le by (simp add: serve_up_def r1 r2 split: sum.split)
qed

lemma serve_command_size: "tc_size (fst (serve_command cmd c)) \<le> tc_size c"
proof -
  have "tc_size (fst (tc_writeByte b c)) = tc_size c" for b
    by (metis tc_writeByte_def tc_write_size surj_pair fst_conv)
  moreover have "tc_size (fst (serve_down c)) \<le> tc_size c"
    using readUint32_size [of c] by (auto simp: serve_down_def write_until_size split: prod.splits sum.splits)
  ultimately show ?thesis using serve_up_size [of c] by (simp add: serve_command_def)
qed

lemma tc_readByte_size: "(c', Inr b) = tc_readByte c \<Longrightarrow> tc_size c' < tc_size c"
  using tc_readFull_size [of 1 c] by (auto simp: tc_readByte_def split: prod.splits sum.splits)

function serve_commands :: "tconn \<Rightarrow> tconn \<times> goerror option" where
  "serve_commands c =
     (case tc_readByte c of
        (c1, Inl e) \<Rightarrow> (c1, None)
      | (c1, Inr cmd) \<Rightarrow>
          (case serve_command cmd c1 of
             (c2, Some e) \<Rightarrow> (c2, Some e)
           | (c2, None) \<Rightarrow> serve_commands c2))"
  by auto

termination
proof (relation "measure tc_size")
  fix c c1 r cmd c2 e
  assume "(c1, r) = tc_readByte c" "r = Inr cmd" "(c2, e) = serve_command cmd c1"
  then show "(c2, c) \<in> measure tc_size"
    using tc_readByte_size [of c1 cmd c] serve_command_size [of cmd c1] by (auto dest: sym [of "(c2, e)"])
qed simp

declare serve_commands.simps [simp del]

definition serveBenchConn_body :: "mac \<Rightarrow> bytes option \<Rightarrow> string \<Rightarrow> tconn \<Rightarrow> tconn \<times> goerror option" where
  "serveBenchConn_body mac rnd token c =
     (let c = tc_deadline (Some (tc_now c + 10 * second)) c in
      case randomBytes rnd of
        Inl e \<Rightarrow> (c, Some e)
      | Inr challenge \<Rightarrow>
          (case tc_write challenge c of
             (c1, Some e) \<Rightarrow> (c1, Some e)
           | (c1, None) \<Rightarrow>
               (case tc_readFull 32 c1 of
                  (c2, Inl e) \<Rightarrow> (c2, Some e)
                | (c2, Inr tag) \<Rightarrow>
                    if tag \<noteq> hmacTag mac token challenge then (fst (tc_writeByte 0 c2), Some (Msg ''bad token''))
                    else serve_commands (tc_deadline None (fst (tc_writeByte 1 c2))))))"

definition serveBenchConn :: "mac \<Rightarrow> bytes option \<Rightarrow> string \<Rightarrow> tconn \<Rightarrow> tconn \<times> goerror option" where
  "serveBenchConn mac rnd token c = (case serveBenchConn_body mac rnd token c of (c1, r) \<Rightarrow> (tc_close c1, r))"

section \<open>The client\<close>

definition float_seconds :: "(real \<Rightarrow> real) \<Rightarrow> int \<Rightarrow> real" where
  "float_seconds rnd nanos = rnd (rnd (of_int nanos) / 1000000000)"

text \<open>\<open>float64(recv) * 8 / elapsed / 1e6\<close>.\<close>

definition mbps :: "(real \<Rightarrow> real) \<Rightarrow> nat \<Rightarrow> real \<Rightarrow> real" where
  "mbps rnd recv elapsed = rnd (rnd (rnd (rnd (real recv) * 8) / elapsed) / 1000000)"

definition whole_seconds :: "int \<Rightarrow> 32 word" where
  "whole_seconds d = word_of_int (go_quot d second)"

definition measureDownload :: "(real \<Rightarrow> real) \<Rightarrow> tconn \<Rightarrow> int \<Rightarrow> int \<Rightarrow> tconn \<times> (goerror + real)" where
  "measureDownload rnd c warmup window =
     (case writeUint32 (whole_seconds (warmup + window)) c of
        (c1, Some e) \<Rightarrow> (c1, Inl e)
      | (c1, None) \<Rightarrow>
          (let c2 = c1\<lparr>tc_rdl := Some (tc_now c1 + (warmup + window + 2 * second))\<rparr>;
               c3 = fst (read_until (tc_now c2 + warmup) c2);
               (c4, recv) = read_until (tc_now c3 + window) c3;
               elapsed = duration_seconds rnd (tc_now c4 - tc_now c3)
           in (c4\<lparr>tc_rdl := None\<rparr>, Inr (if elapsed \<le> 0 then 0 else mbps rnd recv elapsed))))"

definition measureUpload :: "(real \<Rightarrow> real) \<Rightarrow> tconn \<Rightarrow> int \<Rightarrow> int \<Rightarrow> tconn \<times> (goerror + real)" where
  "measureUpload rnd c warmup window =
     (case writeUint32 (whole_seconds warmup) c of
        (c1, Some e) \<Rightarrow> (c1, Inl e)
      | (c1, None) \<Rightarrow>
          (case writeUint32 (whole_seconds window) c1 of
             (c2, Some e) \<Rightarrow> (c2, Inl e)
           | (c2, None) \<Rightarrow>
               (let total = warmup + window;
                    c3 = write_until tc_wdl (tc_now c2 + total) block (c2\<lparr>tc_wdl := Some (tc_now c2 + (total + 5 * second))\<rparr>);
                    c4 = c3\<lparr>tc_wdl := None, tc_rdl := Some (tc_now c3 + 5 * second)\<rparr>
                in case tc_readFull 16 c4 of
                  (c5, Inl e) \<Rightarrow> (c5, Inl e)
                | (c5, Inr b) \<Rightarrow>
                    (let recv = (getBE (take 8 b) :: 64 word); nanos = (getBE (drop 8 b) :: 64 word)
                     in (c5\<lparr>tc_rdl := None\<rparr>,
                         Inr (if nanos = 0 then 0 else mbps rnd (unat recv) (float_seconds rnd (uint nanos))))))))"

fun ping_loop :: "nat \<Rightarrow> tconn \<Rightarrow> tconn \<times> (goerror + int list)" where
  "ping_loop 0 c = (c, Inr [])"
| "ping_loop (Suc k) c =
     (case tc_writeByte benchPing c of
        (c1, Some e) \<Rightarrow> (c1, Inl e)
      | (c1, None) \<Rightarrow>
          (case tc_readByte (c1\<lparr>tc_rdl := Some (tc_now c1 + 5 * second)\<rparr>) of
             (c2, Inl e) \<Rightarrow> (c2, Inl e)
           | (c2, Inr b) \<Rightarrow>
               (case ping_loop k c2 of
                  (c3, Inl e) \<Rightarrow> (c3, Inl e)
                | (c3, Inr rtts) \<Rightarrow> (c3, Inr ((tc_now c2 - tc_now c) # rtts)))))"

definition summarizeRTT :: "int list \<Rightarrow> int \<times> int \<times> int" where
  "summarizeRTT rtts =
     (case rtts of
        [] \<Rightarrow> (0, 0, 0)
      | d # ds \<Rightarrow>
          (fold (\<lambda>x m. if x < m then x else m) rtts d,
           go_quot (fold (\<lambda>x s. wrap64 (s + x)) rtts 0) (int (length rtts)),
           fold (\<lambda>x m. if x > m then x else m) rtts d))"

definition bench_phases :: "(real \<Rightarrow> real) \<Rightarrow> tconn \<Rightarrow> tconn \<times> (goerror + benchResult)" where
  "bench_phases rnd c =
     (case ping_loop benchPings c of
        (c1, Inl e) \<Rightarrow> (c1, Inl e)
      | (c1, Inr rtts) \<Rightarrow>
          (case tc_writeByte benchDown (c1\<lparr>tc_rdl := None\<rparr>) of
             (c2, Some e) \<Rightarrow> (c2, Inl e)
           | (c2, None) \<Rightarrow>
               (case measureDownload rnd c2 benchWarmup benchTestDuration of
                  (c3, Inl e) \<Rightarrow> (c3, Inl e)
                | (c3, Inr down) \<Rightarrow>
                    (case tc_writeByte benchUp (drainQuiet c3 (300 * millisecond)) of
                       (c4, Some e) \<Rightarrow> (c4, Inl e)
                     | (c4, None) \<Rightarrow>
                         (case measureUpload rnd c4 benchWarmup benchTestDuration of
                            (c5, Inl e) \<Rightarrow> (c5, Inl e)
                          | (c5, Inr up) \<Rightarrow>
                              (case summarizeRTT rtts of
                                 (lo, avg, hi) \<Rightarrow>
                                   (c5, Inr \<lparr>minRTT = lo, avgRTT = avg, maxRTT = hi, downMbps = down, upMbps = up\<rparr>)))))))"

definition measureLink_body :: "(real \<Rightarrow> real) \<Rightarrow> mac \<Rightarrow> string \<Rightarrow> tconn \<Rightarrow> tconn \<times> (goerror + benchResult)" where
  "measureLink_body rnd mac token c =
     (case tc_readFull 16 (tc_deadline (Some (tc_now c + 10 * second)) c) of
        (c1, Inl e) \<Rightarrow> (c1, Inl e)
      | (c1, Inr challenge) \<Rightarrow>
          (case tc_write (hmacTag mac token challenge) c1 of
             (c2, Some e) \<Rightarrow> (c2, Inl e)
           | (c2, None) \<Rightarrow>
               (case tc_readByte c2 of
                  (c3, Inl e) \<Rightarrow> (c3, Inl e)
                | (c3, Inr ack) \<Rightarrow>
                    if ack \<noteq> 1 then (c3, Inl (Msg ''server rejected the token''))
                    else bench_phases rnd (tc_deadline None c3))))"

definition measureLink :: "(real \<Rightarrow> real) \<Rightarrow> mac \<Rightarrow> string \<Rightarrow> goerror + tconn \<Rightarrow> goerror + benchResult" where
  "measureLink rnd mac token dialed =
     (case dialed of Inl e \<Rightarrow> Inl e | Inr c \<Rightarrow> snd (measureLink_body rnd mac token c))"

section \<open>The command and the hardware\<close>

datatype bench_run = BenchServer string string | BenchClient string string

definition runBench :: "string list \<Rightarrow> goerror + bench_run" where
  "runBench args =
     (case args of
        [] \<Rightarrow> Inl (Msg ''usage: bench server <listen_addr> <token> | bench client <server_addr> <token>'')
      | cmd # rest \<Rightarrow>
          if cmd = ''server'' then
            (case rest of [addr, token] \<Rightarrow> Inr (BenchServer addr token)
             | _ \<Rightarrow> Inl (Msg ''usage: bench server <listen_addr> <token>''))
          else if cmd = ''client'' then
            (case rest of [addr, token] \<Rightarrow> Inr (BenchClient addr token)
             | _ \<Rightarrow> Inl (Msg ''usage: bench client <server_addr> <token>''))
          else Inl (Msg (''unknown bench subcommand '' @ CHR 0x22 # cmd @ [CHR 0x22])))"

text \<open>\<open>strings.Fields\<close>.\<close>

function fields :: "string \<Rightarrow> string list" where
  "fields s =
     (case dropWhile is_space s of
        [] \<Rightarrow> []
      | c # cs \<Rightarrow> (c # takeWhile (\<lambda>x. \<not> is_space x) cs) # fields (dropWhile (\<lambda>x. \<not> is_space x) cs))"
  by auto

termination
proof (relation "measure length")
  fix s c cs
  assume "dropWhile is_space s = c # cs"
  then have "length cs < length s" using length_dropWhile_le [of is_space s] by simp
  then show "(dropWhile (\<lambda>x. \<not> is_space x) cs, s) \<in> measure length"
    using length_dropWhile_le [of "\<lambda>x. \<not> is_space x" cs] by simp
qed simp

declare fields.simps [simp del]

fun ram_line :: "string list \<Rightarrow> int \<times> bool" where
  "ram_line [] = (0, False)"
| "ram_line (line # lines) =
     (if \<not> hasPrefix line ''MemTotal:'' then ram_line lines
      else case fields line of
        label # amount # others \<Rightarrow>
          (case atoi amount of Some kb \<Rightarrow> (go_quot kb 1024, True) | None \<Rightarrow> ram_line lines)
      | _ \<Rightarrow> ram_line lines)"

text \<open>\<open>meminfo\<close> is the text of \<open>/proc/meminfo\<close>, if it can be read.\<close>

definition localRAMMB :: "string option \<Rightarrow> int \<times> bool" where
  "localRAMMB meminfo = (case meminfo of None \<Rightarrow> (0, False) | Some text \<Rightarrow> ram_line (split_char text CHR 0x0A))"

lemma localRAMMB_sample:
  "localRAMMB (Some (''MemTotal:        2048 kB'' @ CHR 0x0A # ''MemFree: 7 kB'')) = (2, True)"
  by (simp add: localRAMMB_def hasPrefix_def fields.simps is_space_def atoi_def char_digit_def go_quot_def)

section \<open>What the loops read\<close>

lemma getBE_putBE_acc:
  "fold (\<lambda>x acc. or (push_bit 8 acc) (ucast (x :: byte))) (putBE k v) acc = or (push_bit (8 * k) acc) (take_bit (8 * k) (v :: 'a::len word))"
proof (induction k arbitrary: acc)
  case (Suc k)
  have "putBE (Suc k) v = ucast (drop_bit (8 * k) v) # putBE k v" by (simp add: putBE_def)
  then have "fold (\<lambda>x acc. or (push_bit 8 acc) (ucast (x :: byte))) (putBE (Suc k) v) acc =
      or (push_bit (8 * k) (or (push_bit 8 acc) (ucast (ucast (drop_bit (8 * k) v) :: byte)))) (take_bit (8 * k) v)"
    using Suc by simp
  also have "\<dots> = or (push_bit (8 * Suc k) acc) (take_bit (8 * Suc k) v)"
    by (rule bit_word_eqI) (auto simp: bit_simps add.commute [of 8 "8 * k"])
  finally show ?case .
qed (simp add: putBE_def)

lemma getBE_putBE: "8 * k = LENGTH('a) \<Longrightarrow> getBE (putBE k v) = (v :: 'a::len word)"
  by (simp add: getBE_def getBE_putBE_acc)

lemma length_putBE [simp]: "length (putBE k v) = k"
  by (simp add: putBE_def)

lemma tc_readFull_pending:
  "tc_readFull n c = (c', Inr b) \<Longrightarrow> length b = n \<and> pending c = b @ pending c'"
proof (induction n c arbitrary: c' b rule: tc_readFull.induct)
  case (1 n c)
  show ?case
  proof (cases "n = 0")
    case True
    then show ?thesis using 1(2) by (simp add: tc_readFull.simps [of 0 c])
  next
    case False
    obtain c1 got e where rd: "tc_read n c = (c1, got, e)" by (metis prod_cases3)
    have e: "e = None" using 1(2) False rd by (cases e) (auto simp: tc_readFull.simps [of n c])
    obtain c2 r2 where more: "tc_readFull (n - length got) c1 = (c2, r2)" by fastforce
    then obtain others where r2: "r2 = Inr others" "c' = c2" "b = got @ others"
      using 1(2) False rd e by (auto simp: tc_readFull.simps [of n c] split: sum.splits)
    have "length others = n - length got \<and> pending c1 = others @ pending c2"
      using 1(1) [OF False rd [unfolded e, symmetric] refl refl] more r2 by blast
    moreover have "length got \<le> n" using rd e by (auto simp: tc_read_def Let_def split: list.splits if_splits)
    ultimately show ?thesis using r2 tc_read_None(1) [OF rd [unfolded e]] by simp
  qed
qed

lemma read_until_reads:
  "read_until stop c = (c', n) \<Longrightarrow> \<exists>xs. pending c = xs @ pending c' \<and> length xs = n \<and> tc_out c' = tc_out c"
proof (induction stop c arbitrary: c' n rule: read_until.induct)
  case (1 stop c)
  obtain c1 got e where rd: "tc_read 65536 c = (c1, got, e)" by (metis prod_cases3)
  show ?case
  proof (cases "stop \<le> tc_now c \<or> e \<noteq> None")
    case True
    then show ?thesis
      using 1(2) rd tc_read_pending [OF rd] tc_read_frame [OF rd] by (auto simp: read_until.simps [of stop c] split: if_splits)
  next
    case False
    obtain c2 k where more: "read_until stop c1 = (c2, k)" by fastforce
    then have c': "c' = c2" "n = length got + k" using 1(2) False rd by (auto simp: read_until.simps [of stop c])
    obtain xs where "pending c1 = xs @ pending c2" "length xs = k" "tc_out c2 = tc_out c1"
      using 1(1) [OF _ rd [symmetric] refl _ more] False by blast
    then show ?thesis using c' tc_read_pending [OF rd] tc_read_frame [OF rd] by (intro exI [of _ "got @ xs"]) simp
  qed
qed


lemma write_until_frame:
  "tc_in (write_until arm stop data c) = tc_in c \<and> tc_rdl (write_until arm stop data c) = tc_rdl c \<and>
   tc_closed (write_until arm stop data c) = tc_closed c"
proof (induction arm stop data c rule: write_until.induct)
  case (1 arm stop data c)
  obtain c1 e where w: "tc_write data (c\<lparr>tc_wdl := arm c\<rparr>) = (c1, e)" by fastforce
  show ?case
    using 1 [OF _ w [symmetric]] tc_write_frame [OF w] w
    by (cases e) (auto simp: write_until.simps [of arm stop data c])
qed

lemma upload_window_reads:
  assumes "upload_window warm meas c = (c', recv, elapsed)"
  shows "\<exists>skipped counted. pending c = skipped @ counted @ pending c' \<and> length counted = recv \<and> tc_out c' = tc_out c \<and> tc_rdl c' = None"
proof -
  let ?c1 = "c\<lparr>tc_rdl := Some (tc_now c + (uint (warm + meas) * second + 3 * second))\<rparr>"
  obtain c2 n where c2: "read_until (tc_now ?c1 + uint warm * second) ?c1 = (c2, n)" by fastforce
  obtain c3 m where c3: "read_until (tc_now c2 + uint meas * second) c2 = (c3, m)" by fastforce
  have u: "c' = c3\<lparr>tc_rdl := None\<rparr>" "recv = m" using assms c2 c3 by (simp_all add: upload_window_def Let_def)
  obtain xs where "pending c = xs @ pending c2" "tc_out c2 = tc_out c" using read_until_reads [OF c2] by auto
  moreover obtain ys where "pending c2 = ys @ pending c3" "length ys = m" "tc_out c3 = tc_out c2"
    using read_until_reads [OF c3] by blast
  ultimately show ?thesis using u by (intro exI [of _ xs] exI [of _ ys]) simp
qed

lemma tc_write_out:
  assumes "tc_write bs c = (c', r)"
  shows "tc_in c' = tc_in c" "\<exists>k. tc_out c' = tc_out c @ take k bs" "r = None \<Longrightarrow> tc_out c' = tc_out c @ bs"
proof -
  show "tc_in c' = tc_in c" using tc_write_frame [OF assms] by simp
  show full: "tc_out c' = tc_out c @ bs" if "r = None"
    using that assms by (auto simp: tc_write_def split: list.splits if_splits)
  show "\<exists>k. tc_out c' = tc_out c @ take k bs"
  proof (cases r)
    case None
    then show ?thesis using full by (intro exI [of _ "length bs"]) simp
  next
    case (Some e)
    then consider "tc_out c' = tc_out c" | k where "tc_out c' = tc_out c @ take k bs"
      using assms by (auto simp: tc_write_def split: list.splits if_splits)
    then show ?thesis by cases (auto intro: exI [of _ 0])
  qed
qed

lemma pending_cong: "tc_in c = tc_in d \<Longrightarrow> pending c = pending d"
  by (simp add: pending_def)

lemma measureUpload_InrD:
  assumes "measureUpload rnd c warmup window = (c', Inr figure)"
  shows "\<exists>b. length b = 16 \<and> pending c = b @ pending c' \<and>
    figure = (if (getBE (drop 8 b) :: 64 word) = 0 then 0
      else mbps rnd (unat (getBE (take 8 b) :: 64 word)) (float_seconds rnd (uint (getBE (drop 8 b) :: 64 word))))"
proof -
  obtain c1 where c1: "writeUint32 (whole_seconds warmup) c = (c1, None)"
    using assms by (auto simp: measureUpload_def split: prod.splits option.splits)
  obtain c2 where c2: "writeUint32 (whole_seconds window) c1 = (c2, None)"
    using assms c1 by (auto simp: measureUpload_def split: prod.splits option.splits)
  let ?c3 = "write_until tc_wdl (tc_now c2 + (warmup + window)) block (c2\<lparr>tc_wdl := Some (tc_now c2 + (warmup + window + 5 * second))\<rparr>)"
  let ?c4 = "?c3\<lparr>tc_wdl := None, tc_rdl := Some (tc_now ?c3 + 5 * second)\<rparr>"
  obtain c5 b where c5: "tc_readFull 16 ?c4 = (c5, Inr b)"
    and c': "c' = c5\<lparr>tc_rdl := None\<rparr>" "figure = (if (getBE (drop 8 b) :: 64 word) = 0 then 0
      else mbps rnd (unat (getBE (take 8 b) :: 64 word)) (float_seconds rnd (uint (getBE (drop 8 b) :: 64 word))))"
    using assms c1 c2 by (auto simp: measureUpload_def Let_def split: prod.splits sum.splits)
  have "tc_in ?c4 = tc_in c"
    using tc_write_out(1) [OF c1 [unfolded writeUint32_def]] tc_write_out(1) [OF c2 [unfolded writeUint32_def]]
    by (simp add: write_until_frame)
  then have "pending ?c4 = pending c" by (rule pending_cong)
  then show ?thesis using tc_readFull_pending [OF c5] c' by auto
qed

lemma upload_report_read:
  assumes "recv < 2 ^ 64"
  shows "unat (getBE (take 8 (upload_report recv t)) :: 64 word) = recv" "(getBE (drop 8 (upload_report recv t)) :: 64 word) = word_of_int t"
  using assms by (simp_all add: upload_report_def getBE_putBE unat_of_nat)

lemma serve_up_NoneD:
  assumes "serve_up s = (s', None)"
  shows "\<exists>s1 s2 warm meas s3 recv t. readUint32 s = (s1, Inr warm) \<and> readUint32 s1 = (s2, Inr meas) \<and>
    upload_window warm meas s2 = (s3, recv, t) \<and> tc_in s' = tc_in s3 \<and> tc_out s' = tc_out s3 @ upload_report recv t"
proof -
  obtain s1 warm where s1: "readUint32 s = (s1, Inr warm)"
    using assms by (auto simp: serve_up_def split: prod.splits sum.splits)
  obtain s2 meas where s2: "readUint32 s1 = (s2, Inr meas)"
    using assms s1 by (auto simp: serve_up_def split: prod.splits sum.splits)
  obtain s3 recv t where s3: "upload_window warm meas s2 = (s3, recv, t)" by (metis prod_cases3)
  have "tc_write (upload_report recv t) s3 = (s', None)" using assms s1 s2 s3 by (simp add: serve_up_def)
  from tc_write_out(1,3) [OF this] show ?thesis using s1 s2 s3 by blast
qed

lemma tc_readFull_out: "tc_readFull n c = (c', r) \<Longrightarrow> tc_out c' = tc_out c \<and> tc_closed c' = tc_closed c"
proof (induction n c arbitrary: c' r rule: tc_readFull.induct)
  case (1 n c)
  obtain c1 got e where rd: "tc_read n c = (c1, got, e)" by (metis prod_cases3)
  obtain c2 r2 where more: "tc_readFull (n - length got) c1 = (c2, r2)" by fastforce
  show ?case
    using 1(1) [OF _ rd [symmetric] refl _ more] 1(2) rd more tc_read_frame [OF rd]
    by (cases e) (auto simp: tc_readFull.simps [of n c] split: if_splits sum.splits)
qed

section \<open>Properties\<close>

text \<open>
  The upload figure is the server's. When the sixteen bytes the client reads after its upload are the
  answer to that upload, it reports the rate of exactly the bytes the server read within its measured window, over the
  time the server measured, and these are consecutive bytes of what it was sent.
\<close>

theorem upload_figure_is_the_servers:
  assumes "serve_up s = (s', None)" "measureUpload rnd c warmup window = (c', Inr figure)"
    and "tc_out s' = tc_out s @ take 16 (pending c)" "length (pending s) < 2 ^ 64"
  shows "\<exists>s1 s2 warm meas s3 skipped counted t. readUint32 s = (s1, Inr warm) \<and> readUint32 s1 = (s2, Inr meas) \<and>
    upload_window warm meas s2 = (s3, length counted, t) \<and> pending s2 = skipped @ counted @ pending s' \<and>
    figure = (if (word_of_int t :: 64 word) = 0 then 0
      else mbps rnd (length counted) (float_seconds rnd (uint (word_of_int t :: 64 word))))"
proof -
  obtain s1 s2 warm meas s3 recv t where s: "readUint32 s = (s1, Inr warm)" "readUint32 s1 = (s2, Inr meas)"
      "upload_window warm meas s2 = (s3, recv, t)" "tc_in s' = tc_in s3" "tc_out s' = tc_out s3 @ upload_report recv t"
    using serve_up_NoneD [OF assms(1)] by blast
  obtain skipped counted where w: "pending s2 = skipped @ counted @ pending s3" "length counted = recv" "tc_out s3 = tc_out s2"
    using upload_window_reads [OF s(3)] by blast
  have "tc_out d' = tc_out d \<and> length (pending d') \<le> length (pending d)" if "readUint32 d = (d', Inr v)" for d d' v
    using that tc_readFull_out [of 4 d] tc_readFull_pending [of 4 d]
    by (auto simp: readUint32_def split: prod.splits sum.splits)
  from this [OF s(1)] this [OF s(2)] have out: "tc_out s2 = tc_out s" "length (pending s2) \<le> length (pending s)" by simp_all
  obtain b where b: "length b = 16" "pending c = b @ pending c'"
      "figure = (if (getBE (drop 8 b) :: 64 word) = 0 then 0
        else mbps rnd (unat (getBE (take 8 b) :: 64 word)) (float_seconds rnd (uint (getBE (drop 8 b) :: 64 word))))"
    using measureUpload_InrD [OF assms(2)] by blast
  have "recv < 2 ^ 64" using w(1,2) out(2) assms(4) by simp
  moreover have "b = upload_report recv t" using assms(3) s(5) w(3) out(1) b(1,2) by simp
  moreover have "pending s' = pending s3" using s(4) by (rule pending_cong)
  ultimately show ?thesis using s(1-3) w(1,2) b(3) upload_report_read [of recv t] by (intro exI conjI) auto
qed

text \<open>A server that gets three bytes in a window of a second, and a client that reads its answer.\<close>

definition sample_server :: tconn where
  "sample_server = \<lparr>tc_now = 0, tc_in = [(0, [0, 0, 0, 0]), (0, [0, 0, 0, 1]), (500000000, [7, 7, 7])], tc_end = (2000000000, EOF),
     tc_pace = [(0, 0)], tc_out = [], tc_rdl = None, tc_wdl = None, tc_closed = False\<rparr>"

definition sample_client :: tconn where
  "sample_client = \<lparr>tc_now = 0, tc_in = [(0, upload_report 3 2000000000)], tc_end = (9, EOF),
     tc_pace = [(0, 0), (0, 0)], tc_out = [], tc_rdl = None, tc_wdl = None, tc_closed = False\<rparr>"

lemmas run_simps = tc_read_def passed_def Let_def max_def

lemma sample_serve_up: "\<exists>s'. serve_up sample_server = (s', None) \<and> tc_out s' = upload_report 3 2000000000"
proof -
  let ?s2 = "sample_server\<lparr>tc_in := [(500000000, [7, 7, 7])]\<rparr>"
  have u: "readUint32 sample_server = (sample_server\<lparr>tc_in := [(0, [0, 0, 0, 1]), (500000000, [7, 7, 7])]\<rparr>, Inr 0)"
    by (simp add: readUint32_def tc_readFull.simps [of 4] tc_readFull.simps [of 0] run_simps sample_server_def getBE_def)
  have v: "readUint32 (sample_server\<lparr>tc_in := [(0, [0, 0, 0, 1]), (500000000, [7, 7, 7])]\<rparr>) = (?s2, Inr 1)"
    by (simp add: readUint32_def tc_readFull.simps [of 4] tc_readFull.simps [of 0] run_simps sample_server_def getBE_def)
  obtain s3 where w: "upload_window 0 1 ?s2 = (s3, 3, 2000000000)" "tc_out s3 = []" "tc_pace s3 = [(0, 0)]" "tc_wdl s3 = None" "\<not> tc_closed s3"
    by (simp add: upload_window_def read_until.simps run_simps sample_server_def)
  then show ?thesis by (simp add: serve_up_def u v tc_write_def passed_def)
qed

lemma sample_upload: "\<exists>c' figure. measureUpload id sample_client 0 0 = (c', Inr figure)"
  by (simp add: measureUpload_def writeUint32_def tc_write_def passed_def sample_client_def write_until.simps Let_def
      tc_readFull.simps [of 16] tc_readFull.simps [of 0] tc_read_def upload_report_def)

theorem upload_figure_is_the_servers_witness:
  "\<exists>s' c' figure counted t. serve_up sample_server = (s', None) \<and> measureUpload id sample_client 0 0 = (c', Inr figure) \<and>
    figure = (if (word_of_int t :: 64 word) = 0 then 0
      else mbps id (length (counted :: bytes)) (float_seconds id (uint (word_of_int t :: 64 word))))"
proof -
  obtain s' where s': "serve_up sample_server = (s', None)" "tc_out s' = upload_report 3 2000000000" using sample_serve_up by blast
  obtain c' figure where c': "measureUpload id sample_client 0 0 = (c', Inr figure)" using sample_upload by blast
  have "tc_out s' = tc_out sample_server @ take 16 (pending sample_client)" "length (pending sample_server) < 2 ^ 64"
    by (simp_all add: s'(2) sample_server_def sample_client_def pending_def upload_report_def)
  from upload_figure_is_the_servers [OF s'(1) c' this] show ?thesis using s'(1) c' by blast
qed

text \<open>
  Without the token the speed test does nothing: the server answers its challenge and at most a zero byte
  to whatever is sent, executes no command and closes the connection.
\<close>

theorem speed_test_needs_token:
  assumes "serveBenchConn mac (Some challenge) token c = (c', r)" "take 32 (pending c) \<noteq> hmacTag mac token challenge"
  shows "r \<noteq> None \<and> tc_closed c' \<and> (\<exists>k. tc_out c' = tc_out c @ take k (challenge @ [0]))"
proof -
  let ?c0 = "tc_deadline (Some (tc_now c + 10 * second)) c"
  have c0: "tc_out ?c0 = tc_out c" "pending ?c0 = pending c" by (simp_all add: tc_deadline_def pending_def)
  obtain d where d: "serveBenchConn_body mac (Some challenge) token c = (d, r)" "c' = tc_close d"
    using assms(1) by (auto simp: serveBenchConn_def split: prod.splits)
  obtain c1 e1 where c1: "tc_write challenge ?c0 = (c1, e1)" by fastforce
  obtain k where k: "tc_out c1 = tc_out c @ take k challenge" using tc_write_out(2) [OF c1] c0(1) by auto
  have p: "pending c1 = pending c" using tc_write_out(1) [OF c1] c0(2) by (metis pending_cong)
  have "r \<noteq> None \<and> (\<exists>k. tc_out d = tc_out c @ take k (challenge @ [0]))"
  proof (cases e1)
    case (Some e)
    then have "r \<noteq> None" "d = c1" using d(1) c1 by (auto simp: serveBenchConn_body_def randomBytes_def Let_def)
    then show ?thesis using k by (intro conjI exI [of _ "min k (length challenge)"]) (simp_all add: min_def)
  next
    case None
    have all: "tc_out c1 = tc_out c @ challenge" using tc_write_out(3) [OF c1 None] c0(1) by simp
    obtain c2 r2 where c2: "tc_readFull 32 c1 = (c2, r2)" by fastforce
    have o2: "tc_out c2 = tc_out c @ challenge" using tc_readFull_out [OF c2] all by simp
    show ?thesis
    proof (cases r2)
      case (Inl e)
      then have "r \<noteq> None" "d = c2" using d(1) c1 c2 None by (auto simp: serveBenchConn_body_def randomBytes_def Let_def)
      then show ?thesis using o2 by (intro conjI exI [of _ "length challenge"]) simp_all
    next
      case (Inr tag)
      then have "tag \<noteq> hmacTag mac token challenge" using tc_readFull_pending c2 p assms(2) by (metis append_eq_conv_conj)
      then have r: "r \<noteq> None" "d = fst (tc_writeByte 0 c2)"
        using d(1) c1 c2 None Inr by (auto simp: serveBenchConn_body_def randomBytes_def Let_def)
      obtain e3 where "tc_write [0] c2 = (d, e3)" using r(2) by (cases "tc_write [0] c2") (simp add: tc_writeByte_def)
      from tc_write_out(2) [OF this] obtain j where "tc_out d = tc_out c @ challenge @ take j [0]" using o2 by auto
      then show ?thesis using r(1) by (intro conjI exI [of _ "length challenge + j"]) simp_all
    qed
  qed
  then show ?thesis using d(2) by (simp add: tc_close_def)
qed

lemma tc_read_fails:
  "tc_read n c = (c', bs, Some e) \<Longrightarrow> tc_closed c' \<or> passed (tc_rdl c') (tc_now c') \<or> tc_in c' = []"
  by (auto simp: tc_read_def passed_def Let_def split: list.splits if_splits option.splits)

lemma read_until_stops:
  "read_until stop c = (c', n) \<Longrightarrow> tc_rdl c' = tc_rdl c \<and> tc_closed c' = tc_closed c \<and> tc_now c \<le> tc_now c' \<and>
     (stop \<le> tc_now c' \<or> tc_closed c' \<or> passed (tc_rdl c') (tc_now c') \<or> tc_in c' = [])"
proof (induction stop c arbitrary: c' n rule: read_until.induct)
  case (1 stop c)
  obtain c1 got e where rd: "tc_read 65536 c = (c1, got, e)" by (metis prod_cases3)
  note f = tc_read_frame [OF rd]
  consider (over) "stop \<le> tc_now c" | (failed) x where "\<not> stop \<le> tc_now c" "e = Some x" | (more) "\<not> stop \<le> tc_now c" "e = None"
    by (cases e) auto
  then show ?case
  proof cases
    case over
    then show ?thesis using 1(2) by (auto simp: read_until.simps [of stop c])
  next
    case failed
    then have "c' = c1" using 1(2) rd by (auto simp: read_until.simps [of stop c])
    then show ?thesis using tc_read_fails rd failed(2) f by blast
  next
    case more
    obtain c2 k where c2: "read_until stop c1 = (c2, k)" by fastforce
    then have "c' = c2" using 1(2) rd more by (auto simp: read_until.simps [of stop c])
    then show ?thesis using 1(1) [OF more(1) rd [symmetric] refl more(2) c2] f by auto
  qed
qed

text \<open>
  The download figure is the rate of exactly the bytes read within the measured window, consecutive bytes that
  follow the ones of the warmup, over the time it took to read them. That time covers the window, unless the connection
  failed or the deadline two seconds later passed.
\<close>

theorem download_figure_counts_window:
  assumes "measureDownload rnd c warmup window = (c', Inr figure)" "\<not> tc_closed c"
  shows "\<exists>start skipped counted t. pending c = skipped @ counted @ pending c' \<and> tc_now c \<le> start \<and>
    figure = (if duration_seconds rnd t \<le> 0 then 0 else mbps rnd (length counted) (duration_seconds rnd t)) \<and>
    (window \<le> t \<or> tc_in c' = [] \<or> start + warmup + window + 2 * second \<le> tc_now c')"
proof -
  obtain c1 where c1: "writeUint32 (whole_seconds (warmup + window)) c = (c1, None)"
    using assms by (auto simp: measureDownload_def split: prod.splits option.splits)
  let ?c2 = "c1\<lparr>tc_rdl := Some (tc_now c1 + (warmup + window + 2 * second))\<rparr>"
  obtain c3 n where c3: "read_until (tc_now ?c2 + warmup) ?c2 = (c3, n)" by fastforce
  obtain c4 recv where c4: "read_until (tc_now c3 + window) c3 = (c4, recv)" by fastforce
  have c': "c' = c4\<lparr>tc_rdl := None\<rparr>"
      "figure = (if duration_seconds rnd (tc_now c4 - tc_now c3) \<le> 0 then 0
        else mbps rnd recv (duration_seconds rnd (tc_now c4 - tc_now c3)))"
    using assms(1) c1 c3 c4 by (auto simp: measureDownload_def Let_def)
  obtain xs ys where "pending ?c2 = xs @ pending c3" "pending c3 = ys @ pending c4" "length ys = recv"
    using read_until_reads [OF c3] read_until_reads [OF c4] by blast
  moreover have "pending ?c2 = pending c"
    using tc_write_out(1) [OF c1 [unfolded writeUint32_def]] by (intro pending_cong) simp
  moreover have "\<not> tc_closed c4" "tc_rdl c4 = Some (tc_now c1 + (warmup + window + 2 * second))"
    using read_until_stops [OF c3] read_until_stops [OF c4] assms(2) tc_write_frame [OF c1 [unfolded writeUint32_def]] by simp_all
  then have "window \<le> tc_now c4 - tc_now c3 \<or> tc_in c4 = [] \<or> tc_now c1 + warmup + window + 2 * second \<le> tc_now c4"
    using read_until_stops [OF c4] by (auto simp: passed_def)
  moreover have "tc_now c \<le> tc_now c1" using tc_write_frame [OF c1 [unfolded writeUint32_def]] by blast
  ultimately show ?thesis using c' by (intro exI [of _ "tc_now c1"] exI [of _ xs] exI [of _ ys] exI [of _ "tc_now c4 - tc_now c3"]) simp
qed

section \<open>Between the two measurements\<close>

text \<open>Chunks that follow each other within less than \<open>q\<close>, and when the last one is there.\<close>

fun close_gaps :: "int \<Rightarrow> int \<Rightarrow> (int \<times> bytes) list \<Rightarrow> bool" where
  "close_gaps q now [] = True"
| "close_gaps q now ((t, bs) # later) = (t < now + q \<and> length bs \<le> 65536 \<and> close_gaps q (max now t) later)"

definition settled_at :: "int \<Rightarrow> (int \<times> bytes) list \<Rightarrow> int" where
  "settled_at now cs = fold (\<lambda>c t. max t (fst c)) cs now"

lemma drain_exact:
  assumes "\<not> tc_closed c" "0 < q" "tc_in c = early @ later" "close_gaps q (tc_now c) early"
    and "later \<noteq> [] \<Longrightarrow> settled_at (tc_now c) early + q \<le> fst (hd later)"
  shows "tc_in (drain q c) = later"
  using assms
proof (induction early arbitrary: c)
  case Nil
  let ?c = "c\<lparr>tc_rdl := Some (tc_now c + q)\<rparr>"
  have "snd (snd (tc_read 65536 ?c)) \<noteq> None"
    using Nil by (cases later) (auto simp: tc_read_def passed_def settled_at_def Let_def)
  then obtain c1 bs e where rd: "tc_read 65536 ?c = (c1, bs, Some e)" by (cases "tc_read 65536 ?c") auto
  then have "drain q c = c1" by (simp add: drain.simps [of q c])
  then show ?case using tc_read_Some(2) [OF rd] Nil(3) by simp
next
  case (Cons x early)
  obtain t bs where x: "x = (t, bs)" by fastforce
  let ?c1 = "c\<lparr>tc_rdl := Some (tc_now c + q), tc_now := max (tc_now c) t, tc_in := early @ later\<rparr>"
  have rd: "tc_read 65536 (c\<lparr>tc_rdl := Some (tc_now c + q)\<rparr>) = (?c1, bs, None)"
    using Cons.prems x by (simp add: tc_read_def passed_def Let_def max_def)
  then have d: "drain q c = drain q ?c1" by (simp add: drain.simps [of q c])
  show ?case unfolding d by (rule Cons.IH) (use Cons.prems x in \<open>simp_all add: settled_at_def\<close>)
qed

text \<open>
  Draining puts the stream back in step: if what is left of the download arrives with pauses shorter
  than the quiet time, and the answer to the upload later than that, then exactly the rest of the download is
  discarded and the answer is the next thing read.
\<close>

theorem drain_resynchronises:
  assumes "\<not> tc_closed c" "0 < quiet" "tc_in c = leftover @ answers" "close_gaps quiet (tc_now c) leftover"
    and "answers \<noteq> [] \<Longrightarrow> settled_at (tc_now c) leftover + quiet \<le> fst (hd answers)"
  shows "tc_in (drainQuiet c quiet) = answers"
  using drain_exact [OF assms] by (simp add: drainQuiet_def)

theorem drain_resynchronises_witness:
  "tc_in (drainQuiet (sample_server\<lparr>tc_in := [(1, [0]), (200000000, [0]), (600000000, [5])]\<rparr>) 300000000) = [(600000000, [5])]"
  by (rule drain_resynchronises [where leftover = "[(1, [0]), (200000000, [0])]"])
    (simp_all add: sample_server_def settled_at_def)

text \<open>
  A pause of the download as long as the quiet time ends the draining too early: the zero bytes that come later are
  taken for the answer, and the upload is reported as 0 without an error.
\<close>

theorem late_download_reads_as_zero:
  assumes "measureUpload rnd c warmup window = (c', Inr figure)" "take 16 (pending c) = replicate 16 0"
  shows "figure = 0"
proof -
  obtain b where b: "length b = 16" "pending c = b @ pending c'"
      "figure = (if (getBE (drop 8 b) :: 64 word) = 0 then 0
        else mbps rnd (unat (getBE (take 8 b) :: 64 word)) (float_seconds rnd (uint (getBE (drop 8 b) :: 64 word))))"
    using measureUpload_InrD [OF assms(1)] by blast
  then have "b = replicate 16 0" using assms(2) by simp
  then show ?thesis using b(3) by (simp add: getBE_def numeral_eq_Suc)
qed

text \<open>
  What the client still had on the way when the server's window ended is taken for the next command: the session ends
  with an error, and the connection is closed with data unread.
\<close>

theorem late_upload_is_no_command:
  assumes "\<not> tc_closed c" "tc_rdl c = None" "tc_in c = (t, 0 # bs) # later"
  shows "snd (serve_commands c) = Some (Msg ''unknown bench command 0'')"
proof -
  obtain c1 where "tc_readFull 1 c = (c1, Inr [0])"
    using assms by (simp add: tc_readFull.simps [of "Suc 0" c] tc_read_def passed_def tc_readFull.simps [of 0] Let_def)
  then have "tc_readByte c = (c1, Inr 0)" by (simp add: tc_readByte_def)
  then show ?thesis
    by (simp add: serve_commands.simps [of c] serve_command_def benchPing_def benchDown_def benchUp_def itoa_def itoa_nat.simps digit_char_def char_of_def bit_0)
qed

end
