(* ===== verification/Reports.thy ===== *)
theory Reports
  imports Link_Test Ports_Spec Backup Upkeep Wizard_File
begin

text \<open>
  What the program decides before it shows or runs something: the command line of \<open>main.go\<close>, the metrics file of
  \<open>metrics.go\<close>, the health check of \<open>health.go\<close>, the status table of \<open>status.go\<close>, and the file list of \<open>tunnels.go\<close>. Colors
  and layout are left out. The JSON library, the clock and the output of commands are arguments.
\<close>

section \<open>The command line\<close>

datatype command = RunMenu | RunBench "string list" | RestartAll | RunTunnel string string | Usage

text \<open>\<open>main\<close> up to the role, of \<open>os.Args\<close>.\<close>

definition dispatch :: "string list \<Rightarrow> command" where
  "dispatch args =
     (if length args < 2 then RunMenu
      else if args ! 1 = ''menu'' then RunMenu
      else if args ! 1 = ''bench'' then RunBench (drop 2 args)
      else if args ! 1 = ''restart-all'' then RestartAll
      else if length args \<noteq> 3 \<or> (args ! 1 \<noteq> ''server'' \<and> args ! 1 \<noteq> ''client'') then Usage
      else RunTunnel (args ! 1) (args ! 2))"

text \<open>
  The exit code of a tunnel process: the configuration must load, and a server must not stop with an error before it was
  asked to. The client's \<open>Run\<close> has no error.
\<close>

definition tunnel_exit :: "load_error + Config \<Rightarrow> string \<Rightarrow> (Config \<Rightarrow> goerror option) \<Rightarrow> bool \<Rightarrow> nat" where
  "tunnel_exit loaded role run stopped =
     (case loaded of
        Inl e \<Rightarrow> 1
      | Inr cfg \<Rightarrow> if role = ''server'' \<and> run cfg \<noteq> None \<and> \<not> stopped then 1 else 0)"

section \<open>Sizes\<close>

text \<open>The loop of \<open>humanBytes\<close>: divisor and index of the unit.\<close>

function human_loop :: "int \<Rightarrow> int \<Rightarrow> nat \<Rightarrow> int \<times> nat" where
  "human_loop m dv ex = (if m \<ge> 1024 then human_loop (go_quot m 1024) (wrap64 (dv * 1024)) (ex + 1) else (dv, ex))"
  by auto

termination by (relation "measure (\<lambda>(m, dv, ex). nat m)") (auto simp: go_quot_nonneg)

declare human_loop.simps [simp del]

definition units :: string where "units = ''KMGTPE''"

text \<open>\<open>Inl\<close>: shown in bytes. \<open>Inr\<close>: the number to be shown with one decimal, and the letter of the unit.\<close>

definition humanBytes :: "(real \<Rightarrow> real) \<Rightarrow> int \<Rightarrow> int + (real \<times> char)" where
  "humanBytes rnd n =
     (if n < 1024 then Inl n
      else (case human_loop (go_quot n 1024) 1024 0 of
              (dv, ex) \<Rightarrow> Inr (rnd (rnd (of_int n) / rnd (of_int dv)), units ! ex)))"

section \<open>The metrics file\<close>

definition metricsSnapshotInterval :: int where "metricsSnapshotInterval = 15 * second"

record metricsSnapshot =
  ms_Name :: string
  ms_Role :: string
  ms_Mode :: string
  ms_StartedAt :: int
  ms_UpdatedAt :: int
  ms_BytesIn :: int
  ms_BytesOut :: int
  ms_HasKCP :: bool
  ms_KCPLostSegs :: "64 word"
  ms_KCPRetrans :: "64 word"
  ms_KCPFECRecov :: "64 word"
  ms_KCPFECErrs :: "64 word"
  ms_KCPInPkts :: "64 word"
  ms_KCPOutPkts :: "64 word"

text \<open>The counters of kcp-go that are read.\<close>

record snmp =
  LostSegs :: "64 word"
  RetransSegs :: "64 word"
  FECRecovered :: "64 word"
  FECErrs :: "64 word"
  InPkts :: "64 word"
  OutPkts :: "64 word"

definition configHasKCP :: "Config \<Rightarrow> bool" where
  "configHasKCP cfg = list_ex (\<lambda>d. Enabled d \<and> DType d = ''kcp'') (Disguise cfg)"

text \<open>\<open>filepath.Base\<close>.\<close>

definition pathBase :: "string \<Rightarrow> string" where
  "pathBase p =
     (let r = dropWhile (\<lambda>c. c = CHR ''/'') (rev p) in
      if p = [] then ''.'' else if r = [] then ''/'' else rev (takeWhile (\<lambda>c. c \<noteq> CHR ''/'') r))"

definition metrics_name :: "string \<Rightarrow> string" where
  "metrics_name configPath = trimSuffix (pathBase configPath) (pathExt configPath)"

text \<open>\<open>traffic\<close>: the bytes counted in and out.\<close>

definition take_snapshot ::
    "Config \<Rightarrow> string \<Rightarrow> string \<Rightarrow> int \<Rightarrow> int \<Rightarrow> int \<times> int \<Rightarrow> snmp \<Rightarrow> metricsSnapshot" where
  "take_snapshot cfg configPath role startedAt now traffic s =
     (let snap = \<lparr>ms_Name = metrics_name configPath, ms_Role = role, ms_Mode = Mode cfg, ms_StartedAt = startedAt,
           ms_UpdatedAt = now, ms_BytesIn = fst traffic, ms_BytesOut = snd traffic, ms_HasKCP = False, ms_KCPLostSegs = 0,
           ms_KCPRetrans = 0, ms_KCPFECRecov = 0, ms_KCPFECErrs = 0, ms_KCPInPkts = 0, ms_KCPOutPkts = 0\<rparr> in
      if configHasKCP cfg then
        snap\<lparr>ms_HasKCP := True, ms_KCPLostSegs := LostSegs s, ms_KCPRetrans := RetransSegs s, ms_KCPFECRecov := FECRecovered s,
             ms_KCPFECErrs := FECErrs s, ms_KCPInPkts := InPkts s, ms_KCPOutPkts := OutPkts s\<rparr>
      else snap)"

text \<open>\<open>os.Rename\<close>, which may fail.\<close>

definition renameFile :: "bool \<Rightarrow> string \<Rightarrow> string \<Rightarrow> box \<Rightarrow> box" where
  "renameFile fails p q b =
     (case readFile b p of
        None \<Rightarrow> b
      | Some data \<Rightarrow> if fails then b else b\<lparr>files := AList.update q data (AList.delete p (files b))\<rparr>)"

definition write_metrics :: "host \<Rightarrow> bool \<Rightarrow> (metricsSnapshot \<Rightarrow> string option) \<Rightarrow> string \<Rightarrow> metricsSnapshot \<Rightarrow> box \<Rightarrow> box" where
  "write_metrics h renameFails json configPath snap b =
     (case json snap of
        None \<Rightarrow> b
      | Some data \<Rightarrow>
          let path = metricsPath configPath; tmp = path @ ''.tmp'' in
          (case writeFile h tmp data b of (b1, Some e) \<Rightarrow> b1 | (b1, None) \<Rightarrow> renameFile renameFails tmp path b1))"

text \<open>
  The moments a snapshot is written: at the start, at every tick, and once more when the process stops. \<open>mo_traffic\<close> and
  \<open>mo_snmp\<close> are the counters then, \<open>mo_host\<close> and \<open>mo_fails\<close> how the file system answers.
\<close>

record moment =
  mo_now :: int
  mo_traffic :: "int \<times> int"
  mo_snmp :: snmp
  mo_host :: host
  mo_fails :: bool

definition snapshot_at :: "Config \<Rightarrow> string \<Rightarrow> string \<Rightarrow> int \<Rightarrow> moment \<Rightarrow> metricsSnapshot" where
  "snapshot_at cfg configPath role startedAt m =
     take_snapshot cfg configPath role startedAt (mo_now m) (mo_traffic m) (mo_snmp m)"

definition runMetricsSnapshotter ::
    "(metricsSnapshot \<Rightarrow> string option) \<Rightarrow> Config \<Rightarrow> string \<Rightarrow> string \<Rightarrow> int \<Rightarrow> moment list \<Rightarrow> box \<Rightarrow> box" where
  "runMetricsSnapshotter json cfg configPath role startedAt moments =
     fold (\<lambda>m. write_metrics (mo_host m) (mo_fails m) json configPath (snapshot_at cfg configPath role startedAt m)) moments"

definition loadMetrics :: "(string \<Rightarrow> metricsSnapshot option) \<Rightarrow> box \<Rightarrow> string \<Rightarrow> metricsSnapshot option" where
  "loadMetrics unjson b configPath =
     (case readFile b (metricsPath configPath) of None \<Rightarrow> None | Some data \<Rightarrow> unjson data)"

text \<open>\<open>Time.Sub\<close> and \<open>Duration.Round(time.Second)\<close> stop at the largest duration; half a second rounds away from zero.\<close>

definition clamp64 :: "int \<Rightarrow> int" where
  "clamp64 d = max (- (2 ^ 63)) (min (2 ^ 63 - 1) d)"

definition timeSub :: "int \<Rightarrow> int \<Rightarrow> int" where
  "timeSub a b = clamp64 (a - b)"

definition roundSecond :: "int \<Rightarrow> int" where
  "roundSecond d = clamp64 (sgn d * ((\<bar>d\<bar> + second div 2) div second * second))"

definition transportLabelShort :: "string \<Rightarrow> string" where
  "transportLabelShort mode =
     (if mode = ''tcp'' then ''TCP'' else if mode = ''tcpmux'' then ''TCP Mux'' else if mode = ''udp'' then ''UDP raw'' else mode)"

record metric_row =
  mr_tunnel :: tunnelRef
  mr_transport :: string
  mr_age :: int
  mr_stale :: bool
  mr_uptime :: int
  mr_in :: "int + (real \<times> char)"
  mr_out :: "int + (real \<times> char)"
  mr_kcp :: "(real \<times> 64 word \<times> 64 word \<times> 64 word \<times> 64 word) option"

definition kcp_loss :: "(real \<Rightarrow> real) \<Rightarrow> metricsSnapshot \<Rightarrow> real" where
  "kcp_loss rnd s =
     (let tot = ms_KCPInPkts s + ms_KCPLostSegs s in
      if tot > 0 then rnd (rnd (100 * rnd (of_nat (unat (ms_KCPLostSegs s)))) / rnd (of_nat (unat tot))) else 0)"

definition metric_row_of :: "(real \<Rightarrow> real) \<Rightarrow> int \<Rightarrow> tunnelRef \<Rightarrow> metricsSnapshot \<Rightarrow> metric_row" where
  "metric_row_of rnd now t s =
     (let age = roundSecond (timeSub now (ms_UpdatedAt s)) in
      \<lparr>mr_tunnel = t, mr_transport = transportLabelShort (ms_Mode s), mr_age = age,
       mr_stale = (age > 2 * metricsSnapshotInterval),
       mr_uptime = roundSecond (timeSub (ms_UpdatedAt s) (ms_StartedAt s)),
       mr_in = humanBytes rnd (ms_BytesIn s), mr_out = humanBytes rnd (ms_BytesOut s),
       mr_kcp = (if ms_HasKCP s
                 then Some (kcp_loss rnd s, ms_KCPLostSegs s, ms_KCPRetrans s, ms_KCPFECRecov s, ms_KCPFECErrs s) else None)\<rparr>)"

definition metric_rows ::
    "(real \<Rightarrow> real) \<Rightarrow> (string \<Rightarrow> metricsSnapshot option) \<Rightarrow> int \<Rightarrow> box \<Rightarrow> tunnelRef list \<Rightarrow> metric_row list" where
  "metric_rows rnd unjson now b tunnels =
     concat (map (\<lambda>t.
       if isPaqet t then []
       else case loadMetrics unjson b (tr_Path t) of None \<Rightarrow> [] | Some s \<Rightarrow> [metric_row_of rnd now t s]) tunnels)"

section \<open>The health check\<close>

text \<open>The lines of the report. Each check carries its verdict, the suggested fixes are left out.\<close>

datatype health_line =
    AsRoot bool
  | HasSystemd bool
  | CongestionControl string bool
  | Qdisc string bool
  | OpenFiles int bool
  | NoneConfigured
  | TunnelHead string string
  | ConfigBroken load_error
  | ServiceActive bool
  | StrongToken bool
  | Reachable string string bool
  | RecvCapped int int
  | SendCapped int int
  | AlsoUsed string string string

text \<open>\<open>he_run\<close> is the output of a command, \<open>None\<close> when it failed; \<open>he_dials\<close> whether a dial answers.\<close>

record health_env =
  he_root :: bool
  he_systemctl :: bool
  he_run :: "string list \<Rightarrow> string option"
  he_active :: "string \<Rightarrow> bool"
  he_dials :: "Config \<Rightarrow> DisguiseConfig \<Rightarrow> bool"
  he_load :: "string \<Rightarrow> string \<Rightarrow> load_error + Config"

definition sysctlGet :: "health_env \<Rightarrow> string \<Rightarrow> string" where
  "sysctlGet e key = (case he_run e [''sysctl'', ''-n'', key] of None \<Rightarrow> [] | Some out \<Rightarrow> out)"

definition sysctlInt :: "health_env \<Rightarrow> string \<Rightarrow> int" where
  "sysctlInt e key = (case atoi (trimSpace (sysctlGet e key)) of None \<Rightarrow> 0 | Some v \<Rightarrow> v)"

definition openFileLimit :: "health_env \<Rightarrow> int option" where
  "openFileLimit e = Option.bind (he_run e [''sh'', ''-c'', ''ulimit -n'']) (\<lambda>out. atoi (trimSpace out))"

definition health_system :: "health_env \<Rightarrow> health_line list" where
  "health_system e =
     (let cc = trimSpace (sysctlGet e ''net.ipv4.tcp_congestion_control'');
          qd = trimSpace (sysctlGet e ''net.core.default_qdisc'')
      in [AsRoot (he_root e), HasSystemd (he_systemctl e), CongestionControl cc (cc = ''bbr''), Qdisc qd (qd = ''fq'')]
         @ (case openFileLimit e of None \<Rightarrow> [] | Some limit \<Rightarrow> [OpenFiles limit (limit \<ge> 65536)]))"

text \<open>The closure \<open>claim\<close>, over the map \<open>usedAddrs\<close> and the lines printed so far.\<close>

definition claim_key :: "string \<Rightarrow> string \<Rightarrow> string" where
  "claim_key what addr = what @ '':'' @ addr"

fun claim :: "string \<times> string \<times> string \<Rightarrow> (string \<rightharpoonup> string) \<times> health_line list \<Rightarrow> (string \<rightharpoonup> string) \<times> health_line list" where
  "claim (owner, what, addr) (used, out) =
     (case used (claim_key what addr) of
        Some prev \<Rightarrow> (used, out @ [AlsoUsed what addr prev])
      | None \<Rightarrow> (used(claim_key what addr \<mapsto> owner), out))"

text \<open>What a tunnel claims, in the order of the two loops.\<close>

definition tunnel_claims :: "tunnelRef \<Rightarrow> Config \<Rightarrow> (string \<times> string \<times> string) list" where
  "tunnel_claims t cfg =
     (let owner = tr_Role t @ ''/'' @ tr_Name t in
      (if tr_Role t = ''server'' then map (\<lambda>p. (owner, ''listen'', Listen p)) (Ports cfg) else [])
      @ map (\<lambda>d. (owner, ''disguise listen'', ListenAddr d))
          (filter (\<lambda>d. Enabled d \<and> ListenAddr d \<noteq> []) (Disguise cfg)))"

definition tunnel_checks :: "health_env \<Rightarrow> tunnelRef \<Rightarrow> Config \<Rightarrow> health_line list" where
  "tunnel_checks e t cfg =
     [ServiceActive (he_active e (tunnel_unit t)), StrongToken (length (Token cfg) \<ge> 16)]
     @ (if dialsOut cfg \<and> Disguise cfg \<noteq> []
        then (let d = hd (Disguise cfg) in [Reachable (DType d) (ServerAddr d) (he_dials e cfg d)]) else [])
     @ (let m = sysctlInt e ''net.core.rmem_max'' in if m > 0 \<and> RecvBuf cfg > m then [RecvCapped (RecvBuf cfg) m] else [])
     @ (let m = sysctlInt e ''net.core.wmem_max'' in if m > 0 \<and> SendBuf cfg > m then [SendCapped (SendBuf cfg) m] else [])"

definition health_tunnel ::
    "health_env \<Rightarrow> tunnelRef \<Rightarrow> (string \<rightharpoonup> string) \<times> health_line list \<Rightarrow> (string \<rightharpoonup> string) \<times> health_line list" where
  "health_tunnel e t =
     (\<lambda>(used, out).
        let out = out @ [TunnelHead (tr_Role t) (tr_Name t)] in
        case he_load e (tr_Path t) (tr_Role t) of
          Inl err \<Rightarrow> (used, out @ [ConfigBroken err])
        | Inr cfg \<Rightarrow> fold claim (tunnel_claims t cfg) (used, out @ tunnel_checks e t cfg))"

definition menuHealthCheck :: "health_env \<Rightarrow> tunnelRef list \<Rightarrow> health_line list" where
  "menuHealthCheck e tunnels =
     health_system e @ (if tunnels = [] then [NoneConfigured] else snd (fold (health_tunnel e) tunnels (Map.empty, [])))"

section \<open>The status table\<close>

definition statusDetail :: "tunnelRef \<Rightarrow> Config \<Rightarrow> string" where
  "statusDetail t cfg =
     (if tr_Role t = ''server'' then
        (if Ports cfg = [] then ''no ports'' else join (map formatPortSpec (Ports cfg)) '', '')
      else if dialsOut cfg \<and> Disguise cfg \<noteq> [] then ServerAddr (hd (Disguise cfg))
      else (case find (\<lambda>d. Enabled d \<and> ListenAddr d \<noteq> []) (Disguise cfg) of
              Some d \<Rightarrow> ''listening '' @ ListenAddr d
            | None \<Rightarrow> ''-''))"

definition paqetStatusDetail :: string where
  "paqetStatusDetail = ''see '' @ [CHR 0x22] @ ''Manage tunnel'' @ [CHR 0x22] @ '' for paqet details''"

record status_row =
  sr_name :: string
  sr_role :: string
  sr_transp :: string
  sr_running :: bool
  sr_detail :: string

definition status_row_of :: "health_env \<Rightarrow> tunnelRef \<Rightarrow> status_row" where
  "status_row_of e t =
     (let (transp, detail) =
            (if isPaqet t then (''paqet'', paqetStatusDetail)
             else (case he_load e (tr_Path t) (tr_Role t) of
                     Inr cfg \<Rightarrow> (Mode cfg, statusDetail t cfg)
                   | Inl err \<Rightarrow> (''-'', ''config error'')))
      in \<lparr>sr_name = tr_Name t, sr_role = tr_Role t, sr_transp = transp, sr_running = he_active e (tunnel_unit t), sr_detail = detail\<rparr>)"

definition printStatusTable :: "health_env \<Rightarrow> tunnelRef list \<Rightarrow> status_row list" where
  "printStatusTable e tunnels = map (status_row_of e) tunnels"

text \<open>An address of \<open>net.InterfaceAddrs\<close> that is neither loopback nor link-local; its IPv4 text if it has one.\<close>

record iface_addr =
  ia_skipped :: bool
  ia_ip4 :: "string option"
  ia_text :: string

fun localPublicAddrs :: "iface_addr list \<Rightarrow> string \<times> string \<Rightarrow> string \<times> string" where
  "localPublicAddrs [] acc = acc"
| "localPublicAddrs (a # as) (ipv4, ipv6) =
     (if ia_skipped a then localPublicAddrs as (ipv4, ipv6)
      else (case ia_ip4 a of
              Some s \<Rightarrow> localPublicAddrs as (if ipv4 = [] then s else ipv4, ipv6)
            | None \<Rightarrow> localPublicAddrs as (ipv4, if ipv6 = [] then ia_text a else ipv6)))"

section \<open>File locations\<close>

definition fixed_rows :: "(string \<times> string) list" where
  "fixed_rows =
     [(''Binary'', ''/usr/local/bin/rmtunnel''), (''Paqet binary'', paqetBinPath), (''Tunnel configs folder'', tunnelsRoot),
      (''Backups'', backupsDir), (''Sysctl tuning'', sysctlConfPath), (''Open-file limits'', limitsConfPath),
      (''Systemd default limits'', systemdLimitsConfPath), (''Auto-refresh timer'', autoRefreshTimerPath),
      (''Example configs'', ''/etc/rmtunnel/server.toml.example'')]"

definition tunnel_rows :: "tunnelRef \<Rightarrow> (string \<times> string) list" where
  "tunnel_rows t =
     [(''Tunnel config ('' @ tr_Name t @ '')'', tr_Path t),
      (''Tunnel service ('' @ tr_Name t @ '')'', ''/etc/systemd/system/'' @ tunnel_unit t @ ''.service''),
      (''Tunnel metrics ('' @ tr_Name t @ '')'', metricsPath (tr_Path t))]"

text \<open>The rows with their marks, and the two numbers of the last line.\<close>

definition menuFileLocations :: "(string \<Rightarrow> bool) \<Rightarrow> tunnelRef list \<Rightarrow> (bool \<times> string \<times> string) list \<times> nat \<times> nat" where
  "menuFileLocations present tunnels =
     (let rows = fixed_rows @ concat (map tunnel_rows tunnels);
          marked = map (\<lambda>(label, path). (present path, label, path)) rows
      in (marked, length (filter fst marked), length marked))"

definition joinPortSpecs :: "PortMap list \<Rightarrow> string" where
  "joinPortSpecs ports = join (map (\<lambda>p. formatPortSpec p @ (if UDP p then ''(udp)'' else [])) ports) '', ''"

section \<open>The recommendation of the speed test\<close>

definition printTierTOML :: "tierPreset \<Rightarrow> toml_line list" where
  "printTierTOML t =
     [Key ''min_idle'' (TInt (t_minIdle t)), Key ''max_idle'' (TInt (t_maxIdle t)), Key ''buffer_size'' (TInt (t_bufferSize t)),
      Key ''recv_buf'' (TInt (t_recvBuf t)), Key ''send_buf'' (TInt (t_sendBuf t)),
      Key ''max_streams_per_session'' (TInt (t_maxStreamsPerSession t)), Key ''mux_frame_size'' (TInt (t_muxFrameSize t)),
      Key ''mux_recv_buffer'' (TInt (t_muxRecvBuffer t)), Key ''mux_stream_buffer'' (TInt (t_muxStreamBuffer t))]"

record recommendation =
  rec_cores :: int
  rec_ram :: "int option"
  rec_tier :: string
  rec_raised :: "int option"
  rec_lines :: "toml_line list"

text \<open>\<open>printRecommendation\<close>; \<open>rec_raised\<close> is the bandwidth-delay product in KB where the buffers were raised to it.\<close>

definition printRecommendation :: "(real \<Rightarrow> real) \<Rightarrow> int \<Rightarrow> int \<times> bool \<Rightarrow> benchResult \<Rightarrow> recommendation" where
  "printRecommendation rnd cores ram res =
     (let t = computeTier rnd cores ram res; tier = resolved t in
      \<lparr>rec_cores = tt_cores t, rec_ram = (if tt_haveRAM t then Some (tt_ramMB t) else None), rec_tier = t_name (tt_base t),
       rec_raised = (if t_recvBuf tier > t_recvBuf (tt_base t) then Some (go_quot (tt_bdp t) 1024) else None),
       rec_lines = printTierTOML tier\<rparr>)"

text \<open>
  The lines the speed test asks to paste set exactly what the editor's "change performance tier" sets, when they go above
  the first table of the file. Pasted below one, every one of them is an unknown key, which \<open>LoadConfig\<close> refuses.
\<close>

theorem pasted_tier_applies:
  "decode_lines pd (printTierTOML t @ ls) (Top, c) = decode_lines pd ls (Top, applyTierToConfig c t) \<and>
   snd (decode_lines pd (printTierTOML t) (InPorts p, c)) =
     [''min_idle'', ''max_idle'', ''buffer_size'', ''recv_buf'', ''send_buf'', ''max_streams_per_session'', ''mux_frame_size'',
      ''mux_recv_buffer'', ''mux_stream_buffer'']"
  by (simp add: printTierTOML_def set_key_def set_field_def config_tags_def port_tags_def int_field_def applyTierToConfig_def)

section \<open>The words of the link test\<close>

definition transportLabel :: "string \<Rightarrow> string \<Rightarrow> string" where
  "transportLabel mode disguiseType =
     (if mode = ''tcp'' then ''TCP ('' @ disguiseType @ '')''
      else if mode = ''tcpmux'' then ''TCP Mux ('' @ disguiseType @ '')''
      else if mode = ''udp'' then ''UDP raw''
      else mode @ '' ('' @ disguiseType @ '')'')"

definition otherRole :: "string \<Rightarrow> string" where
  "otherRole role = (if role = ''server'' then ''client'' else ''server'')"

text \<open>A line of the list of tunnels: name, address and transport.\<close>

definition link_line :: "tunnelRef \<times> Config \<Rightarrow> string \<times> string \<times> string" where
  "link_line = (\<lambda>(t, cfg). let d = hd (Disguise cfg) in (tr_Name t, ServerAddr d, transportLabel (Mode cfg) (DType d)))"

datatype loss_color = LossGreen | LossYellow | LossRed

text \<open>\<open>printLinkResults\<close>; the times are shown only when a probe was answered.\<close>

record link_results =
  lr_target :: string
  lr_sent :: int
  lr_answered :: int
  lr_times :: "(int \<times> int \<times> int \<times> int) option"
  lr_loss :: "real \<times> loss_color"

definition printLinkResults :: "(real \<Rightarrow> real) \<Rightarrow> string \<Rightarrow> linkProbeResult \<Rightarrow> link_results" where
  "printLinkResults rnd addr res =
     (let st = stats rnd res in
      \<lparr>lr_target = addr, lr_sent = l_sent res, lr_answered = l_answered res,
       lr_times = (if l_answered res > 0 then Some (avg st, best st, worst st, jitter st) else None),
       lr_loss = (lossPct st, if lossPct st > 20 then LossRed else if lossPct st > 0 then LossYellow else LossGreen)\<rparr>)"

section \<open>Looking for a release\<close>

definition releaseURL :: "string \<Rightarrow> string \<Rightarrow> string" where
  "releaseURL owner repo = ''https://api.github.com/repos/'' @ owner @ ''/'' @ repo @ ''/releases/latest''"

text \<open>\<open>http\<close> is the request with its header: the status, its text and the body. \<open>unjson\<close> decodes a release.\<close>

definition fetchLatestReleaseFrom ::
    "(string \<Rightarrow> string \<times> string \<Rightarrow> goerror + (int \<times> string \<times> string)) \<Rightarrow> (string \<Rightarrow> goerror + release) \<Rightarrow>
     string \<Rightarrow> string \<Rightarrow> goerror + release" where
  "fetchLatestReleaseFrom http unjson owner repo =
     (case http (releaseURL owner repo) (''Accept'', ''application/vnd.github+json'') of
        Inl e \<Rightarrow> Inl e
      | Inr (code, status, body) \<Rightarrow>
          if code \<noteq> 200 then Inl (Msg (''github api '' @ status @ '': '' @ body)) else unjson body)"

text \<open>The goroutine of \<open>startUpdateCheck\<close>: what \<open>currentUpdateNotice\<close> returns once it is done.\<close>

definition updateNotice :: "goerror + release \<Rightarrow> string" where
  "updateNotice rel =
     (case rel of
        Inl e \<Rightarrow> []
      | Inr r \<Rightarrow>
          if \<not> isNewerVersion (rel_Tag r) then []
          else ''A new version is available: '' @ rel_Tag r @ '' (you're on v'' @ Version @ ''). Run '' @ [CHR 0x22]
            @ ''Update script'' @ [CHR 0x22] @ '' from the menu.'')"

section \<open>The unit of a tunnel starts that tunnel\<close>

text \<open>The words of the line \<open>installService\<close> writes; systemd splits an unquoted line at its spaces.\<close>

definition exec_words :: "string \<Rightarrow> string \<Rightarrow> string \<Rightarrow> string list" where
  "exec_words bin role path = split_char (bin @ '' '' @ role @ '' '' @ path) CHR '' ''"

lemma exec_words_eq:
  "CHR '' '' \<notin> set bin \<Longrightarrow> CHR '' '' \<notin> set role \<Longrightarrow> exec_words bin role path = bin # role # split_char path CHR '' ''"
  by (simp add: exec_words_def split_char_append)

lemma split_char_single: "split_char s c = [s] \<longleftrightarrow> c \<notin> set s" "length (split_char s c) = Suc 0 \<longleftrightarrow> c \<notin> set s"
  using split_char_pieces [of s s c] split_char_none [of c s]
  by (auto simp: length_Suc_conv) (induction s; auto split: list.splits if_splits)

text \<open>
  The unit starts the tunnel of its own role and configuration exactly when the path has no space; the paths the
  wizard proposes have none. A path with a space makes the process end in the usage text.
\<close>

theorem unit_starts_its_tunnel:
  assumes "role \<in> {''server'', ''client''}" "CHR '' '' \<notin> set bin"
  shows "dispatch (exec_words bin role path) = (if CHR '' '' \<in> set path then Usage else RunTunnel role path) \<and>
     (isValidTunnelName name \<longrightarrow> dispatch (exec_words bin role (tunnelConfigPath role name)) = RunTunnel role (tunnelConfigPath role name))"
proof -
  have role: "CHR '' '' \<notin> set role" using assms(1) by auto
  have run: "dispatch (exec_words bin role q) = (if CHR '' '' \<in> set q then Usage else RunTunnel role q)" for q
    using assms split_char_single(2) [of q "CHR '' ''"] split_char_none [of "CHR '' ''" q]
    by (auto simp: exec_words_eq [OF assms(2) role] dispatch_def)
  have "CHR '' '' \<notin> set (tunnelConfigPath role name)" if "isValidTunnelName name"
    using that role
    by (auto simp: tunnelConfigPath_def tunnelDir_def tunnelsRoot_def tunnelConfigExt_def isValidTunnelName_def list_all_iff name_char_def)
  then show ?thesis using run by simp
qed

theorem unit_starts_its_tunnel_witness:
  "dispatch (exec_words rmtunnelBin ''client'' ''/etc/rmtunnel/tunnels/client/a b.toml'') = Usage \<and>
   dispatch (exec_words rmtunnelBin ''client'' (tunnelConfigPath ''client'' ''ab'')) = RunTunnel ''client'' (tunnelConfigPath ''client'' ''ab'')"
  using unit_starts_its_tunnel [of "''client''" rmtunnelBin "''/etc/rmtunnel/tunnels/client/a b.toml''" "''ab''"]
  by (simp add: rmtunnelBin_def isValidTunnelName_def name_char_def)

section \<open>Sizes: the unit is always there\<close>

lemma chunk_bounds:
  fixes dv m n :: int
  assumes "0 < dv" "1024 \<le> m" "dv * m \<le> n" "n < dv * (m + 1)"
  shows "1 \<le> m div 1024" "dv * 1024 \<le> n" "dv * 1024 * (m div 1024) \<le> n" "n < dv * 1024 * (m div 1024 + 1)"
proof -
  have q: "1024 \<le> m" "1024 * (m div 1024) \<le> m" using assms(2) by simp_all
  have q3: "m + 1 \<le> 1024 * (m div 1024 + 1)" by presburger
  have "dv * 1024 \<le> dv * m" "dv * (1024 * (m div 1024)) \<le> dv * m" "dv * (m + 1) \<le> dv * (1024 * (m div 1024 + 1))"
    using q q3 assms(1) by (metis mult_left_mono less_imp_le)+
  with assms(3,4) show "dv * 1024 \<le> n" "dv * 1024 * (m div 1024) \<le> n" "n < dv * 1024 * (m div 1024 + 1)"
    unfolding mult.assoc by linarith+
  show "1 \<le> m div 1024" using assms(2) by simp
qed

lemma human_loop_bounds:
  assumes "1 \<le> m" "dv = 1024 ^ (ex + 1)" "dv * m \<le> n" "n < dv * (m + 1)" "n < 2 ^ 63" "human_loop m dv ex = (dv', ex')"
  shows "dv' = 1024 ^ (ex' + 1) \<and> dv' \<le> n \<and> n < 1024 * dv'"
  using assms
proof (induction m dv ex rule: human_loop.induct)
  case (1 m dv ex)
  note m = 1(2) and dv = 1(3) and lo = 1(4) and hi = 1(5) and small = 1(6) and run = 1(7)
  have pos: "0 < dv" using dv by simp
  show ?case
  proof (cases "m \<ge> 1024")
    case True
    note c = chunk_bounds [OF pos True lo hi]
    have wrap: "wrap64 (dv * 1024) = dv * 1024" using c(2) small pos by (intro wrap64_id) linarith+
    have quot: "go_quot m 1024 = m div 1024" using True by (simp add: go_quot_nonneg)
    have "human_loop (m div 1024) (dv * 1024) (ex + 1) = (dv', ex')"
      using run True by (subst (asm) human_loop.simps) (simp add: quot wrap)
    moreover have "dv * 1024 = 1024 ^ (ex + 1 + 1)" using dv by simp
    ultimately show ?thesis using 1(1) [OF True, unfolded quot wrap] c small by blast
  next
    case False
    have "(dv', ex') = (dv, ex)" using run False by (subst (asm) human_loop.simps) simp
    moreover have "dv * 1 \<le> dv * m" "dv * (m + 1) \<le> dv * 1024" using pos m False by (intro mult_left_mono; simp)+
    ultimately have "dv' = dv" "ex' = ex" "dv \<le> n" "n < 1024 * dv" using lo hi by auto
    then show ?thesis using dv by blast
  qed
qed

text \<open>
  A size that fits in 64 bits is shown with a unit that exists: the loop of \<open>humanBytes\<close> leaves an index inside
  \<open>KMGTPE\<close>, its divisor is exactly that power of 1024, and the number shown lies from 1 to 1024.
\<close>

theorem human_bytes_unit:
  assumes "1024 \<le> n" "n < 2 ^ 63"
  shows "\<exists>dv ex. human_loop (go_quot n 1024) 1024 0 = (dv, ex) \<and> ex < length units \<and> dv = 1024 ^ (ex + 1) \<and>
     dv \<le> n \<and> n < 1024 * dv \<and> humanBytes rnd n = Inr (rnd (rnd (of_int n) / rnd (of_int dv)), units ! ex)"
proof -
  obtain dv ex where l: "human_loop (go_quot n 1024) 1024 0 = (dv, ex)" by fastforce
  have q: "go_quot n 1024 = n div 1024" "1 \<le> n div 1024" "1024 * (n div 1024) \<le> n" "n < 1024 * (n div 1024 + 1)"
    using assms(1) by (simp_all add: go_quot_nonneg)
  from human_loop_bounds [OF q(2) _ q(3) q(4) assms(2) l [unfolded q(1)]]
  have b: "dv = 1024 ^ (ex + 1) \<and> dv \<le> n \<and> n < 1024 * dv" by simp
  have "ex < 6"
  proof (rule ccontr)
    assume "\<not> ex < 6"
    then have "(1024::int) ^ 7 \<le> 1024 ^ (ex + 1)" by (intro power_increasing) simp_all
    with b assms(2) show False by simp
  qed
  with l b assms(1) show ?thesis by (auto simp: humanBytes_def units_def)
qed

theorem human_bytes_unit_witness: "\<exists>ex. human_loop (go_quot 3145728 1024) 1024 0 = (1024 ^ (ex + 1), ex) \<and> ex < 6"
  using human_bytes_unit [of 3145728 "\<lambda>x. x"] by (auto simp: units_def)

section \<open>The metrics file is replaced whole\<close>

lemma readFile_write_metrics:
  assumes "json snap = Some data"
  shows "readFile (write_metrics h fails json configPath snap b) p =
     (let path = metricsPath configPath; tmp = path @ ''.tmp'' in
      if h_io h tmp = None \<and> \<not> fails then (if p = path then Some data else if p = tmp then None else readFile b p)
      else if p = tmp then (case h_io h tmp of None \<Rightarrow> Some data | Some (e, left) \<Rightarrow> left)
      else readFile b p)"
  using assms
  by (auto simp: write_metrics_def writeFile_def renameFile_def readFile_def AList.update_conv' AList.delete_conv' Let_def
      split: option.splits)

lemma write_metrics_whole:
  "readFile (write_metrics h fails json configPath snap b) (metricsPath configPath) \<in> {readFile b (metricsPath configPath), json snap}"
proof (cases "json snap")
  case None
  then show ?thesis by (simp add: write_metrics_def)
next
  case (Some data)
  then show ?thesis using readFile_write_metrics [where json = json, OF Some] by (simp add: Let_def)
qed

lemma write_metrics_others:
  "p \<noteq> metricsPath configPath \<Longrightarrow> p \<noteq> metricsPath configPath @ ''.tmp'' \<Longrightarrow>
     readFile (write_metrics h fails json configPath snap b) p = readFile b p"
proof (cases "json snap")
  case None
  then show ?thesis by (simp add: write_metrics_def)
next
  case (Some data)
  assume "p \<noteq> metricsPath configPath" "p \<noteq> metricsPath configPath @ ''.tmp''"
  then show ?thesis using readFile_write_metrics [where json = json, OF Some] by (simp add: Let_def)
qed

lemma write_metrics_done:
  assumes "json snap = Some data" "h_io h (metricsPath configPath @ ''.tmp'') = None" "\<not> fails"
  shows "readFile (write_metrics h fails json configPath snap b) (metricsPath configPath) = Some data"
  using readFile_write_metrics [where json = json, OF assms(1)] assms(2,3) by (simp add: Let_def)

lemma run_metrics_whole:
  "readFile (runMetricsSnapshotter json cfg configPath role s ms b) (metricsPath configPath)
     \<in> insert (readFile b (metricsPath configPath)) ((\<lambda>m. json (snapshot_at cfg configPath role s m)) ` set ms)"
  "p \<noteq> metricsPath configPath \<Longrightarrow> p \<noteq> metricsPath configPath @ ''.tmp'' \<Longrightarrow>
     readFile (runMetricsSnapshotter json cfg configPath role s ms b) p = readFile b p"
proof (induction ms rule: rev_induct)
  case (snoc m ms)
  { case 1
    with snoc(1) write_metrics_whole [of "mo_host m" "mo_fails m" json configPath "snapshot_at cfg configPath role s m"
        "runMetricsSnapshotter json cfg configPath role s ms b"]
    show ?case by (auto simp: runMetricsSnapshotter_def) }
  { case 2
    with snoc(2) show ?case by (simp add: runMetricsSnapshotter_def write_metrics_others) }
qed (simp_all add: runMetricsSnapshotter_def)

text \<open>
  However the snapshot writes of a tunnel process fail, its metrics file holds one whole snapshot of this run, or
  what it held before, and no other file but the temporary one changes. When the last write went through, the menu's
  \<open>loadMetrics\<close> reads the last snapshot, with the times and counters of that moment.
\<close>

theorem metrics_file_whole:
  assumes "\<And>snap data. json snap = Some data \<Longrightarrow> unjson data = Some snap"
  shows "readFile (runMetricsSnapshotter json cfg configPath role s ms b) (metricsPath configPath)
       \<in> insert (readFile b (metricsPath configPath)) ((\<lambda>m. json (snapshot_at cfg configPath role s m)) ` set ms) \<and>
     (\<forall>p. p \<noteq> metricsPath configPath \<and> p \<noteq> metricsPath configPath @ ''.tmp'' \<longrightarrow>
        readFile (runMetricsSnapshotter json cfg configPath role s ms b) p = readFile b p) \<and>
     (json (snapshot_at cfg configPath role s m) \<noteq> None \<and> h_io (mo_host m) (metricsPath configPath @ ''.tmp'') = None \<and>
      \<not> mo_fails m \<longrightarrow>
        loadMetrics unjson (runMetricsSnapshotter json cfg configPath role s (ms @ [m]) b) configPath =
          Some (snapshot_at cfg configPath role s m))"
proof (intro conjI allI impI)
  assume ok: "json (snapshot_at cfg configPath role s m) \<noteq> None \<and>
    h_io (mo_host m) (metricsPath configPath @ ''.tmp'') = None \<and> \<not> mo_fails m"
  then obtain data where data: "json (snapshot_at cfg configPath role s m) = Some data" by blast
  with ok assms [OF data]
  show "loadMetrics unjson (runMetricsSnapshotter json cfg configPath role s (ms @ [m]) b) configPath =
      Some (snapshot_at cfg configPath role s m)"
    by (simp add: runMetricsSnapshotter_def loadMetrics_def write_metrics_done [where json = json, OF data])
qed (use run_metrics_whole in blast)+

text \<open>A run that starts on an empty box; the encoder is a table of the one snapshot it is given.\<close>

definition quiet_host :: host where
  "quiet_host = \<lparr>h_io = (\<lambda>p. None), h_mkdir = (\<lambda>p. None), h_look = (\<lambda>p. None), h_self = None, h_active = (\<lambda>u. False), h_cwd = []\<rparr>"

definition first_moment :: moment where
  "first_moment = \<lparr>mo_now = 15, mo_traffic = (7, 8), mo_snmp = \<lparr>LostSegs = 0, RetransSegs = 0, FECRecovered = 0, FECErrs = 0,
     InPkts = 0, OutPkts = 0\<rparr>, mo_host = quiet_host, mo_fails = False\<rparr>"

theorem metrics_file_whole_witness:
  "\<exists>snap. loadMetrics (\<lambda>d. if d = ''one'' then Some snap else None)
     (runMetricsSnapshotter (\<lambda>x. if x = snap then Some ''one'' else None) (sample_config ''client'') ''/etc/a.toml'' ''client'' 3
       ([] @ [first_moment]) \<lparr>files = [], ran = []\<rparr>) ''/etc/a.toml'' = Some snap"
proof -
  let ?snap = "snapshot_at (sample_config ''client'') ''/etc/a.toml'' ''client'' 3 first_moment"
  let ?json = "\<lambda>x. if x = ?snap then Some ''one'' else None"
  let ?unjson = "\<lambda>d. if d = ''one'' then Some ?snap else None"
  have rt: "?unjson data = Some x" if "?json x = Some data" for x data
    using that by (simp split: if_splits)
  have "?json ?snap \<noteq> None \<and> h_io (mo_host first_moment) (metricsPath ''/etc/a.toml'' @ ''.tmp'') = None \<and> \<not> mo_fails first_moment"
    by (simp add: first_moment_def quiet_host_def)
  from metrics_file_whole [where json = ?json and unjson = ?unjson, OF rt, THEN conjunct2, THEN conjunct2, THEN mp, OF _ this]
  show ?thesis by (intro exI [of _ ?snap])
qed

section \<open>The health check finds shared addresses\<close>

definition all_claims :: "health_env \<Rightarrow> tunnelRef list \<Rightarrow> (string \<times> string \<times> string) list" where
  "all_claims e tunnels =
     concat (map (\<lambda>t. case he_load e (tr_Path t) (tr_Role t) of Inl err \<Rightarrow> [] | Inr cfg \<Rightarrow> tunnel_claims t cfg) tunnels)"

text \<open>Who claimed an address of a kind first.\<close>

definition first_owner :: "(string \<times> string \<times> string) list \<Rightarrow> string \<Rightarrow> string \<Rightarrow> string option" where
  "first_owner cs what addr = map_option fst (find (\<lambda>c. snd c = (what, addr)) cs)"

fun is_also :: "health_line \<Rightarrow> bool" where
  "is_also (AlsoUsed what addr prev) = True"
| "is_also l = False"

lemma is_also_iff: "is_also l \<longleftrightarrow> (\<exists>w a p. l = AlsoUsed w a p)"
  by (cases l) simp_all

definition kinds :: "string set" where "kinds = {''listen'', ''disguise listen''}"

lemma claim_key_eq:
  "what \<in> kinds \<Longrightarrow> what' \<in> kinds \<Longrightarrow> claim_key what addr = claim_key what' addr' \<longleftrightarrow> what = what' \<and> addr = addr'"
  by (auto simp: claim_key_def kinds_def)

lemma all_claims_kinds: "(owner, what, addr) \<in> set (all_claims e ts) \<Longrightarrow> what \<in> kinds"
  by (auto simp: all_claims_def tunnel_claims_def kinds_def Let_def split: sum.splits if_splits)

lemma claim_filter: "apsnd (filter is_also) (claim c s) = claim c (apsnd (filter is_also) s)"
  by (cases s; cases c) (simp split: option.split)

lemma fold_claim_filter: "apsnd (filter is_also) (fold claim cs s) = fold claim cs (apsnd (filter is_also) s)"
  by (induction cs arbitrary: s) (simp_all add: claim_filter)

lemma health_tunnel_filter:
  "apsnd (filter is_also) (health_tunnel e t s) = fold claim (all_claims e [t]) (apsnd (filter is_also) s)"
proof (cases s)
  case (Pair used out)
  have "filter is_also (tunnel_checks e t cfg) = []" for cfg by (simp add: tunnel_checks_def Let_def)
  then show ?thesis using Pair
    by (simp add: health_tunnel_def all_claims_def fold_claim_filter split: sum.split)
qed

lemma health_fold_filter:
  "apsnd (filter is_also) (fold (health_tunnel e) ts s) = fold claim (all_claims e ts) (apsnd (filter is_also) s)"
proof (induction ts arbitrary: s)
  case (Cons t ts)
  have "all_claims e (t # ts) = all_claims e [t] @ all_claims e ts" by (simp add: all_claims_def)
  then show ?case by (simp add: Cons health_tunnel_filter)
qed (simp add: all_claims_def)

lemma ex_split_Cons:
  "(\<exists>xs w ys. d # ds = xs @ (w, k, a) # ys \<and> P xs) \<longleftrightarrow>
     (snd d = (k, a) \<and> P []) \<or> (\<exists>xs w ys. ds = xs @ (w, k, a) # ys \<and> P (d # xs))" (is "?l \<longleftrightarrow> ?h \<or> ?t")
proof
  assume ?l
  then obtain xs w ys where "d # ds = xs @ (w, k, a) # ys" "P xs" by blast
  then show "?h \<or> ?t" by (cases xs) auto
next
  assume "?h \<or> ?t"
  then show ?l
  proof
    assume ?h
    then have "d # ds = [] @ (fst d, k, a) # ds \<and> P []" by (simp add: prod_eq_iff)
    then show ?l by blast
  next
    assume ?t
    then obtain xs w ys where "d # ds = (d # xs) @ (w, k, a) # ys" "P (d # xs)" by auto
    then show ?l by blast
  qed
qed

text \<open>The map holds the first owner of every key, and each later claim is one line.\<close>

lemma fold_claim_step:
  assumes "\<And>c. c \<in> set (cs @ ds) \<Longrightarrow> fst (snd c) \<in> kinds"
    and "\<And>what addr. what \<in> kinds \<Longrightarrow> used (claim_key what addr) = first_owner cs what addr"
  shows "AlsoUsed what addr prev \<in> set (snd (fold claim ds (used, out))) \<longleftrightarrow>
     AlsoUsed what addr prev \<in> set out \<or>
     (\<exists>xs owner ys. ds = xs @ (owner, what, addr) # ys \<and> first_owner (cs @ xs) what addr = Some prev)"
  using assms
proof (induction ds arbitrary: cs used out)
  case (Cons d ds)
  obtain o' w a where d: "d = (o', w, a)" by (cases d)
  have w: "w \<in> kinds" using Cons.prems(1) [of d] d by simp
  let ?hit = "first_owner cs w a"
  let ?used = "if ?hit = None then used(claim_key w a \<mapsto> o') else used"
  let ?out = "case ?hit of None \<Rightarrow> out | Some p \<Rightarrow> out @ [AlsoUsed w a p]"
  have step: "claim d (used, out) = (?used, ?out)"
    using Cons.prems(2) [OF w, of a] d by (simp split: option.split)
  have find_app: "first_owner (cs @ [d]) w' a' =
      (case first_owner cs w' a' of Some p \<Rightarrow> Some p | None \<Rightarrow> if w' = w \<and> a' = a then Some o' else None)" for w' a'
    by (induction cs) (auto simp: first_owner_def d split: option.split)
  have "?used (claim_key w' a') = first_owner (cs @ [d]) w' a'" if "w' \<in> kinds" for w' a'
    using Cons.prems(2) [OF that, of a'] claim_key_eq [OF that w, of a' a] find_app [of w' a'] by (auto split: option.splits)
  with Cons.IH [of "cs @ [d]" ?used ?out] Cons.prems(1)
  have ih: "AlsoUsed what addr prev \<in> set (snd (fold claim ds (?used, ?out))) \<longleftrightarrow>
     AlsoUsed what addr prev \<in> set ?out \<or>
     (\<exists>xs owner ys. ds = xs @ (owner, what, addr) # ys \<and> first_owner ((cs @ [d]) @ xs) what addr = Some prev)"
    by simp
  have out: "AlsoUsed what addr prev \<in> set ?out \<longleftrightarrow>
      AlsoUsed what addr prev \<in> set out \<or> (what = w \<and> addr = a \<and> first_owner cs what addr = Some prev)"
    by (auto split: option.split)
  have "(\<exists>xs owner ys. d # ds = xs @ (owner, what, addr) # ys \<and> first_owner (cs @ xs) what addr = Some prev) \<longleftrightarrow>
      (what = w \<and> addr = a \<and> first_owner cs what addr = Some prev) \<or>
      (\<exists>xs owner ys. ds = xs @ (owner, what, addr) # ys \<and> first_owner ((cs @ [d]) @ xs) what addr = Some prev)"
    unfolding ex_split_Cons by (auto simp: d)
  then show ?case using ih out step by simp
qed simp

lemma first_owner_None: "first_owner cs w a = None \<longleftrightarrow> (w, a) \<notin> set (map snd cs)"
  by (force simp: first_owner_def find_None_iff)

lemma first_owner_repeats:
  "(\<exists>w a p xs owner ys. cs = xs @ (owner, w, a) # ys \<and> first_owner xs w a = Some p) \<longleftrightarrow> \<not> distinct (map snd cs)"
proof
  assume "\<exists>w a p xs owner ys. cs = xs @ (owner, w, a) # ys \<and> first_owner xs w a = Some p"
  then obtain w a p xs owner ys where "cs = xs @ (owner, w, a) # ys" "first_owner xs w a = Some p" by blast
  then show "\<not> distinct (map snd cs)" using first_owner_None [of xs w a] by auto
next
  assume "\<not> distinct (map snd cs)"
  then obtain ks k ks' where "k \<in> set ks" "map snd cs = ks @ k # ks'" by (auto simp: not_distinct_conv_prefix)
  then obtain xs c ys where "cs = xs @ c # ys" "snd c \<in> set (map snd xs)" by (auto simp: map_eq_append_conv map_eq_Cons_conv)
  moreover obtain owner w a where "c = (owner, w, a)" using prod_cases3 by blast
  moreover from calculation have "first_owner xs w a \<noteq> None" using first_owner_None [of xs w a] by simp
  then obtain p where "first_owner xs w a = Some p" by blast
  ultimately show "\<exists>w a p xs owner ys. cs = xs @ (owner, w, a) # ys \<and> first_owner xs w a = Some p" by blast
qed

lemma health_check_lines:
  "filter is_also (menuHealthCheck e tunnels) = snd (fold claim (all_claims e tunnels) (Map.empty, []))"
proof -
  have "filter is_also (health_system e) = []" by (simp add: health_system_def Let_def split: option.split)
  then show ?thesis
    using health_fold_filter [of e tunnels "(Map.empty, [])"]
    by (auto simp: menuHealthCheck_def all_claims_def prod_eq_iff apsnd_def)
qed

lemma health_check_line:
  "AlsoUsed w a p \<in> set (menuHealthCheck e tunnels) \<longleftrightarrow>
     (\<exists>xs owner ys. all_claims e tunnels = xs @ (owner, w, a) # ys \<and> first_owner xs w a = Some p)"
proof -
  have "AlsoUsed w a p \<in> set (menuHealthCheck e tunnels) \<longleftrightarrow> AlsoUsed w a p \<in> set (filter is_also (menuHealthCheck e tunnels))"
    by simp
  also have "\<dots> \<longleftrightarrow> (\<exists>xs owner ys. all_claims e tunnels = xs @ (owner, w, a) # ys \<and> first_owner ([] @ xs) w a = Some p)"
    unfolding health_check_lines
    by (subst fold_claim_step [where cs = "[]"]) (auto dest: all_claims_kinds simp: first_owner_def)
  finally show ?thesis by simp
qed

lemma health_check_silent: "list_ex is_also (menuHealthCheck e tunnels) \<longleftrightarrow> \<not> distinct (map snd (all_claims e tunnels))"
proof -
  have "list_ex is_also (menuHealthCheck e tunnels) \<longleftrightarrow> (\<exists>w a p. AlsoUsed w a p \<in> set (menuHealthCheck e tunnels))"
    by (auto simp: list_ex_iff is_also_iff)
  also have "\<dots> \<longleftrightarrow> \<not> distinct (map snd (all_claims e tunnels))"
    unfolding health_check_line first_owner_repeats ..
  finally show ?thesis .
qed

text \<open>
  Property C35. The health check reports an address as used twice exactly when two claims of the same kind name it, and it names
  the tunnel that claimed it first. So the report is silent exactly when all claims of all readable tunnels are
  different as pairs of kind and text: a forwarded port and a disguise never conflict, whatever their addresses.
\<close>

theorem health_reports_duplicates:
  "(AlsoUsed what addr prev \<in> set (menuHealthCheck e tunnels) \<longleftrightarrow>
     (\<exists>xs owner ys. all_claims e tunnels = xs @ (owner, what, addr) # ys \<and> first_owner xs what addr = Some prev)) \<and>
   (list_ex is_also (menuHealthCheck e tunnels) \<longleftrightarrow> \<not> distinct (map snd (all_claims e tunnels)))"
  using health_check_line health_check_silent by (intro conjI)

text \<open>
  What the report does not see: a server that forwards a port on the very address its disguise listens on. Only one of
  the two listeners can be bound, and no line says so.
\<close>

theorem health_misses_own_port:
  assumes "he_load e (tr_Path t) (tr_Role t) = Inr cfg" "tr_Role t = ''server''"
    and "Ports cfg = [p]" "Disguise cfg = [d]" "Enabled d" "ListenAddr d = Listen p"
  shows "\<not> list_ex is_also (menuHealthCheck e [t])"
  using health_check_silent [of e "[t]"] assms
  by (simp add: all_claims_def tunnel_claims_def Let_def)

end
