(* ===== verification/Listeners.thy ===== *)
theory Listeners
  imports Startup "HOL-Library.Multiset"
begin

text \<open>
  The listeners behind the disguises: \<open>wss.go\<close>, \<open>quicdisguise.go\<close> and the network part of \<open>kcpdisguise.go\<close>. Their accept
  queues, the accept loops of \<open>Server.Run\<close> and \<open>Client.runListener\<close> and the end of \<open>Run\<close> are one step relation. The
  routing of requests, the certificate and the settings given to the libraries are functions.
\<close>

section \<open>Socket options\<close>

text \<open>
  \<open>setMSS\<close> and \<open>listenTCP\<close>, on Linux and elsewhere. \<open>raw\<close>, \<open>control\<close> and \<open>setopt\<close> are the errors of getting at the
  descriptor, of running on it and of the system call; the first result of \<open>setMSS\<close> is the segment size that was set.
\<close>

definition setMSS :: "bool \<Rightarrow> goerror option \<Rightarrow> goerror option \<Rightarrow> (int \<Rightarrow> goerror option) \<Rightarrow> int \<Rightarrow> int option \<times> goerror option" where
  "setMSS linux raw control setopt mss =
     (if \<not> linux \<or> mss \<le> 0 then (None, None)
      else (case raw of
              Some e \<Rightarrow> (None, Some e)
            | None \<Rightarrow>
                (case control of
                   Some e \<Rightarrow> (None, Some e)
                 | None \<Rightarrow> (case setopt mss of Some e \<Rightarrow> (None, Some e) | None \<Rightarrow> (Some mss, None)))))"

definition listen_tcp ::
    "bool \<Rightarrow> goerror option \<Rightarrow> goerror option \<Rightarrow> (string \<Rightarrow> bool \<Rightarrow> goerror + 'l) \<Rightarrow> string \<Rightarrow> bool \<Rightarrow> goerror + 'l" where
  "listen_tcp linux control setopt bindAddr addr reusePort =
     (if \<not> linux \<or> \<not> reusePort then bindAddr addr False
      else (case control of
              Some e \<Rightarrow> Inl e
            | None \<Rightarrow> (case setopt of Some e \<Rightarrow> Inl e | None \<Rightarrow> bindAddr addr True)))"

text \<open>\<open>startDebugServer\<close>: the address the profiler listens on, if any.\<close>

definition startDebugServer :: "string \<Rightarrow> string option" where
  "startDebugServer addr = (if addr = [] then None else Some addr)"

section \<open>Certificates\<close>

text \<open>The fields of the self-signed certificate; \<open>ct_serial\<close> is the random number below \<open>2^62\<close>.\<close>

record cert_template =
  ct_serial :: int
  ct_commonName :: string
  ct_notBefore :: int
  ct_notAfter :: int
  ct_dnsNames :: "string list"

definition certDomain :: "string \<Rightarrow> string" where
  "certDomain domain = (if domain = [] then ''localhost'' else domain)"

definition hour :: int where "hour = 3600 * second"

text \<open>\<open>key\<close> and \<open>serial\<close> are what the random source gives, \<open>sign\<close> is \<open>x509.CreateCertificate\<close>.\<close>

definition generateSelfSignedCert ::
    "goerror + 'k \<Rightarrow> goerror + int \<Rightarrow> ('k \<Rightarrow> cert_template \<Rightarrow> goerror + 'x) \<Rightarrow> int \<Rightarrow> string \<Rightarrow> goerror + ('x \<times> 'k)" where
  "generateSelfSignedCert key serial sign now domain =
     (case key of
        Inl e \<Rightarrow> Inl e
      | Inr priv \<Rightarrow>
          (case serial of
             Inl e \<Rightarrow> Inl e
           | Inr n \<Rightarrow>
               (case sign priv \<lparr>ct_serial = n, ct_commonName = certDomain domain, ct_notBefore = now - hour,
                    ct_notAfter = now + 365 * 24 * hour, ct_dnsNames = [certDomain domain]\<rparr> of
                  Inl e \<Rightarrow> Inl e
                | Inr der \<Rightarrow> Inr (der, priv))))"

definition loadOrGenerateCert ::
    "(string \<Rightarrow> string \<Rightarrow> goerror + 'p) \<Rightarrow> (string \<Rightarrow> goerror + 'p) \<Rightarrow> DisguiseConfig \<Rightarrow> goerror + 'p" where
  "loadOrGenerateCert loadPair generate d =
     (if CertFile d \<noteq> [] \<and> KeyFile d \<noteq> [] then loadPair (CertFile d) (KeyFile d) else generate (Domain d))"

section \<open>The websocket listener\<close>

datatype 'a started = Started 'a | StartFails goerror | StartPanics

text \<open>
  \<open>HandleFunc\<close> of \<open>http.ServeMux\<close>, after the patterns \<open>ps\<close>: a pattern needs a slash and must be new, or it panics. What
  blanks, braces and escapes in a pattern mean is left to \<open>special\<close>.
\<close>

definition odd_pattern :: "string \<Rightarrow> bool" where
  "odd_pattern p \<longleftrightarrow> list_ex (\<lambda>c. c \<in> {CHR '' '', CHR 0x09, CHR ''{'', CHR ''%''}) p"

definition mux_accepts :: "(string \<Rightarrow> string list \<Rightarrow> bool) \<Rightarrow> string list \<Rightarrow> string \<Rightarrow> bool" where
  "mux_accepts special ps p = (if odd_pattern p then special p ps else CHR ''/'' \<in> set p \<and> p \<notin> set ps)"

text \<open>\<open>startWSSListener\<close>: \<open>cert\<close> is the result of \<open>loadOrGenerateCert\<close>, \<open>listen\<close> that of \<open>net.Listen\<close>.\<close>

definition start_wss ::
    "(string \<Rightarrow> string list \<Rightarrow> bool) \<Rightarrow> goerror + 'p \<Rightarrow> (string \<Rightarrow> goerror + 'l) \<Rightarrow> DisguiseConfig \<Rightarrow> ('l \<times> 'p) started" where
  "start_wss special cert listen d =
     (case cert of
        Inl e \<Rightarrow> StartFails (Wrap ''wss: certificate'' e)
      | Inr c \<Rightarrow>
          (case listen (ListenAddr d) of
             Inl e \<Rightarrow> StartFails e
           | Inr ln \<Rightarrow>
               if mux_accepts special [] (Path d) \<and> mux_accepts special [Path d] ''/'' then Started (ln, c) else StartPanics))"

text \<open>
  Which handler a request gets, by its host and its cleaned path, for patterns without special characters: the
  tunnel's, a redirect to the path with a slash at its end, or the decoy.
\<close>

datatype answer_kind = ToTunnel | ToSlash | ToDecoy

definition route :: "string \<Rightarrow> string \<Rightarrow> string \<Rightarrow> answer_kind" where
  "route p host r =
     (let h = takeWhile (\<lambda>c. c \<noteq> CHR ''/'') p; q = dropWhile (\<lambda>c. c \<noteq> CHR ''/'') p in
      if h \<noteq> [] \<and> h \<noteq> host then ToDecoy
      else if r = q \<or> (last q = CHR ''/'' \<and> hasPrefix r q) then ToTunnel
      else if r @ ''/'' = q then ToSlash
      else ToDecoy)"

datatype decoy = FileServer string | ComingSoon

definition decoyHandler :: "string \<Rightarrow> decoy" where
  "decoyHandler root = (if root \<noteq> [] then FileServer root else ComingSoon)"

section \<open>Dialing\<close>

record wss_request =
  wr_url :: "string \<times> string \<times> string"
  wr_host_header :: "string option"
  wr_sni :: string
  wr_insecure :: bool
  wr_timeout :: int
  wr_tuning :: "tcp_call list"

definition wss_request_of :: "Config \<Rightarrow> DisguiseConfig \<Rightarrow> int \<Rightarrow> wss_request" where
  "wss_request_of full d timeout =
     \<lparr>wr_url = (''wss'', ServerAddr d, Path d), wr_host_header = (if Domain d \<noteq> [] then Some (Domain d) else None),
      wr_sni = Domain d, wr_insecure = Insecure d, wr_timeout = timeout, wr_tuning = tuneTunnelConn True full\<rparr>"

text \<open>The settings of \<open>quicSessionConfig\<close> that are not left at their defaults.\<close>

record quic_config =
  qc_keepAlive :: int
  qc_idleTimeout :: int
  qc_windows :: "(64 word \<times> 64 word) option"

definition quicSessionConfig :: "Config \<Rightarrow> quic_config" where
  "quicSessionConfig cfg =
     \<lparr>qc_keepAlive = KeepAlive cfg, qc_idleTimeout = wrap64 (3 * KeepAlive cfg),
      qc_windows = (if RecvBuf cfg > 0 then Some (word_of_int (RecvBuf cfg), word_of_int (RecvBuf cfg) * 4) else None)\<rparr>"

text \<open>\<open>dialQUIC\<close>: the connections it closed, and the stream with its connection or the error.\<close>

definition dial_quic ::
    "(string \<Rightarrow> quic_config \<Rightarrow> goerror + 'c) \<Rightarrow> ('c \<Rightarrow> goerror + 's) \<Rightarrow> Config \<Rightarrow> DisguiseConfig \<Rightarrow> 'c list \<times> (goerror + 's \<times> 'c)" where
  "dial_quic dialAddr openStream cfg d =
     (case dialAddr (ServerAddr d) (quicSessionConfig cfg) of
        Inl e \<Rightarrow> ([], Inl (Wrap (''quic: dialing '' @ ServerAddr d) e))
      | Inr conn \<Rightarrow>
          (case openStream conn of
             Inl e \<Rightarrow> ([conn], Inl (Wrap ''quic: opening stream'' e))
           | Inr stream \<Rightarrow> ([], Inr (stream, conn))))"

definition start_quic :: "goerror + 'p \<Rightarrow> (string \<Rightarrow> 'p \<Rightarrow> quic_config \<Rightarrow> goerror + 'l) \<Rightarrow> Config \<Rightarrow> DisguiseConfig \<Rightarrow> 'l started" where
  "start_quic cert listen cfg d =
     (case cert of
        Inl e \<Rightarrow> StartFails (Wrap ''quic: certificate'' e)
      | Inr c \<Rightarrow>
          (case listen (ListenAddr d) c (quicSessionConfig cfg) of
             Inl e \<Rightarrow> StartFails (Wrap (''quic: listening on '' @ ListenAddr d) e)
           | Inr ln \<Rightarrow> Started ln))"

text \<open>KCP: the cipher comes from the token on both sides, and every session gets the same tuning.\<close>

definition kcpCrypt :: "(byte list \<Rightarrow> byte list) \<Rightarrow> (byte list \<Rightarrow> goerror + 'b) \<Rightarrow> string \<Rightarrow> goerror + 'b" where
  "kcpCrypt sha256 aes token =
     map_sum (Wrap ''kcp: deriving cipher'') id (aes (sha256 (bytes_of_string (''rmtunnel-kcp-v1:'' @ token))))"

definition dial_kcp ::
    "goerror + 'b \<Rightarrow> (string \<Rightarrow> 'b \<Rightarrow> int \<Rightarrow> int \<Rightarrow> goerror + 's) \<Rightarrow> Config \<Rightarrow> DisguiseConfig \<Rightarrow> goerror + 's \<times> kcp_call list" where
  "dial_kcp crypt dialWith cfg d =
     (case crypt of
        Inl e \<Rightarrow> Inl e
      | Inr block \<Rightarrow>
          (case dialWith (ServerAddr d) block (KCPDataShards d) (KCPParityShards d) of
             Inl e \<Rightarrow> Inl (Wrap (''kcp: dialing '' @ ServerAddr d) e)
           | Inr sess \<Rightarrow> Inr (sess, applyKCPTuning d cfg)))"

definition kcpAccepter_Accept :: "goerror + 's \<Rightarrow> Config \<Rightarrow> DisguiseConfig \<Rightarrow> goerror + 's \<times> kcp_call list" where
  "kcpAccepter_Accept accepted cfg d = map_sum id (\<lambda>sess. (sess, applyKCPTuning d cfg)) accepted"

definition start_kcp ::
    "goerror + 'b \<Rightarrow> (string \<Rightarrow> 'b \<Rightarrow> int \<Rightarrow> int \<Rightarrow> goerror + 'l) \<Rightarrow> Config \<Rightarrow> DisguiseConfig \<Rightarrow> ('l \<times> kcp_call list) started" where
  "start_kcp crypt listenWith cfg d =
     (case crypt of
        Inl e \<Rightarrow> StartFails e
      | Inr block \<Rightarrow>
          (case listenWith (ListenAddr d) block (KCPDataShards d) (KCPParityShards d) of
             Inl e \<Rightarrow> StartFails (Wrap (''kcp: listening on '' @ ListenAddr d) e)
           | Inr ln \<Rightarrow>
               Started (ln, (if RecvBuf cfg > 0 then [SetReadBuffer (RecvBuf cfg)] else [])
                 @ (if SendBuf cfg > 0 then [SetWriteBuffer (SendBuf cfg)] else []) @ [SetDSCP 46])))"



section \<open>Accept queues\<close>

datatype lkind = Socket | WSSChan | QUICChan

definition kind_of :: "DisguiseConfig \<Rightarrow> lkind" where
  "kind_of d = (if DType d = ''wss'' then WSSChan else if DType d = ''quic'' then QUICChan else Socket)"

text \<open>
  One listener with its accept loop. \<open>ac_chan\<close> is \<open>connCh\<close> (for a socket the backlog), \<open>ac_shut\<close> whether that channel was
  closed, \<open>ac_waiting\<close> the connections of the \<open>acceptStream\<close> goroutines blocked on it, \<open>ac_admitted\<close> what went to
  \<open>admitTunnelConn\<close>, \<open>ac_dropped\<close> what was closed instead, \<open>ac_done\<close> whether \<open>acceptLoop\<close> has returned. \<open>ac_seen\<close> records
  every connection that arrived.
\<close>

record 'c listener =
  ac_chan :: "'c list"
  ac_shut :: bool
  ac_closed :: bool
  ac_waiting :: "'c list"
  ac_admitted :: "'c list"
  ac_dropped :: "'c list"
  ac_done :: bool
  ac_seen :: "'c list"

definition fresh_listener :: "'c listener" where
  "fresh_listener = \<lparr>ac_chan = [], ac_shut = False, ac_closed = False, ac_waiting = [], ac_admitted = [], ac_dropped = [],
     ac_done = False, ac_seen = []\<rparr>"

definition connCap :: nat where "connCap = 64"

text \<open>The upgrade handler of \<open>startWSSListener\<close>: a full queue closes the connection.\<close>

definition wss_deliver :: "'c \<Rightarrow> 'c listener \<Rightarrow> 'c listener" where
  "wss_deliver c s =
     (let s = s\<lparr>ac_seen := ac_seen s @ [c]\<rparr> in
      if length (ac_chan s) < connCap then s\<lparr>ac_chan := ac_chan s @ [c]\<rparr> else s\<lparr>ac_dropped := ac_dropped s @ [c]\<rparr>)"

text \<open>\<open>acceptStream\<close> up to the \<open>select\<close>: no stream, or a connection that waits for room in the queue.\<close>

definition acceptStream :: "bool \<Rightarrow> 'c \<Rightarrow> 'c listener \<Rightarrow> 'c listener" where
  "acceptStream opened c s =
     (let s = s\<lparr>ac_seen := ac_seen s @ [c]\<rparr> in
      if opened then s\<lparr>ac_waiting := ac_waiting s @ [c]\<rparr> else s\<lparr>ac_dropped := ac_dropped s @ [c]\<rparr>)"

definition quic_hand_over :: "'c \<Rightarrow> 'c listener \<Rightarrow> 'c listener" where
  "quic_hand_over c s = s\<lparr>ac_waiting := remove1 c (ac_waiting s), ac_chan := ac_chan s @ [c]\<rparr>"

definition quic_give_up :: "'c \<Rightarrow> 'c listener \<Rightarrow> 'c listener" where
  "quic_give_up c s = s\<lparr>ac_waiting := remove1 c (ac_waiting s), ac_dropped := ac_dropped s @ [c]\<rparr>"

text \<open>
  The three \<open>Close\<close> methods. That of a socket or of \<open>kcp.Listener\<close> makes \<open>Accept\<close> fail, that of \<open>quicAccepter\<close> cancels
  \<open>a.ctx\<close>; that of \<open>wssListener\<close> stops the HTTP server and its socket.
\<close>

definition listener_Close :: "lkind \<Rightarrow> 'c listener \<Rightarrow> 'c listener" where
  "listener_Close k s =
     (case k of
        Socket \<Rightarrow> s\<lparr>ac_closed := True\<rparr>
      | WSSChan \<Rightarrow> s\<lparr>ac_closed := True\<rparr>
      | QUICChan \<Rightarrow> s\<lparr>ac_closed := True\<rparr>)"

text \<open>What \<open>Accept\<close> can return in a state, and the state then. Where no rule applies, the call waits.\<close>

inductive accept_returns :: "lkind \<Rightarrow> 'c listener \<Rightarrow> goerror + 'c \<Rightarrow> 'c listener \<Rightarrow> bool" where
  from_chan: "k \<noteq> Socket \<Longrightarrow> ac_chan s = c # cs \<Longrightarrow> accept_returns k s (Inr c) (s\<lparr>ac_chan := cs\<rparr>)"
| wss_shut: "ac_chan s = [] \<Longrightarrow> ac_shut s \<Longrightarrow> accept_returns WSSChan s (Inl (Msg ''wss listener closed'')) s"
| quic_shut: "ac_closed s \<Longrightarrow> accept_returns QUICChan s (Inl (Msg ''quic listener closed'')) s"
| from_backlog: "\<not> ac_closed s \<Longrightarrow> ac_chan s = c # cs \<Longrightarrow> accept_returns Socket s (Inr c) (s\<lparr>ac_chan := cs\<rparr>)"
| socket_fails: "\<not> ac_closed s \<Longrightarrow> accept_returns Socket s (Inl e) s"
| socket_shut: "ac_closed s \<Longrightarrow> accept_returns Socket s (Inl (Msg ''use of closed network connection'')) s"

text \<open>One round of \<open>acceptLoop\<close> with the result of \<open>Accept\<close>.\<close>

fun accept_round :: "bool \<Rightarrow> goerror + 'c \<Rightarrow> 'c listener \<Rightarrow> 'c listener" where
  "accept_round ctx (Inr c) s = s\<lparr>ac_admitted := ac_admitted s @ [c]\<rparr>"
| "accept_round ctx (Inl e) s = (if ctx then s\<lparr>ac_done := True\<rparr> else s)"

text \<open>The steps of one listener; \<open>ctx\<close>: the context of the tunnel is cancelled.\<close>

inductive lstep :: "bool \<Rightarrow> lkind \<Rightarrow> 'c listener \<Rightarrow> 'c listener \<Rightarrow> bool" where
  upgraded: "lstep ctx WSSChan s (wss_deliver c s)"
| stream: "\<not> ac_closed s \<Longrightarrow> lstep ctx QUICChan s (acceptStream opened c s)"
| handed_over: "c \<in> set (ac_waiting s) \<Longrightarrow> length (ac_chan s) < connCap \<Longrightarrow> lstep ctx QUICChan s (quic_hand_over c s)"
| given_up: "c \<in> set (ac_waiting s) \<Longrightarrow> ac_closed s \<Longrightarrow> lstep ctx QUICChan s (quic_give_up c s)"
| connected: "\<not> ac_closed s \<Longrightarrow> lstep ctx Socket s (s\<lparr>ac_chan := ac_chan s @ [c], ac_seen := ac_seen s @ [c]\<rparr>)"
| accepted: "\<not> ac_done s \<Longrightarrow> accept_returns k s r s' \<Longrightarrow> lstep ctx k s (accept_round ctx r s')"
| closed: "ctx \<Longrightarrow> lstep ctx k s (listener_Close k s)"

section \<open>The end of Run\<close>

text \<open>\<open>Run\<close> returns when the context is done and \<open>wg.Wait\<close> has seen every accept loop return.\<close>

record 'c running =
  run_ctx :: bool
  run_listeners :: "(lkind \<times> 'c listener) list"
  run_returned :: bool

definition listening :: "Config \<Rightarrow> 'c running" where
  "listening cfg =
     \<lparr>run_ctx = False, run_listeners = map (\<lambda>d. (kind_of d, fresh_listener)) (filter Enabled (Disguise cfg)), run_returned = False\<rparr>"

inductive rstep :: "'c running \<Rightarrow> 'c running \<Rightarrow> bool" where
  one: "i < length (run_listeners r) \<Longrightarrow> run_listeners r ! i = (k, s) \<Longrightarrow> lstep (run_ctx r) k s s' \<Longrightarrow>
     rstep r (r\<lparr>run_listeners := (run_listeners r)[i := (k, s')]\<rparr>)"
| cancelled: "rstep r (r\<lparr>run_ctx := True\<rparr>)"
| returned: "run_ctx r \<Longrightarrow> \<forall>(k, s) \<in> set (run_listeners r). ac_done s \<Longrightarrow> rstep r (r\<lparr>run_returned := True\<rparr>)"

inductive_cases lstepE: "lstep ctx k s s'"
inductive_cases acceptE: "accept_returns k s r s'"
inductive_cases rstepE: "rstep r r'"

section \<open>No connection is lost\<close>

definition accounted :: "lkind \<Rightarrow> 'c listener \<Rightarrow> bool" where
  "accounted k s \<longleftrightarrow>
     mset (ac_seen s) = mset (ac_chan s) + mset (ac_waiting s) + mset (ac_admitted s) + mset (ac_dropped s) \<and>
     (k \<noteq> Socket \<longrightarrow> length (ac_chan s) \<le> connCap) \<and> (k \<noteq> QUICChan \<longrightarrow> ac_waiting s = []) \<and>
     (k = Socket \<longrightarrow> ac_dropped s = [])"

lemma accounted_accept: "accept_returns k s r s' \<Longrightarrow> accounted k s \<Longrightarrow> accounted k (accept_round ctx r s')"
  by (auto elim!: acceptE simp: accounted_def)

lemma accounted_step:
  assumes "lstep ctx k s s'" "accounted k s"
  shows "accounted k s'"
  using assms(1)
proof cases
  case (upgraded c)
  then show ?thesis using assms(2) by (simp add: wss_deliver_def accounted_def Let_def)
next
  case (stream opened c)
  then show ?thesis using assms(2) by (simp add: acceptStream_def accounted_def Let_def)
next
  case (handed_over c)
  then show ?thesis using assms(2) by (simp add: quic_hand_over_def accounted_def)
next
  case (given_up c)
  then show ?thesis using assms(2) by (simp add: quic_give_up_def accounted_def)
next
  case (connected c)
  then show ?thesis using assms(2) by (simp add: accounted_def)
next
  case (accepted r t)
  then show ?thesis using accounted_accept [OF accepted(3) assms(2)] by simp
next
  case closed
  then show ?thesis using assms(2) by (cases k) (simp_all add: accounted_def listener_Close_def)
qed

text \<open>A property of one listener that its steps keep holds of all listeners of every reachable state.\<close>

lemma listeners_keep:
  assumes "rstep\<^sup>*\<^sup>* r r'" "\<forall>(k, s) \<in> set (run_listeners r). P k s"
    and "\<And>ctx k s s'. lstep ctx k s s' \<Longrightarrow> P k s \<Longrightarrow> P k s'"
  shows "\<forall>(k, s) \<in> set (run_listeners r'). P k s"
  using assms(1,2)
proof (induction rule: rtranclp_induct)
  case (step t u)
  from step(2) show ?case
  proof cases
    case (one i k s s')
    then have "P k s'" using step assms(3) nth_mem by fastforce
    then show ?thesis using step one(1) by (auto dest!: set_update_subset_insert [THEN subsetD])
  qed (use step in simp_all)
qed



section \<open>Shutting down\<close>

text \<open>Nothing ever closes the channel of a websocket listener, so its accept loop does not return.\<close>

lemma wss_never_done:
  assumes "lstep ctx k s s'" "k = WSSChan \<longrightarrow> \<not> ac_shut s \<and> \<not> ac_done s"
  shows "k = WSSChan \<longrightarrow> \<not> ac_shut s' \<and> \<not> ac_done s'"
  using assms
  by cases (auto elim!: acceptE simp: wss_deliver_def listener_Close_def acceptStream_def quic_hand_over_def quic_give_up_def Let_def)

lemma wss_not_returned:
  assumes "rstep\<^sup>*\<^sup>* r r'" "(WSSChan, s) \<in> set (run_listeners r)" "\<not> run_returned r"
    and "\<forall>(k, s) \<in> set (run_listeners r). k = WSSChan \<longrightarrow> \<not> ac_shut s \<and> \<not> ac_done s"
  shows "\<not> run_returned r' \<and> WSSChan \<in> fst ` set (run_listeners r')"
  using assms(1)
proof (induction rule: rtranclp_induct)
  case base
  show ?case using assms(2,3) by force
next
  case (step t u)
  have inv: "\<forall>(k, s) \<in> set (run_listeners t). k = WSSChan \<longrightarrow> \<not> ac_shut s \<and> \<not> ac_done s"
    by (rule listeners_keep [OF step(1) assms(4) wss_never_done])
  from step(2) show ?case
  proof cases
    case (one i k s s')
    have "map fst (run_listeners u) = map fst (run_listeners t)"
      using one by (simp add: map_update list_update_same_conv)
    then have "fst ` set (run_listeners u) = fst ` set (run_listeners t)" by (metis list.set_map)
    then show ?thesis using step one by simp
  next
    case returned
    then show ?thesis using inv step by fastforce
  qed (use step in simp_all)
qed

text \<open>Any other loop can end once the context is done: the listener is closed, and \<open>Accept\<close> then fails.\<close>

text \<open>
  The contract the accept loop relies on in the interface \<open>accepter\<close> of \<open>disguise.go\<close>: closing makes \<open>Accept\<close> return
  an error. Two of the three providers keep it.
\<close>

locale accepter =
  fixes returns :: "'c listener \<Rightarrow> goerror + 'c \<Rightarrow> 'c listener \<Rightarrow> bool" and close :: "'c listener \<Rightarrow> 'c listener"
  assumes close_wakes: "\<exists>e. returns (close s) (Inl e) (close s)"
    and close_keeps_loop: "ac_done (close s) = ac_done s"
begin

lemma loop_returns:
  assumes "\<not> ac_done s"
  shows "\<exists>r t. returns (close s) r t \<and> \<not> ac_done (close s) \<and> ac_done (accept_round True r t)"
proof -
  obtain e where "returns (close s) (Inl e) (close s)" using close_wakes by blast
  moreover have "ac_done (accept_round True (Inl e) (close s))" by simp
  ultimately show ?thesis using assms close_keeps_loop by blast
qed

end

interpretation sock: accepter "accept_returns Socket" "listener_Close Socket"
  by unfold_locales (auto simp: listener_Close_def accept_returns.simps)

interpretation quic: accepter "accept_returns QUICChan" "listener_Close QUICChan"
  by unfold_locales (auto simp: listener_Close_def accept_returns.simps)

lemma wss_breaks_contract: "\<not> accepter (accept_returns WSSChan) (listener_Close WSSChan :: 'c listener \<Rightarrow> 'c listener)"
proof
  assume "accepter (accept_returns WSSChan) (listener_Close WSSChan :: 'c listener \<Rightarrow> 'c listener)"
  from accepter.close_wakes [OF this, of fresh_listener] show False
    by (auto simp: listener_Close_def fresh_listener_def elim!: acceptE)
qed

lemma loop_ends:
  assumes "k \<noteq> WSSChan"
  shows "\<exists>s'. (lstep True k)\<^sup>*\<^sup>* s s' \<and> ac_done s'"
proof (cases "ac_done s")
  case False
  let ?s = "listener_Close k s"
  obtain r t where r: "accept_returns k ?s r t" "\<not> ac_done ?s" "ac_done (accept_round True r t)"
    using assms sock.loop_returns [OF False] quic.loop_returns [OF False] by (cases k) auto
  have "lstep True k s ?s" by (rule lstep.closed) simp
  then have "(lstep True k)\<^sup>*\<^sup>* s (accept_round True r t)"
    using lstep.accepted [OF r(2,1)] by (meson r_into_rtranclp rtranclp_trans)
  with r(3) show ?thesis by blast
qed blast

lemma steps_at:
  assumes "(lstep (run_ctx r) k)\<^sup>*\<^sup>* s s'" "i < length (run_listeners r)" "run_listeners r ! i = (k, s)"
  shows "rstep\<^sup>*\<^sup>* r (r\<lparr>run_listeners := (run_listeners r)[i := (k, s')]\<rparr>)"
  using assms(1)
proof (induction rule: rtranclp_induct)
  case base
  have "(run_listeners r)[i := (k, s)] = run_listeners r" using assms(3) by (metis list_update_id)
  then show ?case by simp
next
  case (step t u)
  let ?r = "r\<lparr>run_listeners := (run_listeners r)[i := (k, t)]\<rparr>"
  have "rstep ?r (?r\<lparr>run_listeners := (run_listeners ?r)[i := (k, u)]\<rparr>)"
    using step(2) assms(2) by (intro rstep.one) simp_all
  with step(3) show ?case by simp
qed

lemma loops_end:
  assumes "run_ctx r" "\<forall>(k, s) \<in> set (run_listeners r). k \<noteq> WSSChan" "n \<le> length (run_listeners r)"
  shows "\<exists>r'. rstep\<^sup>*\<^sup>* r r' \<and> run_ctx r' \<and> map fst (run_listeners r') = map fst (run_listeners r) \<and>
     (\<forall>i < n. ac_done (snd (run_listeners r' ! i)))"
  using assms(3)
proof (induction n)
  case 0
  then show ?case using assms(1) by blast
next
  case (Suc n)
  then obtain t where t: "rstep\<^sup>*\<^sup>* r t" "run_ctx t" "map fst (run_listeners t) = map fst (run_listeners r)"
      "\<forall>i < n. ac_done (snd (run_listeners t ! i))"
    by auto
  have n: "n < length (run_listeners t)" using Suc.prems t(3) by (metis Suc_le_eq length_map)
  obtain k s where ks: "run_listeners t ! n = (k, s)" by fastforce
  have "k = map fst (run_listeners r) ! n" using ks n t(3) by (metis fst_conv nth_map)
  then have "k \<noteq> WSSChan" using assms(2) Suc.prems by (simp add: split_beta)
  then obtain s' where "(lstep (run_ctx t) k)\<^sup>*\<^sup>* s s'" "ac_done s'" using loop_ends t(2) by fastforce
  with steps_at [OF _ n ks] have
    "rstep\<^sup>*\<^sup>* t (t\<lparr>run_listeners := (run_listeners t)[n := (k, s')]\<rparr>)" "ac_done s'" by blast+
  moreover have "map fst ((run_listeners t)[n := (k, s')]) = map fst (run_listeners t)"
    using ks by (simp add: map_update list_update_same_conv n)
  ultimately show ?case using t n
    by (intro exI [of _ "t\<lparr>run_listeners := (run_listeners t)[n := (k, s')]\<rparr>"]) (auto simp: nth_list_update less_Suc_eq)
qed

lemma kinds_stay: "rstep\<^sup>*\<^sup>* r r' \<Longrightarrow> map fst (run_listeners r') = map fst (run_listeners r)"
proof (induction rule: rtranclp_induct)
  case (step t u)
  from step(2) have "map fst (run_listeners u) = map fst (run_listeners t)"
    by cases (simp_all add: map_update list_update_same_conv)
  then show ?case using step by simp
qed simp

text \<open>
  Property C20. A side that listens can be stopped exactly when no websocket disguise is enabled. Without one, \<open>Run\<close> can return from
  every state it can reach. With one it never returns: \<open>wssListener.Close\<close> does not close the channel its \<open>Accept\<close> reads,
  the accept loop waits for ever, and \<open>wg.Wait\<close> with it.
\<close>

theorem run_stops_iff_no_wss:
  "(\<forall>r. rstep\<^sup>*\<^sup>* (listening cfg :: 'c running) r \<longrightarrow> (\<exists>r'. rstep\<^sup>*\<^sup>* r r' \<and> run_returned r')) \<longleftrightarrow>
     \<not> (\<exists>d \<in> set (Disguise cfg). Enabled d \<and> DType d = ''wss'')" (is "?stops \<longleftrightarrow> \<not> ?wss")
proof
  have "\<not> ?stops" if w: ?wss
  proof -
    from w have "(WSSChan, fresh_listener) \<in> set (run_listeners (listening cfg :: 'c running))"
      by (force simp: listening_def kind_of_def)
    moreover have "\<forall>(k, s) \<in> set (run_listeners (listening cfg :: 'c running)). k = WSSChan \<longrightarrow> \<not> ac_shut s \<and> \<not> ac_done s"
      by (auto simp: listening_def fresh_listener_def)
    ultimately have "\<not> run_returned r" if "rstep\<^sup>*\<^sup>* (listening cfg :: 'c running) r" for r
      using wss_not_returned [OF that] by (simp add: listening_def)
    then show ?thesis by blast
  qed
  then show "?stops \<Longrightarrow> \<not> ?wss" by blast
next
  assume no: "\<not> ?wss"
  show ?stops
  proof (intro allI impI)
    fix r :: "'c running"
    assume r: "rstep\<^sup>*\<^sup>* (listening cfg) r"
    let ?c = "r\<lparr>run_ctx := True\<rparr>"
    have "set (map fst (run_listeners (listening cfg :: 'c running))) \<subseteq> - {WSSChan}"
      using no by (auto simp: listening_def kind_of_def)
    then have "fst ` set (run_listeners ?c) \<subseteq> - {WSSChan}" using kinds_stay [OF r, symmetric] by simp
    then have "\<forall>(k, s) \<in> set (run_listeners ?c). k \<noteq> WSSChan" by force
    then obtain t where t: "rstep\<^sup>*\<^sup>* ?c t" "run_ctx t" "map fst (run_listeners t) = map fst (run_listeners ?c)"
        "\<forall>i < length (run_listeners ?c). ac_done (snd (run_listeners t ! i))"
      using loops_end [of ?c "length (run_listeners ?c)"] by auto
    then have "\<forall>(k, s) \<in> set (run_listeners t). ac_done s"
      using map_eq_imp_length_eq [OF t(3)] by (auto simp: in_set_conv_nth) (metis snd_conv)
    with t(2) have last: "rstep t (t\<lparr>run_returned := True\<rparr>)" by (rule rstep.returned)
    have "rstep\<^sup>*\<^sup>* r (t\<lparr>run_returned := True\<rparr>)"
      by (rule converse_rtranclp_into_rtranclp [of rstep, OF rstep.cancelled])
        (rule rtranclp.rtrancl_into_rtrancl [of rstep, OF t(1) last])
    then show "\<exists>r'. rstep\<^sup>*\<^sup>* r r' \<and> run_returned r'" by force
  qed
qed

theorem run_stops_iff_no_wss_witness:
  "(\<exists>r :: nat running. rstep\<^sup>*\<^sup>* (listening (sample_config ''server'')) r \<and> \<not> (\<exists>r'. rstep\<^sup>*\<^sup>* r r' \<and> run_returned r')) \<and>
   (\<exists>r' :: nat running. rstep\<^sup>*\<^sup>*
      (listening ((sample_config ''server'')\<lparr>Disguise := [zero_disguise\<lparr>Enabled := True, DType := ''noise''\<rparr>]\<rparr>)) r' \<and> run_returned r')"
proof
  have "\<exists>d \<in> set (Disguise (sample_config ''server'')). Enabled d \<and> DType d = ''wss''"
    by (simp add: sample_config_def sample_disguise_def)
  then show "\<exists>r :: nat running. rstep\<^sup>*\<^sup>* (listening (sample_config ''server'')) r \<and> \<not> (\<exists>r'. rstep\<^sup>*\<^sup>* r r' \<and> run_returned r')"
    using run_stops_iff_no_wss [where 'c = nat, of "sample_config ''server''"] by blast
next
  let ?cfg = "(sample_config ''server'')\<lparr>Disguise := [zero_disguise\<lparr>Enabled := True, DType := ''noise''\<rparr>]\<rparr>"
  have "\<not> (\<exists>d \<in> set (Disguise ?cfg). Enabled d \<and> DType d = ''wss'')" by simp
  then show "\<exists>r' :: nat running. rstep\<^sup>*\<^sup>* (listening ?cfg) r' \<and> run_returned r'"
    using run_stops_iff_no_wss [where 'c = nat, of ?cfg] by blast
qed

section \<open>The ticker of the control channel\<close>

text \<open>
  \<open>time.NewTicker\<close> panics for an interval that is not positive: \<open>None\<close>. All four control loops (of the server and the
  client, in both directions) start one with the configured heartbeat once a control connection is up.
\<close>

definition newTicker :: "int \<Rightarrow> int option" where
  "newTicker d = (if d \<le> 0 then None else Some d)"

definition control_ticker :: "Config \<Rightarrow> int option" where
  "control_ticker cfg = newTicker (Heartbeat cfg)"

text \<open>
  A heartbeat of zero or below is accepted by the configuration check and makes the process panic when the first
  control connection is up.
\<close>

theorem bad_heartbeat_accepted_but_panics:
  assumes "validate c = (c', None)" "hb \<le> 0"
  shows "validate (c\<lparr>Heartbeat := hb\<rparr>) = (c'\<lparr>Heartbeat := hb\<rparr>, None) \<and> control_ticker (c'\<lparr>Heartbeat := hb\<rparr>) = None"
proof -
  have "valid_config (c\<lparr>Heartbeat := hb\<rparr>) = valid_config c" by (simp add: valid_config_def dialsOut_def)
  with assms show ?thesis by (simp add: validate_None_iff control_ticker_def newTicker_def)
qed

theorem bad_heartbeat_accepted_but_panics_witness:
  "\<exists>c. validate c = (c, None) \<and> control_ticker c = None"
proof -
  let ?c = "(sample_config ''server'')\<lparr>Disguise := map default_path (Disguise (sample_config ''server''))\<rparr>"
  have "validate ?c = (?c, None)"
    using sample_config_valid [of "''server''"] by (simp add: validate_None_iff)
  from bad_heartbeat_accepted_but_panics [OF this, of 0] show ?thesis by auto
qed

end
