(* ===== verification/Screen_Text.thy ===== *)
theory Screen_Text
  imports Go_Prelude
begin

text \<open>
  The drawing of the menu, \<open>color.go\<close> and the banner of \<open>menu.go\<close>. A text is a list of runes and of terminal escape
  sequences; only the runes take up a column. \<open>on\<close> is \<open>colorEnabled\<close>.
\<close>

section \<open>Runes and escape sequences\<close>

datatype glyph = Ansi string | Rune nat

type_synonym screen_text = "glyph list"

definition runes :: "string \<Rightarrow> screen_text" where
  "runes s = map (\<lambda>c. Rune (of_char c)) s"

fun seen :: "glyph \<Rightarrow> bool" where
  "seen (Ansi s) = False"
| "seen (Rune r) = True"

definition columns :: "screen_text \<Rightarrow> nat" where
  "columns t = length (filter seen t)"

text \<open>\<open>len([]rune(s))\<close>: the runes of escape sequences count here.\<close>

fun rune_len :: "glyph \<Rightarrow> nat" where
  "rune_len (Ansi s) = length s"
| "rune_len (Rune r) = 1"

definition rune_count :: "screen_text \<Rightarrow> nat" where
  "rune_count t = sum_list (map rune_len t)"

section \<open>Colors\<close>

definition sgr :: "string \<Rightarrow> string" where
  "sgr code = CHR 0x1B # ''['' @ code @ ''m''"

definition paint :: "bool \<Rightarrow> string \<Rightarrow> screen_text \<Rightarrow> screen_text" where
  "paint on code s = (if on then Ansi code # s @ [Ansi (sgr ''0'')] else s)"

definition blue :: "bool \<Rightarrow> screen_text \<Rightarrow> screen_text" where "blue on = paint on (sgr ''38;5;69'')"
definition purple :: "bool \<Rightarrow> screen_text \<Rightarrow> screen_text" where "purple on = paint on (sgr ''38;5;135'')"
definition cyan :: "bool \<Rightarrow> screen_text \<Rightarrow> screen_text" where "cyan on = paint on (sgr ''38;5;80'')"
definition green :: "bool \<Rightarrow> screen_text \<Rightarrow> screen_text" where "green on = paint on (sgr ''38;5;78'')"
definition red :: "bool \<Rightarrow> screen_text \<Rightarrow> screen_text" where "red on = paint on (sgr ''38;5;203'')"
definition yellow :: "bool \<Rightarrow> screen_text \<Rightarrow> screen_text" where "yellow on = paint on (sgr ''38;5;221'')"
definition magenta :: "bool \<Rightarrow> screen_text \<Rightarrow> screen_text" where "magenta on = paint on (sgr ''38;5;171'')"
definition pink :: "bool \<Rightarrow> screen_text \<Rightarrow> screen_text" where "pink on = paint on (sgr ''38;5;212'')"
definition gray :: "bool \<Rightarrow> screen_text \<Rightarrow> screen_text" where "gray on = paint on (sgr ''38;5;244'')"
definition bold :: "bool \<Rightarrow> screen_text \<Rightarrow> screen_text" where "bold on = paint on (sgr ''1'')"
definition dim :: "bool \<Rightarrow> screen_text \<Rightarrow> screen_text" where "dim on = paint on (sgr ''2'')"

lemmas color_defs = blue_def purple_def cyan_def green_def red_def yellow_def magenta_def pink_def gray_def bold_def dim_def

definition gradientPalette :: "string list" where
  "gradientPalette =
     map sgr [''38;5;69'', ''38;5;75'', ''38;5;111'', ''38;5;135'', ''38;5;171'', ''38;5;212'']"

definition space :: glyph where "space = Rune 32"
definition rule_rune :: glyph where "rule_rune = Rune 0x2500"

text \<open>The loops of \<open>gradientText\<close> and \<open>gradientRule\<close>, from index \<open>i\<close>.\<close>

fun gradient_loop :: "nat \<Rightarrow> screen_text \<Rightarrow> screen_text" where
  "gradient_loop i [] = []"
| "gradient_loop i (r # rs) =
     (if r = space then r # gradient_loop (i + 1) rs
      else Ansi (gradientPalette ! (i mod length gradientPalette)) # r # Ansi (sgr ''0'') # gradient_loop (i + 1) rs)"

definition gradientText :: "bool \<Rightarrow> screen_text \<Rightarrow> screen_text" where
  "gradientText on s = (if on then gradient_loop 0 s else s)"

definition gradientRule :: "bool \<Rightarrow> nat \<Rightarrow> screen_text" where
  "gradientRule on width =
     (if on then concat (map (\<lambda>i. [Ansi (gradientPalette ! (i mod length gradientPalette)), rule_rune]) [0..<width]) @ [Ansi (sgr ''0'')]
      else replicate width rule_rune)"

section \<open>The banner\<close>

definition bannerWidth :: nat where "bannerWidth = 68"

definition centerPad :: "screen_text \<Rightarrow> nat \<Rightarrow> screen_text" where
  "centerPad s width =
     (let n = rune_count s in
      if n \<ge> width then s
      else (let left = (width - n) div 2; right = width - n - left in replicate left space @ s @ replicate right space))"

definition bigFont :: "char \<Rightarrow> string list option" where
  "bigFont = map_of
    [(CHR ''R'', [''####.'', ''#...#'', ''####.'', ''#..#.'', ''#...#'']),
     (CHR ''M'', [''#...#'', ''##.##'', ''#.#.#'', ''#...#'', ''#...#'']),
     (CHR ''T'', [''#####'', ''..#..'', ''..#..'', ''..#..'', ''..#..'']),
     (CHR ''U'', [''#...#'', ''#...#'', ''#...#'', ''#...#'', ''.###.'']),
     (CHR ''N'', [''#...#'', ''##..#'', ''#.#.#'', ''#..##'', ''#...#'']),
     (CHR ''E'', [''#####'', ''#....'', ''####.'', ''#....'', ''#####'']),
     (CHR ''L'', [''#....'', ''#....'', ''#....'', ''#....'', ''#####'']),
     (CHR '' '', [''..'', ''..'', ''..'', ''..'', ''..''])]"

definition big_glyph :: "char \<Rightarrow> string list" where
  "big_glyph c = (case bigFont c of Some g \<Rightarrow> g | None \<Rightarrow> the (bigFont CHR '' ''))"

text \<open>A row of the wordmark before its cells are drawn: the glyphs with a blank between them.\<close>

definition big_row :: "string \<Rightarrow> nat \<Rightarrow> string" where
  "big_row s row = join (map (\<lambda>c. big_glyph c ! row) s) '' ''"

definition draw_cells :: "screen_text \<Rightarrow> screen_text" where
  "draw_cells = map (\<lambda>g. if g = Rune (of_char CHR ''#'') then Rune 0x2588 else g)"

definition bigBannerLines :: "bool \<Rightarrow> string \<Rightarrow> nat \<Rightarrow> screen_text list" where
  "bigBannerLines on s width =
     map (\<lambda>(row, color). color (draw_cells (centerPad (runes (map (\<lambda>c. if c = CHR ''.'' then CHR '' '' else c) (big_row s row))) width)))
       [(0, blue on), (1, blue on), (2, purple on), (3, magenta on), (4, pink on)]"

definition box_line :: "nat \<Rightarrow> nat \<Rightarrow> screen_text" where
  "box_line l r = Rune l # replicate bannerWidth rule_rune @ [Rune r]"

definition middle_dot :: glyph where "middle_dot = Rune 0xB7"

definition banner :: "bool \<Rightarrow> string \<Rightarrow> string \<Rightarrow> string \<Rightarrow> string \<Rightarrow> screen_text list" where
  "banner on version repoURL author handle =
     (let top = purple on (box_line 0x256D 0x256E); rule = purple on (box_line 0x251C 0x2524);
          bottom = purple on (box_line 0x2570 0x256F); side = purple on [Rune 0x2502];
          tagline = dim on (centerPad (runes ''reverse tunnel '' @ [middle_dot] @ runes '' anti-censorship '' @ [middle_dot]
            @ runes '' self-tuning'') bannerWidth);
          ver = bold on (cyan on (centerPad (runes (''v'' @ version)) bannerWidth));
          repo = dim on (centerPad (runes repoURL) bannerWidth);
          credit = bold on (pink on (centerPad (runes (''by '' @ author @ ''  '') @ [middle_dot] @ runes (''  Telegram: '' @ handle)) bannerWidth))
      in [top] @ map (\<lambda>row. side @ row @ side) (bigBannerLines on ''RM TUNNEL'' bannerWidth)
         @ [side @ tagline @ side, rule, side @ ver @ side, side @ repo @ side, side @ credit @ side, bottom])"

text \<open>The box around the notice that an update exists.\<close>

definition noticeBox :: "bool \<Rightarrow> screen_text \<Rightarrow> screen_text list" where
  "noticeBox on msg =
     (let full = Rune 0x26A0 # space # msg;
          body = (if length full > bannerWidth - 2 then take (bannerWidth - 5) full @ runes ''...'' else full);
          side = yellow on [Rune 0x2502]
      in [yellow on (box_line 0x256D 0x256E), side @ bold on (yellow on (centerPad body bannerWidth)) @ side,
          yellow on (box_line 0x2570 0x256F)])"

section \<open>Labels\<close>

definition statusBadge :: "bool \<Rightarrow> bool \<Rightarrow> screen_text" where
  "statusBadge on active =
     (if active then bold on (green on (Rune 0x25CF # runes '' active'')) else bold on (red on (Rune 0x25CF # runes '' inactive'')))"

definition roleTag :: "bool \<Rightarrow> string \<Rightarrow> screen_text" where
  "roleTag on role =
     (let painted = bold on (runes role) in
      if trimSpace role = ''server'' then blue on painted
      else if trimSpace role = ''client'' then purple on painted
      else cyan on painted)"

definition menuItem :: "bool \<Rightarrow> string \<Rightarrow> screen_text \<Rightarrow> screen_text" where
  "menuItem on key label =
     runes ''  '' @ purple on [Rune 0x276F] @ runes '' '' @ bold on (cyan on (runes (''['' @ key @ '']''))) @ runes ''  '' @ label"

definition sectionHeader :: "bool \<Rightarrow> string \<Rightarrow> screen_text list" where
  "sectionHeader on title =
     [purple on [Rune 0x25B8, space] @ bold on (cyan on (runes title)), gradientRule on bannerWidth, []]"

section \<open>What is seen\<close>

named_theorems column_simps "columns of a text"

lemma columns_basic [column_simps]:
  "columns [] = 0" "columns (a @ b) = columns a + columns b" "columns (Rune r # t) = Suc (columns t)" "columns (Ansi s # t) = columns t"
  by (simp_all add: columns_def)

lemma columns_runes [column_simps]: "columns (runes s) = length s"
  by (simp add: columns_def runes_def comp_def)

lemma columns_replicate [column_simps]: "columns (replicate n (Rune r)) = n"
  by (induction n) (simp_all add: column_simps)

lemma columns_paint [column_simps]: "columns (paint on code s) = columns s"
  by (simp add: paint_def column_simps)

text \<open>Texts without escape sequences, which are what \<open>centerPad\<close> measures right.\<close>

definition plain :: "screen_text \<Rightarrow> bool" where
  "plain s \<longleftrightarrow> list_all seen s"

lemma plain_basic [column_simps]:
  "plain []" "plain (Rune r # t) = plain t" "plain (a @ b) = (plain a \<and> plain b)" "plain (runes s)"
  "plain t \<Longrightarrow> plain (take n t)" "length (runes s) = length s"
  by (auto simp: plain_def runes_def list_all_iff dest: in_set_takeD)

lemma columns_plain: "plain s \<Longrightarrow> columns s = length s \<and> rune_count s = length s"
proof (induction s)
  case (Cons g s)
  then show ?case by (cases g) (simp_all add: columns_def rune_count_def plain_def)
qed (simp add: columns_def rune_count_def)

lemma columns_centerPad [column_simps]: "plain s \<Longrightarrow> columns (centerPad s width) = max width (length s)"
  using columns_plain [of s] by (auto simp: centerPad_def Let_def space_def column_simps)

lemma columns_draw_cells: "columns (draw_cells s) = columns s"
proof (induction s)
  case (Cons g s)
  then show ?case by (cases g) (simp_all add: draw_cells_def columns_def)
qed (simp add: draw_cells_def columns_def)

lemma columns_box_line [column_simps]: "columns (box_line l r) = bannerWidth + 2"
  by (simp add: box_line_def rule_rune_def column_simps)

lemma big_row_fits: "row < 5 \<Longrightarrow> length (big_row ''RM TUNNEL'' row) = 50"
  by (cases row) (auto simp: big_row_def big_glyph_def bigFont_def less_Suc_eq numeral_eq_Suc)

lemma banner_row:
  "l \<in> set (bigBannerLines on ''RM TUNNEL'' bannerWidth) \<Longrightarrow> columns l = bannerWidth"
  by (auto simp: bigBannerLines_def color_defs column_simps columns_draw_cells big_row_fits bannerWidth_def)

text \<open>
  The banner is a rectangle whatever the colors: with a version, an address and a credit line that fit, all its
  lines are 70 columns wide. So is the box of the update notice, for every message.
\<close>

theorem banner_is_rectangle:
  assumes "length version < bannerWidth" "length repoURL \<le> bannerWidth" "length author + length handle + 18 \<le> bannerWidth"
    and "plain msg"
  shows "(\<forall>l \<in> set (banner on version repoURL author handle). columns l = bannerWidth + 2) \<and>
     (\<forall>l \<in> set (noticeBox on msg). columns l = bannerWidth + 2)"
proof
  show "\<forall>l \<in> set (banner on version repoURL author handle). columns l = bannerWidth + 2"
    using assms(1-3) by (auto simp: banner_def Let_def color_defs column_simps banner_row middle_dot_def) (simp add: bannerWidth_def)
  show "\<forall>l \<in> set (noticeBox on msg). columns l = bannerWidth + 2"
    using assms(4) by (simp add: noticeBox_def Let_def color_defs column_simps space_def bannerWidth_def)
qed

text \<open>The banner of this version.\<close>

theorem banner_is_rectangle_witness:
  "\<forall>l \<in> set (banner True ''0.13.0'' ''https://github.com/Ali-Rahmanii/rmtunnel'' ''Ali Rahmani'' ''@A_Alirahmani''). columns l = 70"
  using banner_is_rectangle [where on = True and msg = "[]", of "''0.13.0''" "''https://github.com/Ali-Rahmanii/rmtunnel''" "''Ali Rahmani''" "''@A_Alirahmani''"]
  by (simp add: bannerWidth_def column_simps)

text \<open>Coloring changes nothing that is seen, and without colors there is no escape sequence at all.\<close>

theorem gradient_keeps_text:
  assumes "plain s"
  shows "filter seen (gradientText on s) = s \<and> filter seen (paint on code s) = s \<and> columns (gradientRule on n) = n \<and>
     gradientText False s = s \<and> paint False code s = s"
proof -
  have "filter seen (gradient_loop i s) = s" for i
    using assms by (induction s arbitrary: i) (auto simp: plain_def)
  moreover have "filter seen s = s" using assms by (simp add: filter_id_conv plain_def list_all_iff)
  moreover have "columns (concat (map (\<lambda>i. [Ansi (f i), rule_rune]) [0..<n])) = n" for f
    by (induction n) (simp_all add: column_simps rule_rune_def)
  ultimately show ?thesis
    by (simp add: gradientText_def paint_def gradientRule_def column_simps rule_rune_def)
qed

end
