(* ===== verification/Client_Steps.thy ===== *)
theory Client_Steps
  imports Direct
begin

text \<open>
  The client under every interleaving of its goroutines: the workers of \<open>client.go\<close> with the critical sections
  of theory \<open>Client\<close> as steps, the invariant of every reachable state, and the crash that tcpmux mode can
  reach. Then the reader and the writer of a control channel that a listening client accepted
  (\<open>direct.go\<close>).
\<close>

section \<open>Workers and their steps\<close>

text \<open>
  A worker owns one pool connection and has its number: dialing and in the handshake (all of a udp worker's
  life, see theory \<open>Udp_Carrier\<close>, is here), waiting for a target, accepting streams, past its registration,
  returned. \<open>handlers\<close> maps the running \<open>handleStream\<close> goroutines to the session of their stream.
\<close>

datatype worker = DialsPool | WaitsTarget | AcceptsStreams | Unregistered | Returned

record csys =
  cli :: client
  workers :: "nat \<Rightarrow> worker option"
  handlers :: "nat \<Rightarrow> nat option"
  panicked :: bool

definition cstart :: "Config \<Rightarrow> csys" where
  "cstart cfg = \<lparr>cli = NewClient cfg, workers = Map.empty, handlers = Map.empty, panicked = False\<rparr>"

definition set_worker :: "nat \<Rightarrow> worker \<Rightarrow> (client \<Rightarrow> client) \<Rightarrow> csys \<Rightarrow> csys" where
  "set_worker k x f y = y\<lparr>workers := (workers y)(k \<mapsto> x), cli := f (cli y)\<rparr>"

text \<open>
  A goroutine's steps are taken one at a time. What the network answers is open: a dial may fail, a read or
  \<open>AcceptStream\<close> may return at any time, with an error when a watcher closed what it reads.
\<close>

inductive cstep :: "Config \<Rightarrow> csys \<Rightarrow> csys \<Rightarrow> bool" for cfg where
  control_up: "\<lbrakk>\<not> panicked y; c_controlConn (cli y) = None\<rbrakk> \<Longrightarrow>
    cstep cfg y (y\<lparr>cli := publish_generation conn epoch i (cli y)\<rparr>)"
| control_down: "\<lbrakk>\<not> panicked y; c_controlConn (cli y) \<noteq> None\<rbrakk> \<Longrightarrow>
    cstep cfg y (y\<lparr>cli := withdraw_generation (cli y)\<rparr>)"
| spawn: "\<lbrakk>\<not> panicked y; workers y k = None; spawnOne cfg (cli y) \<noteq> NoSpawn\<rbrakk> \<Longrightarrow>
    cstep cfg y (set_worker k DialsPool (active_add 1) y)"
| dial_fails: "\<lbrakk>\<not> panicked y; workers y k = Some DialsPool\<rbrakk> \<Longrightarrow>
    cstep cfg y (set_worker k Returned (active_add (- 1)) y)"
| conn_ready: "\<lbrakk>\<not> panicked y; Mode cfg = ''tcp''; workers y k = Some DialsPool\<rbrakk> \<Longrightarrow>
    cstep cfg y (set_worker k WaitsTarget (tcp_register k) y)"
| target_read: "\<lbrakk>\<not> panicked y; workers y k = Some WaitsTarget\<rbrakk> \<Longrightarrow>
    cstep cfg y (set_worker k Unregistered (tcp_unregister k) y)"
| session_ready: "\<lbrakk>\<not> panicked y; Mode cfg = ''tcpmux''; workers y k = Some DialsPool\<rbrakk> \<Longrightarrow>
    cstep cfg y (set_worker k AcceptsStreams (mux_register k) y)"
| stream_accepted: "\<lbrakk>\<not> panicked y; workers y k = Some AcceptsStreams; handlers y h = None\<rbrakk> \<Longrightarrow>
    cstep cfg y (y\<lparr>handlers := (handlers y)(h \<mapsto> k), cli := session_streams 1 k (cli y)\<rparr>)"
| stream_done: "\<lbrakk>\<not> panicked y; handlers y h = Some k\<rbrakk> \<Longrightarrow>
    cstep cfg y (y\<lparr>handlers := (handlers y)(h := None), cli := session_streams (- 1) k (cli y)\<rparr>)"
| accept_fails: "\<lbrakk>\<not> panicked y; workers y k = Some AcceptsStreams\<rbrakk> \<Longrightarrow>
    cstep cfg y (set_worker k Unregistered (mux_unregister k) y)"
| worker_returns: "\<lbrakk>\<not> panicked y; workers y k = Some Unregistered\<rbrakk> \<Longrightarrow>
    cstep cfg y (set_worker k Returned (active_add (- 1)) y)"
| shrinks: "\<lbrakk>\<not> panicked y; c_tcpIdle (cli y) \<noteq> {} \<longrightarrow> one \<in> c_tcpIdle (cli y);
     shrinkOne (\<lambda>_. one) cfg (cli y) = Some c\<rbrakk> \<Longrightarrow> cstep cfg y (y\<lparr>cli := c\<rparr>)"
| shrink_panics: "\<lbrakk>\<not> panicked y; c_tcpIdle (cli y) \<noteq> {} \<longrightarrow> one \<in> c_tcpIdle (cli y);
     shrinkOne (\<lambda>_. one) cfg (cli y) = None\<rbrakk> \<Longrightarrow> cstep cfg y (y\<lparr>panicked := True\<rparr>)"

abbreviation creachable :: "Config \<Rightarrow> csys \<Rightarrow> bool" where
  "creachable cfg \<equiv> (cstep cfg)\<^sup>*\<^sup>* (cstart cfg)"

section \<open>Counting\<close>

text \<open>The keys of a map whose value satisfies \<open>P\<close>, and how an update changes their number.\<close>

definition keys_with :: "('b \<Rightarrow> bool) \<Rightarrow> (nat \<Rightarrow> 'b option) \<Rightarrow> nat set" where
  "keys_with P m = {k. \<exists>x. m k = Some x \<and> P x}"

lemma keys_with_simps [simp]:
  "keys_with P (m(k \<mapsto> x)) = (if P x then insert k (keys_with P m) else keys_with P m - {k})"
  "keys_with P (m(k := None)) = keys_with P m - {k}"
  "keys_with P Map.empty = {}"
  by (auto simp: keys_with_def split: if_splits)

lemma keys_with_in: "m k = Some x \<Longrightarrow> k \<in> keys_with P m \<longleftrightarrow> P x" "m k = None \<Longrightarrow> k \<notin> keys_with P m"
  by (auto simp: keys_with_def)

lemma keys_with_finite: "finite (dom m) \<Longrightarrow> finite (keys_with P m)"
  by (rule finite_subset [of _ "dom m"]) (auto simp: keys_with_def)

lemma card_join: "finite A \<Longrightarrow> k \<notin> A \<Longrightarrow> int (card (insert k A)) = int (card A) + 1"
  by simp

lemma card_leave: "finite A \<Longrightarrow> k \<in> A \<Longrightarrow> int (card (A - {k})) = int (card A) - 1"
  by (simp add: card_Diff_singleton) (metis One_nat_def Suc_leI card_gt_0_iff empty_iff of_nat_1 of_nat_diff)

section \<open>The registrations are exact\<close>

definition working :: "csys \<Rightarrow> nat set" where
  "working y = keys_with (\<lambda>x. x \<noteq> Returned) (workers y)"

definition serving :: "csys \<Rightarrow> nat \<Rightarrow> nat set" where
  "serving y k = keys_with (\<lambda>j. j = k) (handlers y)"

definition workers_ok :: "Config \<Rightarrow> csys \<Rightarrow> bool" where
  "workers_ok cfg y \<longleftrightarrow>
     finite (dom (workers y)) \<and> c_activeCount (cli y) = int (card (working y)) \<and>
     c_tcpIdle (cli y) = keys_with (\<lambda>x. x = WaitsTarget) (workers y) - c_stopped (cli y) \<and>
     distinct (c_sessions (cli y)) \<and> set (c_sessions (cli y)) = keys_with (\<lambda>x. x = AcceptsStreams) (workers y) \<and>
     c_stopped (cli y) \<subseteq> keys_with (\<lambda>x. x \<noteq> DialsPool) (workers y) \<and>
     (Mode cfg \<noteq> ''tcp'' \<longrightarrow> keys_with (\<lambda>x. x = WaitsTarget) (workers y) = {})"

definition handlers_ok :: "csys \<Rightarrow> bool" where
  "handlers_ok y \<longleftrightarrow>
     finite (dom (handlers y)) \<and> (\<forall>k. c_streams (cli y) k = int (card (serving y k)))"

text \<open>What \<open>shrinkOne\<close> can do: nothing, stop an idle connection, stop a session without streams, or panic.\<close>

lemma shrink_tcp:
  assumes "Mode cfg = ''tcp''" "c_tcpIdle c \<noteq> {}"
  shows "shrinkOne (\<lambda>_. one) cfg c =
    (if one \<in> c_stopped c then None
     else Some (c\<lparr>c_tcpIdle := c_tcpIdle c - {one}, c_stopped := insert one (c_stopped c)\<rparr>))"
  using assms by (simp add: shrinkOne_def close_stop_def Let_def)

lemma shrink_mux:
  assumes "Mode cfg = ''tcpmux''" "find (\<lambda>k. c_streams c k = 0) (c_sessions c) = Some k"
  shows "shrinkOne (\<lambda>_. one) cfg c =
    (if k \<in> c_stopped c then None else Some (c\<lparr>c_stopped := insert k (c_stopped c)\<rparr>))"
  using assms by (simp add: shrinkOne_def close_stop_def)

lemma found_session: "find P xs = Some k \<Longrightarrow> k \<in> set xs \<and> P k"
  by (auto simp: find_Some_iff)

lemma shrink_cases:
  obtains (nothing) "shrinkOne (\<lambda>_. one) cfg c = Some c"
    | (connection) "Mode cfg = ''tcp''" "c_tcpIdle c \<noteq> {}"
    | (session) k where "Mode cfg = ''tcpmux''" "find (\<lambda>k. c_streams c k = 0) (c_sessions c) = Some k"
proof (cases "Mode cfg = ''tcp'' \<and> c_tcpIdle c \<noteq> {} \<or>
    Mode cfg = ''tcpmux'' \<and> find (\<lambda>k. c_streams c k = 0) (c_sessions c) \<noteq> None")
  case True
  then show ?thesis using connection session by blast
next
  case False
  then have "shrinkOne (\<lambda>_. one) cfg c = Some c" by (auto simp: shrinkOne_def)
  then show ?thesis by (rule nothing)
qed

lemmas worker_ops = set_worker_def active_add_def tcp_register_def tcp_unregister_def mux_register_def
  mux_unregister_def session_streams_def publish_generation_def withdraw_generation_def

lemma workers_ok_same:
  assumes "workers_ok cfg y" "workers y' = workers y" "c_activeCount (cli y') = c_activeCount (cli y)"
    "c_tcpIdle (cli y') = c_tcpIdle (cli y)" "c_sessions (cli y') = c_sessions (cli y)"
    "c_stopped (cli y') = c_stopped (cli y)"
  shows "workers_ok cfg y'"
  using assms(1) unfolding workers_ok_def working_def assms(2-6) .

lemma workers_ok_shrink:
  assumes "workers_ok cfg y" "shrinkOne (\<lambda>_. one) cfg (cli y) = Some c"
    and "c_tcpIdle (cli y) \<noteq> {} \<longrightarrow> one \<in> c_tcpIdle (cli y)"
  shows "workers_ok cfg (y\<lparr>cli := c\<rparr>)"
proof (cases rule: shrink_cases [of one cfg "cli y"])
  case nothing
  with assms(2) have "c = cli y" by simp
  then show ?thesis using workers_ok_same [OF assms(1), of "y\<lparr>cli := c\<rparr>"] by simp
next
  case connection
  then have "one \<in> keys_with (\<lambda>x. x \<noteq> DialsPool) (workers y)" "one \<notin> c_stopped (cli y)"
    using assms(1,3) by (auto simp: workers_ok_def keys_with_def)
  then show ?thesis using assms(1,2) shrink_tcp [OF connection, of one] by (auto simp: workers_ok_def working_def)
next
  case (session k)
  have "k \<in> keys_with (\<lambda>x. x \<noteq> DialsPool) (workers y)" "keys_with (\<lambda>x. x = WaitsTarget) (workers y) = {}"
    using assms(1) session found_session [OF session(2)] by (auto simp: workers_ok_def keys_with_def)
  then show ?thesis using assms(1,2) shrink_mux [OF session, of one]
    by (auto simp: workers_ok_def working_def split: if_splits)
qed

lemma tcp_shrink_never_panics:
  assumes "workers_ok cfg y" "c_tcpIdle (cli y) \<noteq> {} \<longrightarrow> one \<in> c_tcpIdle (cli y)" "Mode cfg = ''tcp''"
  shows "shrinkOne (\<lambda>_. one) cfg (cli y) \<noteq> None"
proof (cases rule: shrink_cases [of one cfg "cli y"])
  case connection
  then have "one \<notin> c_stopped (cli y)" using assms(1,2) by (auto simp: workers_ok_def)
  then show ?thesis using shrink_tcp [OF connection, of one] by simp
qed (use assms(3) in auto)

lemma workers_ok_move:
  assumes ok: "workers_ok cfg y" and k: "workers y k = Some x" "x \<noteq> Returned" "x' \<noteq> Returned" "x' \<noteq> DialsPool"
    and f: "c_activeCount (f (cli y)) = c_activeCount (cli y)" "c_stopped (f (cli y)) = c_stopped (cli y)"
      "c_tcpIdle (f (cli y)) =
         (if x' = WaitsTarget then insert k (c_tcpIdle (cli y)) else c_tcpIdle (cli y) - {k})"
      "distinct (c_sessions (f (cli y)))"
      "set (c_sessions (f (cli y))) =
         (if x' = AcceptsStreams then insert k (set (c_sessions (cli y))) else set (c_sessions (cli y)) - {k})"
    and mode: "x' = WaitsTarget \<Longrightarrow> Mode cfg = ''tcp'' \<and> x = DialsPool"
  shows "workers_ok cfg (set_worker k x' f y)"
proof -
  have "k \<in> working y" using k by (simp add: working_def keys_with_in)
  then have r: "working (set_worker k x' f y) = working y"
    using k(3) by (auto simp: working_def set_worker_def)
  have "k \<notin> c_stopped (cli y)" if "x' = WaitsTarget"
    using ok k(1) mode [OF that] by (auto simp: workers_ok_def keys_with_def)
  then show ?thesis
    using ok k(4) f mode unfolding workers_ok_def r by (auto simp: set_worker_def)
qed

lemma workers_ok_return:
  assumes ok: "workers_ok cfg y" and k: "workers y k = Some x" "x = DialsPool \<or> x = Unregistered"
  shows "workers_ok cfg (set_worker k Returned (active_add (- 1)) y)"
proof -
  have "k \<in> working y" "finite (working y)"
    using ok k by (auto simp: working_def keys_with_in workers_ok_def intro: keys_with_finite)
  note c = card_leave [OF this(2,1)]
  have r: "working (set_worker k Returned (active_add (- 1)) y) = working y - {k}"
    by (simp add: working_def set_worker_def)
  have "k \<notin> keys_with (\<lambda>x. x = WaitsTarget) (workers y)" "k \<notin> keys_with (\<lambda>x. x = AcceptsStreams) (workers y)"
    using k by (auto simp: keys_with_in)
  then show ?thesis using ok c unfolding workers_ok_def r by (auto simp: set_worker_def active_add_def)
qed

lemma workers_ok_spawn:
  assumes ok: "workers_ok cfg y" and k: "workers y k = None"
  shows "workers_ok cfg (set_worker k DialsPool (active_add 1) y)"
proof -
  have "k \<notin> working y" "finite (working y)"
    using ok k by (auto simp: working_def keys_with_in workers_ok_def intro: keys_with_finite)
  note c = card_join [OF this(2,1)]
  have r: "working (set_worker k DialsPool (active_add 1) y) = insert k (working y)"
    by (simp add: working_def set_worker_def)
  have n: "k \<notin> keys_with P (workers y)" for P using k by (rule keys_with_in)
  then have "k \<notin> c_stopped (cli y)" using ok by (auto simp: workers_ok_def)
  then show ?thesis using ok c n unfolding workers_ok_def r by (auto simp: set_worker_def active_add_def)
qed

lemma workers_ok_step:
  assumes "cstep cfg y y'" "workers_ok cfg y"
  shows "workers_ok cfg y'"
  using assms(1)
proof cases
  case (spawn k)
  then show ?thesis using workers_ok_spawn [OF assms(2)] by simp
next
  case (dial_fails k)
  then show ?thesis using workers_ok_return [OF assms(2)] by simp
next
  case (worker_returns k)
  then show ?thesis using workers_ok_return [OF assms(2)] by simp
next
  case (conn_ready k)
  have "k \<notin> set (c_sessions (cli y))" using assms(2) conn_ready by (simp add: workers_ok_def keys_with_in)
  then show ?thesis unfolding conn_ready(1) using assms(2) conn_ready
    by (intro workers_ok_move) (auto simp: tcp_register_def workers_ok_def)
next
  case (target_read k)
  have "k \<notin> set (c_sessions (cli y))" using assms(2) target_read by (simp add: workers_ok_def keys_with_in)
  then show ?thesis unfolding target_read(1) using assms(2) target_read
    by (intro workers_ok_move) (auto simp: tcp_unregister_def workers_ok_def)
next
  case (session_ready k)
  have "k \<notin> set (c_sessions (cli y))" "k \<notin> c_tcpIdle (cli y)"
    using assms(2) session_ready by (simp_all add: workers_ok_def keys_with_in)
  then show ?thesis unfolding session_ready(1) using assms(2) session_ready
    by (intro workers_ok_move) (auto simp: mux_register_def workers_ok_def)
next
  case (accept_fails k)
  have "k \<notin> c_tcpIdle (cli y)" using assms(2) accept_fails by (simp add: workers_ok_def keys_with_in)
  then show ?thesis unfolding accept_fails(1) using assms(2) accept_fails
    by (intro workers_ok_move) (auto simp: mux_unregister_def workers_ok_def)
next
  case (shrinks one c)
  then show ?thesis using workers_ok_shrink [OF assms(2)] by simp
qed (auto intro!: workers_ok_same [OF assms(2)] simp: worker_ops)

lemma handlers_ok_step:
  assumes "cstep cfg y y'" "handlers_ok y"
  shows "handlers_ok y'"
proof -
  have fin: "finite (serving y k)" for k
    using assms(2) by (auto simp: handlers_ok_def serving_def intro: keys_with_finite)
  have same: "handlers_ok z" if "handlers z = handlers y" "c_streams (cli z) = c_streams (cli y)" for z
    using assms(2) that by (simp add: handlers_ok_def serving_def)
  show ?thesis
    using assms(1)
  proof cases
    case (stream_accepted k h)
    then have "h \<notin> serving y k" by (simp add: serving_def keys_with_in)
    moreover have "j \<noteq> k \<Longrightarrow> serving y' j = serving y j" for j
      using stream_accepted by (simp add: serving_def keys_with_in)
    moreover have "serving y' k = insert h (serving y k)" using stream_accepted by (simp add: serving_def)
    ultimately show ?thesis using assms(2) stream_accepted card_join [OF fin]
      by (auto simp: handlers_ok_def session_streams_def)
  next
    case (stream_done h k)
    then have "h \<in> serving y k" by (simp add: serving_def keys_with_in)
    moreover have "j \<noteq> k \<Longrightarrow> serving y' j = serving y j" for j
      using stream_done by (simp add: serving_def keys_with_in)
    moreover have "serving y' k = serving y k - {h}" using stream_done by (simp add: serving_def)
    ultimately show ?thesis using assms(2) stream_done card_leave [OF fin]
      by (auto simp: handlers_ok_def session_streams_def)
  next
    case (shrinks one c)
    then have "c_streams c = c_streams (cli y)"
      by (auto simp: shrinkOne_def close_stop_def Let_def split: if_splits option.splits)
    with shrinks show ?thesis by (intro same) simp_all
  qed (auto intro!: same simp: worker_ops)
qed

text \<open>A panic is a \<open>shrinkOne\<close> that found a session which is stopped already and still listed.\<close>

lemma panic_step:
  assumes "cstep cfg y y'" "workers_ok cfg y" "\<not> panicked y" "panicked y'"
  shows "Mode cfg = ''tcpmux'' \<and> (\<exists>k \<in> set (c_sessions (cli y')). k \<in> c_stopped (cli y') \<and> c_streams (cli y') k = 0)"
  using assms(1)
proof cases
  case (shrink_panics one)
  show ?thesis
  proof (cases rule: shrink_cases [of one cfg "cli y"])
    case connection
    with tcp_shrink_never_panics [OF assms(2) shrink_panics(3)] shrink_panics show ?thesis by simp
  next
    case (session k)
    with shrink_mux [OF session, of one] found_session [OF session(2)] shrink_panics show ?thesis
      by (auto split: if_splits)
  qed (use shrink_panics in simp)
qed (use assms(3,4) in \<open>simp_all add: set_worker_def\<close>)

definition panic_ok :: "Config \<Rightarrow> csys \<Rightarrow> bool" where
  "panic_ok cfg y \<longleftrightarrow> panicked y \<longrightarrow>
     Mode cfg = ''tcpmux'' \<and> (\<exists>k \<in> set (c_sessions (cli y)). k \<in> c_stopped (cli y) \<and> c_streams (cli y) k = 0)"

lemma stops_when_panicked: "cstep cfg y y' \<Longrightarrow> \<not> panicked y"
  by (cases rule: cstep.cases) simp_all

lemma cinv_reachable:
  assumes "creachable cfg y"
  shows "workers_ok cfg y \<and> handlers_ok y \<and> panic_ok cfg y"
  using assms
proof (induction rule: rtranclp_induct)
  case base
  show ?case
    by (simp add: workers_ok_def handlers_ok_def panic_ok_def working_def serving_def cstart_def NewClient_def)
next
  case (step y y')
  have "panic_ok cfg y'"
    using panic_step [OF step.hyps(2)] stops_when_panicked [OF step.hyps(2)] step.IH by (auto simp: panic_ok_def)
  with step show ?case using workers_ok_step handlers_ok_step by blast
qed


section \<open>The crash of tcpmux mode is reachable\<close>

text \<open>A control connection, one worker, its session without a stream, and two calls of \<open>shrinkOne\<close>.\<close>

lemma mux_session_reachable:
  assumes "Mode cfg = ''tcpmux''"
  shows "\<exists>y. creachable cfg y \<and> \<not> panicked y \<and> c_sessions (cli y) = [7] \<and> c_streams (cli y) 7 = 0 \<and>
    c_stopped (cli y) = {} \<and> c_tcpIdle (cli y) = {}"
proof -
  let ?y0 = "cstart cfg"
  let ?y1 = "?y0\<lparr>cli := publish_generation 0 [1] 0 (cli ?y0)\<rparr>"
  let ?y2 = "set_worker 7 DialsPool (active_add 1) ?y1"
  let ?y3 = "set_worker 7 AcceptsStreams (mux_register 7) ?y2"
  have "cstep cfg ?y0 ?y1" by (rule control_up) (simp_all add: cstart_def NewClient_def)
  moreover have "cstep cfg ?y1 ?y2"
    by (rule spawn) (simp_all add: cstart_def NewClient_def publish_generation_def spawnOne_def assms)
  moreover have "cstep cfg ?y2 ?y3"
    by (rule session_ready) (simp_all add: cstart_def set_worker_def assms)
  ultimately have "creachable cfg ?y3" by (blast intro: rtranclp.intros)
  then show ?thesis
    by (intro exI [of _ ?y3]) (simp add: worker_ops cstart_def NewClient_def)
qed

theorem mux_client_can_panic:
  assumes "Mode cfg = ''tcpmux''"
  shows "\<exists>y. creachable cfg y \<and> panicked y"
proof -
  obtain y where y: "creachable cfg y" "\<not> panicked y" "c_sessions (cli y) = [7]" "c_streams (cli y) 7 = 0"
      "c_stopped (cli y) = {}" "c_tcpIdle (cli y) = {}"
    using mux_session_reachable [OF assms] by blast
  let ?c = "(cli y)\<lparr>c_stopped := {7}\<rparr>"
  have f: "find (\<lambda>k. c_streams (cli y) k = 0) (c_sessions (cli y)) = Some 7"
    "find (\<lambda>k. c_streams ?c k = 0) (c_sessions ?c) = Some 7" using y by simp_all
  have "cstep cfg y (y\<lparr>cli := ?c\<rparr>)"
    using shrink_mux [OF assms f(1), of 0] y by (intro shrinks [where one = 0]) simp_all
  moreover have "cstep cfg (y\<lparr>cli := ?c\<rparr>) (y\<lparr>cli := ?c, panicked := True\<rparr>)"
    using shrink_mux [OF assms f(2), of 0] y shrink_panics [of "y\<lparr>cli := ?c\<rparr>" 0 cfg] by simp
  ultimately have "creachable cfg (y\<lparr>cli := ?c, panicked := True\<rparr>)"
    using y(1) by (blast intro: rtranclp.intros)
  then show ?thesis by (intro exI [of _ "y\<lparr>cli := ?c, panicked := True\<rparr>"]) simp
qed

theorem mux_client_can_panic_witness: "\<exists>y. creachable (defaultConfig\<lparr>Mode := ''tcpmux''\<rparr>) y \<and> panicked y"
  by (rule mux_client_can_panic) simp


section \<open>Streams\<close>

text \<open>\<open>handleStream\<close> between its two counter updates: the target that is read from the stream, and what becomes of it.\<close>

definition handleStream ::
    "conn \<Rightarrow> (string \<rightharpoonup> backendPool) \<Rightarrow> conn \<times> (goerror + carrier_use) \<times> (string \<rightharpoonup> backendPool)" where
  "handleStream stream pools =
     (case readString stream of
        (s1, Inl e) \<Rightarrow> (conn_close s1, Inl e, pools)
      | (s1, Inr target) \<Rightarrow> (case serveTarget target pools of (u, pools') \<Rightarrow> (s1, Inr u, pools')))"

text \<open>
  The accepting loop of a session on what \<open>AcceptStream\<close> is going to return: what becomes of each stream, the
  backend pools, and whether the loop has ended.
\<close>

fun accept_streams ::
    "(goerror + conn) list \<Rightarrow> (string \<rightharpoonup> backendPool) \<Rightarrow>
     (conn \<times> (goerror + carrier_use)) list \<times> (string \<rightharpoonup> backendPool) \<times> bool" where
  "accept_streams [] pools = ([], pools, False)"
| "accept_streams (Inl e # rs) pools = ([], pools, True)"
| "accept_streams (Inr stream # rs) pools =
     (case handleStream stream pools of
        (s1, u, pools1) \<Rightarrow> (case accept_streams rs pools1 of (us, pools2, fin) \<Rightarrow> ((s1, u) # us, pools2, fin)))"

text \<open>
  What an accepted pool connection becomes in each mode, the whole of \<open>serveAcceptedCarrier\<close>: \<open>smuxServer\<close> is the
  outcome of \<open>smux.Server\<close>, and the streams are those of the session it makes.
\<close>

datatype accepted_use =
  OneCarrier conn "goerror + carrier_use"
  | ManyStreams "(conn \<times> (goerror + carrier_use)) list" bool
  | NoSession conn
  | ModeIgnored conn

definition serveAcceptedConn ::
    "string \<Rightarrow> goerror option \<Rightarrow> (goerror + conn) list \<Rightarrow> conn \<Rightarrow> (string \<rightharpoonup> backendPool) \<Rightarrow>
     accepted_use \<times> (string \<rightharpoonup> backendPool)" where
  "serveAcceptedConn mode smuxServer streams conn pools =
     (if mode = ''tcp'' then
        (case serveAcceptedCarrier conn pools of (c, u, pools') \<Rightarrow> (OneCarrier c u, pools'))
      else if mode = ''tcpmux'' then
        (case smuxServer of
           Some e \<Rightarrow> (NoSession (conn_close conn), pools)
         | None \<Rightarrow> (case accept_streams streams pools of (us, pools', fin) \<Rightarrow> (ManyStreams us fin, pools')))
      else (ModeIgnored conn, pools))"

text \<open>
  The two directions treat a carrier alike: an accepted connection in tcp mode is served exactly as one stream of an
  accepted session, and a session is its streams one after another, up to the first error of \<open>AcceptStream\<close>.
\<close>

lemma carrier_is_stream: "serveAcceptedCarrier = handleStream"
  by (intro ext) (simp add: serveAcceptedCarrier_def handleStream_def)

lemma accept_streams_one:
  "accept_streams (map Inr streams @ Inl e # rs) pools = (us, pools', fin) \<Longrightarrow>
     fin \<and> length us = length streams \<and>
     (\<forall>i < length streams. fst (us ! i) = fst (handleStream (streams ! i) pools))"
proof (induction streams arbitrary: pools us)
  case (Cons s ss)
  obtain s1 u pools1 where h: "handleStream s pools = (s1, u, pools1)" by (metis prod_cases3)
  obtain vs where r: "accept_streams (map Inr ss @ Inl e # rs) pools1 = (vs, pools', fin)" "us = (s1, u) # vs"
    using Cons.prems h by (auto split: prod.splits)
  have "fst (handleStream t p) = fst (handleStream t q)" for t p q
    by (auto simp: handleStream_def split: prod.splits sum.splits)
  with Cons.IH [OF r(1)] r(2) h show ?case by (auto simp: nth_Cons split: nat.splits)
qed simp

section \<open>The control channel a listening client accepted\<close>

text \<open>
  One generation of \<open>runListenerControl\<close>: the queue \<open>outCh\<close> to the writing goroutine, the bytes that were
  written, whether the writer still runs, the byte whose write failed, and the heartbeats the reader has answered.
\<close>

record listener_gen =
  g_out :: "byte chan"
  g_wire :: bytes
  g_writer :: bool
  g_lost :: bytes
  g_heard :: nat

definition gen_start :: listener_gen where
  "gen_start = \<lparr>g_out = make_chan 8, g_wire = [], g_writer = True, g_lost = [], g_heard = 0\<rparr>"

text \<open>The reader on a byte; \<open>None\<close> while it is blocked in \<open>outCh <- sigPong\<close>.\<close>

definition reader_byte :: "byte \<Rightarrow> listener_gen \<Rightarrow> listener_gen option" where
  "reader_byte b g =
     (case listener_read b of
        AnswerPong \<Rightarrow>
          (case try_send (g_out g) sigPong of
             Sent ch \<Rightarrow> Some (g\<lparr>g_out := ch, g_heard := g_heard g + 1\<rparr>)
           | _ \<Rightarrow> None)
      | _ \<Rightarrow> Some g)"

text \<open>The writer puts a byte on the wire, or returns when that fails: on a tick, and with what it takes.\<close>

definition writer_put :: "bool \<Rightarrow> byte \<Rightarrow> listener_gen \<Rightarrow> listener_gen" where
  "writer_put ok b g =
     (if ok then g\<lparr>g_wire := g_wire g @ [b]\<rparr> else g\<lparr>g_writer := False, g_lost := g_lost g @ [b]\<rparr>)"

definition writer_tick :: "bool \<Rightarrow> listener_gen \<Rightarrow> listener_gen option" where
  "writer_tick ok g = (if g_writer g then Some (writer_put ok sigHeartbeat g) else None)"

definition writer_take :: "bool \<Rightarrow> listener_gen \<Rightarrow> listener_gen option" where
  "writer_take ok g =
     (if g_writer g then
        (case try_recv (g_out g) of
           None \<Rightarrow> None
         | Some (b, ch) \<Rightarrow> Some (writer_put ok b (g\<lparr>g_out := ch\<rparr>)))
      else None)"

inductive gstep :: "listener_gen \<Rightarrow> listener_gen \<Rightarrow> bool" where
  reads: "reader_byte b g = Some g' \<Longrightarrow> gstep g g'"
| ticks: "writer_tick ok g = Some g' \<Longrightarrow> gstep g g'"
| takes: "writer_take ok g = Some g' \<Longrightarrow> gstep g g'"

lemma signals_distinct [simp]: "sigHeartbeat \<noteq> sigPong" "sigPong \<noteq> sigHeartbeat"
  by (simp_all add: sigHeartbeat_def sigPong_def)

definition pongs :: "bytes \<Rightarrow> nat" where
  "pongs bs = count_list bs sigPong"

lemma pongs_simps [simp]:
  "pongs [] = 0" "pongs (b # bs) = (if b = sigPong then 1 else 0) + pongs bs" "pongs (xs @ ys) = pongs xs + pongs ys"
  by (simp_all add: pongs_def)

definition gen_ok :: "listener_gen \<Rightarrow> bool" where
  "gen_ok g \<longleftrightarrow>
     set (buf (g_out g)) \<subseteq> {sigPong} \<and> length (buf (g_out g)) \<le> 8 \<and> ccap (g_out g) = 8 \<and> \<not> cclosed (g_out g) \<and>
     g_heard g = pongs (g_wire g) + length (buf (g_out g)) + pongs (g_lost g) \<and>
     (if g_writer g then g_lost g = [] else length (g_lost g) = 1)"

lemma gen_ok_put:
  assumes "gen_ok g" "g_writer g"
  shows "gen_ok (writer_put ok sigHeartbeat g)"
    and "buf (g_out g) = b # q \<Longrightarrow> gen_ok (writer_put ok b (g\<lparr>g_out := (g_out g)\<lparr>buf := q\<rparr>\<rparr>))"
  using assms by (auto simp: gen_ok_def writer_put_def)

lemma gen_ok_step:
  assumes "gstep g g'" "gen_ok g"
  shows "gen_ok g'"
  using assms(1)
proof cases
  case (reads b)
  with assms(2) show ?thesis
    by (auto simp: reader_byte_def try_send_def gen_ok_def split: read_next.splits if_splits)
next
  case (ticks ok)
  with gen_ok_put(1) [OF assms(2)] show ?thesis by (auto simp: writer_tick_def split: if_splits)
next
  case (takes ok)
  with gen_ok_put(2) [OF assms(2)] show ?thesis
    by (auto simp: writer_take_def try_recv_def split: if_splits list.splits)
qed

lemma gen_ok_reachable: "gstep\<^sup>*\<^sup>* gen_start g \<Longrightarrow> gen_ok g"
  by (induction rule: rtranclp_induct) (simp add: gen_ok_def gen_start_def make_chan_def, rule gen_ok_step)

text \<open>
  Every heartbeat that was read is answered once: its pong is on the wire, queued, or the one byte whose write
  failed. While the writer runs, nothing is lost.
\<close>

lemma heartbeats_answered:
  assumes "gstep\<^sup>*\<^sup>* gen_start g"
  shows "g_heard g = pongs (g_wire g) + length (buf (g_out g)) + pongs (g_lost g) \<and>
    pongs (g_lost g) \<le> 1 \<and> (g_writer g \<longrightarrow> g_lost g = [])"
  using gen_ok_reachable [OF assms] by (cases "g_lost g") (auto simp: gen_ok_def split: if_splits)

lemma no_writer_step:
  "gstep g g' \<Longrightarrow> \<not> g_writer g \<Longrightarrow> \<not> g_writer g' \<and> g_wire g' = g_wire g \<and> g_lost g' = g_lost g"
  by (erule gstep.cases)
    (auto simp: reader_byte_def writer_tick_def writer_take_def split: read_next.splits send_result.splits)

lemma no_writer_steps:
  "gstep\<^sup>*\<^sup>* g g' \<Longrightarrow> \<not> g_writer g \<Longrightarrow> \<not> g_writer g' \<and> g_wire g' = g_wire g \<and> g_lost g' = g_lost g"
  by (induction rule: rtranclp_induct) (auto dest: no_writer_step)

text \<open>
  A reader whose writer has returned answers at most eight heartbeats more. With the queue full it blocks on the
  next one, where its read deadline cannot reach it: the generation ends only with the process, and until then
  whoever dials is told that the listener is busy.
\<close>

lemma reader_blocks_without_writer:
  assumes "gstep\<^sup>*\<^sup>* gen_start g" "\<not> g_writer g" "gstep\<^sup>*\<^sup>* g g'"
  shows "g_heard g' \<le> g_heard g + 8" "length (buf (g_out g')) = 8 \<Longrightarrow> reader_byte sigHeartbeat g' = None"
proof -
  have ok: "gen_ok g" "gen_ok g'" using assms gen_ok_reachable by (auto intro: rtranclp_trans)
  then show "g_heard g' \<le> g_heard g + 8" using no_writer_steps [OF assms(3,2)] by (simp add: gen_ok_def)
  show "reader_byte sigHeartbeat g' = None" if "length (buf (g_out g')) = 8"
    using ok(2) that by (simp add: gen_ok_def reader_byte_def listener_read_def try_send_def sigHeartbeat_def sigClose_def)
qed

end
