(* ===== verification/Udp_Ports.thy ===== *)
theory Udp_Ports
  imports Udp_Carrier Startup
begin

text \<open>
  A forwarded port of the udp carrier mode from its start (\<open>udpcarrier.go\<close>): the socket, and the goroutine of one
  session with its idle timer, \<open>serveUDPCarrierSession\<close>, over the session functions of theory \<open>Udp_Carrier\<close>, while
  the other goroutines do what they like to the tables.
\<close>

section \<open>The port's socket\<close>

definition tuneUDPConn :: "int \<Rightarrow> int \<Rightarrow> tcp_call list" where
  "tuneUDPConn rcvBuf sndBuf =
     (if rcvBuf > 0 then [TSetReadBuffer rcvBuf] else []) @ (if sndBuf > 0 then [TSetWriteBuffer sndBuf] else [])"

text \<open>How \<open>runUDPCarrierPort\<close> starts: two ways to end the process, or a socket with its options and a line in the log.\<close>

datatype 'a port_socket = FatalResolving string goerror | FatalListening string goerror | PortSocket 'a "tcp_call list" string

definition runUDPCarrierPort ::
    "(string \<Rightarrow> goerror + 'a) \<Rightarrow> ('a \<Rightarrow> goerror option) \<Rightarrow> Config \<Rightarrow> PortMap \<Rightarrow> 'a port_socket" where
  "runUDPCarrierPort resolve listenUDP cfg pm =
     (case resolve (Listen pm) of
        Inl e \<Rightarrow> FatalResolving (Listen pm) e
      | Inr addr \<Rightarrow>
          (case listenUDP addr of
             Some e \<Rightarrow> FatalListening (Listen pm) e
           | None \<Rightarrow> PortSocket addr (tuneUDPConn (RecvBuf cfg) (SendBuf cfg))
               (''[udp] forwarding '' @ Listen pm @ '' -> (client dials) '' @ Target pm)))"

section \<open>The idle timer\<close>

text \<open>
  A \<open>time.Timer\<close>: when it is due, if it is armed, and whether its channel holds a tick. It fires when the clock
  reaches the time; \<open>Stop\<close> says whether it was still armed.
\<close>

record timer =
  t_due :: "int option"
  t_tick :: bool

definition NewTimer :: "int \<Rightarrow> int \<Rightarrow> timer" where
  "NewTimer d now = \<lparr>t_due = Some (now + d), t_tick = False\<rparr>"

definition timer_clock :: "int \<Rightarrow> timer \<Rightarrow> timer" where
  "timer_clock now t =
     (case t_due t of
        None \<Rightarrow> t
      | Some w \<Rightarrow> if w \<le> now then \<lparr>t_due = None, t_tick = True\<rparr> else t)"

definition timer_Stop :: "timer \<Rightarrow> bool \<times> timer" where
  "timer_Stop t = (t_due t \<noteq> None, t\<lparr>t_due := None\<rparr>)"

definition timer_Reset :: "int \<Rightarrow> int \<Rightarrow> timer \<Rightarrow> timer" where
  "timer_Reset d now t = t\<lparr>t_due := Some (now + d)\<rparr>"

definition resetTimer :: "int \<Rightarrow> int \<Rightarrow> timer \<Rightarrow> timer" where
  "resetTimer d now t =
     (case timer_Stop t of
        (active, t) \<Rightarrow> timer_Reset d now (if active then t else t\<lparr>t_tick := False\<rparr>))"

section \<open>One session's goroutine\<close>

text \<open>
  The state around the goroutine of session \<open>k\<close>: the clock, the timer, the tables it shares, the counters, what it
  wrote and to whom, and whether it returned. \<open>v_last\<close> records when it last relayed a datagram, or started.
\<close>

record served =
  v_now :: int
  v_timer :: timer
  v_ports :: port_sessions
  v_carrier :: carrier
  v_counters :: counters
  v_sent :: "(string \<times> bytes) list"
  v_ended :: bool
  v_last :: int

definition serve_start :: "int \<Rightarrow> port_sessions \<Rightarrow> carrier \<Rightarrow> counters \<Rightarrow> served" where
  "serve_start now p s n = \<lparr>v_now = now, v_timer = NewTimer udpIdleTimeout now, v_ports = p, v_carrier = s,
     v_counters = n, v_sent = [], v_ended = False, v_last = now\<rparr>"

text \<open>The two relaying cases: \<open>written\<close> is the number of bytes, or \<open>None\<close> when the write fails; the timer is reset either way.\<close>

definition relayed :: "direction \<Rightarrow> int option \<Rightarrow> string \<times> bytes \<Rightarrow> served \<Rightarrow> served" where
  "relayed d written dg v =
     (let v = (case written of
                 None \<Rightarrow> v
               | Some n \<Rightarrow> v\<lparr>v_counters := add_bytes d n (v_counters v), v_sent := v_sent v @ [dg]\<rparr>)
      in v\<lparr>v_timer := resetTimer udpIdleTimeout (v_now v) (v_timer v), v_last := v_now v\<rparr>)"

definition serve_out :: "nat \<Rightarrow> int option \<Rightarrow> served \<Rightarrow> served option" where
  "serve_out k written v =
     (case session_out k (v_ports v) (v_carrier v) of
        None \<Rightarrow> None
      | Some (dg, p) \<Rightarrow> Some (relayed ToTunnel written dg (v\<lparr>v_ports := p\<rparr>)))"

definition serve_in :: "nat \<Rightarrow> int option \<Rightarrow> served \<Rightarrow> served option" where
  "serve_in k written v =
     (case session_in k (v_ports v) (v_carrier v) of
        None \<Rightarrow> None
      | Some (dg, s) \<Rightarrow> Some (relayed FromTunnel written dg (v\<lparr>v_carrier := s\<rparr>)))"

text \<open>Returning, with the deferred clean-up.\<close>

definition serve_return :: "nat \<Rightarrow> served \<Rightarrow> served" where
  "serve_return k v =
     (case session_ends k (v_ports v) (v_carrier v) of
        (p, s) \<Rightarrow> v\<lparr>v_ports := p, v_carrier := s, v_ended := True\<rparr>)"

text \<open>
  The steps: the clock, the other goroutines on the tables (the port's loop, the pool's loop and both reapers, here
  any change at all), and the four cases of the \<open>select\<close>.
\<close>

inductive serveUDPCarrierSession :: "nat \<Rightarrow> served \<Rightarrow> served \<Rightarrow> bool" for k where
  clock: "v_now v \<le> t \<Longrightarrow> serveUDPCarrierSession k v (v\<lparr>v_now := t, v_timer := timer_clock t (v_timer v)\<rparr>)"
| others: "serveUDPCarrierSession k v (v\<lparr>v_ports := p, v_carrier := s, v_counters := n\<rparr>)"
| out: "\<lbrakk>\<not> v_ended v; serve_out k written v = Some v'\<rbrakk> \<Longrightarrow> serveUDPCarrierSession k v v'"
| into: "\<lbrakk>\<not> v_ended v; serve_in k written v = Some v'\<rbrakk> \<Longrightarrow> serveUDPCarrierSession k v v'"
| idle: "\<lbrakk>\<not> v_ended v; t_tick (v_timer v)\<rbrakk> \<Longrightarrow>
    serveUDPCarrierSession k v (serve_return k (v\<lparr>v_timer := (v_timer v)\<lparr>t_tick := False\<rparr>\<rparr>))"
| cancelled: "\<not> v_ended v \<Longrightarrow> serveUDPCarrierSession k v (serve_return k v)"

section \<open>The timer means what it says\<close>

text \<open>While the goroutine runs: the timer is due exactly \<open>udpIdleTimeout\<close> after the last datagram, or has fired then.\<close>

definition timer_ok :: "served \<Rightarrow> bool" where
  "timer_ok v \<longleftrightarrow> \<not> v_ended v \<longrightarrow>
     v_last v \<le> v_now v \<and>
     v_timer v = (if v_last v + udpIdleTimeout \<le> v_now v then \<lparr>t_due = None, t_tick = True\<rparr>
                  else \<lparr>t_due = Some (v_last v + udpIdleTimeout), t_tick = False\<rparr>)"

lemma udpIdleTimeout_pos: "0 < udpIdleTimeout"
  by (simp add: udpIdleTimeout_def)

lemma resetTimer_clean:
  "t_due t \<noteq> None \<longrightarrow> \<not> t_tick t \<Longrightarrow> resetTimer d now t = \<lparr>t_due = Some (now + d), t_tick = False\<rparr>"
  by (cases t) (auto simp: resetTimer_def timer_Stop_def timer_Reset_def)

lemma relayed_ok:
  assumes "timer_ok v" "\<not> v_ended v"
  shows "timer_ok (relayed d written dg v)"
proof -
  have "t_due (v_timer v) \<noteq> None \<longrightarrow> \<not> t_tick (v_timer v)" using assms by (simp add: timer_ok_def)
  from resetTimer_clean [OF this] show ?thesis
    using udpIdleTimeout_pos by (cases written) (simp_all add: timer_ok_def relayed_def)
qed

lemma timer_ok_tables: "timer_ok v \<Longrightarrow> timer_ok (v\<lparr>v_ports := p, v_carrier := s, v_counters := n\<rparr>)"
  by (simp add: timer_ok_def)

lemma timer_ok_step:
  assumes "serveUDPCarrierSession k v v'" "timer_ok v"
  shows "timer_ok v'"
  using assms(1)
proof cases
  case (clock t)
  with assms(2) show ?thesis by (auto simp: timer_ok_def timer_clock_def)
next
  case (others p s n)
  with assms(2) show ?thesis by (simp add: timer_ok_tables)
next
  case (out written)
  then obtain dg p where "v' = relayed ToTunnel written dg (v\<lparr>v_ports := p\<rparr>)"
    by (auto simp: serve_out_def split: option.splits)
  moreover have "timer_ok (v\<lparr>v_ports := p\<rparr>)" using assms(2) by (simp add: timer_ok_def)
  ultimately show ?thesis using relayed_ok out(1) by simp
next
  case (into written)
  then obtain dg s where "v' = relayed FromTunnel written dg (v\<lparr>v_carrier := s\<rparr>)"
    by (auto simp: serve_in_def split: option.splits)
  moreover have "timer_ok (v\<lparr>v_carrier := s\<rparr>)" using assms(2) by (simp add: timer_ok_def)
  ultimately show ?thesis using relayed_ok into(1) by simp
qed (simp_all add: timer_ok_def serve_return_def split: prod.splits)

lemma timer_ok_reachable:
  "(serveUDPCarrierSession k)\<^sup>*\<^sup>* (serve_start now p s n) v \<Longrightarrow> timer_ok v"
proof (induction rule: rtranclp_induct)
  case base
  then show ?case using udpIdleTimeout_pos by (simp add: timer_ok_def serve_start_def NewTimer_def)
qed (rule timer_ok_step)

text \<open>
  Property C18. The idle timer of a udp session is exact, whatever else happens to the tables: as long as its goroutine
  runs, a tick is waiting if and only if ninety seconds have passed since the last datagram it relayed in either
  direction (a failed write counts). No stale tick survives a reset, so a session that relays is never ended by its
  timer and a silent one always can be; and a session that ends leaves neither itself under its user's address nor
  its flow's address in the flow table.
\<close>
theorem idle_timer_exact:
  assumes "(serveUDPCarrierSession k)\<^sup>*\<^sup>* (serve_start now p s n) v" "\<not> v_ended v"
  shows "(t_tick (v_timer v) \<longleftrightarrow> v_last v + 90 * second \<le> v_now v) \<and>
    p_table (v_ports (serve_return k v)) (p_user (v_ports v) k) \<noteq> Some k \<and>
    f_table (v_carrier (serve_return k v)) (f_peer (v_carrier v) (p_flow (v_ports v) k)) = None \<and>
    (\<forall>key. p_table (v_ports v) key \<noteq> Some k \<longrightarrow>
       p_table (v_ports (serve_return k v)) key = p_table (v_ports v) key)"
proof -
  have "t_tick (v_timer v) \<longleftrightarrow> v_last v + 90 * second \<le> v_now v"
    using timer_ok_reachable [OF assms(1)] assms(2) by (simp add: timer_ok_def udpIdleTimeout_def)
  then show ?thesis by (auto simp: serve_return_def session_ends_def)
qed

text \<open>A session that nothing reached for two minutes.\<close>

theorem idle_timer_exact_witness:
  "\<exists>v. (serveUDPCarrierSession 0)\<^sup>*\<^sup>* (serve_start 0 port_start carrier_start \<lparr>totalBytes = 0, bytesIn = 0, bytesOut = 0\<rparr>) v \<and>
     v_now v = 120 * second \<and> t_tick (v_timer v)"
proof -
  let ?v = "serve_start 0 port_start carrier_start \<lparr>totalBytes = 0, bytesIn = 0, bytesOut = 0\<rparr>"
  let ?w = "?v\<lparr>v_now := 120 * second, v_timer := timer_clock (120 * second) (v_timer ?v)\<rparr>"
  have "serveUDPCarrierSession 0 ?v ?w" by (rule clock) (simp add: serve_start_def)
  then have "(serveUDPCarrierSession 0)\<^sup>*\<^sup>* ?v ?w" by (rule r_into_rtranclp)
  with idle_timer_exact [OF this] show ?thesis
    by (intro exI [of _ ?w]) (simp add: serve_start_def)
qed

end
