(* ===== verification/Paqet_Screens.thy ===== *)
theory Paqet_Screens
  imports Paqet
begin

text \<open>
  What two paqet screens print (\<open>paqet_wizard.go\<close>): the settings above the editor and the connection test. A line is
  its text without colors. A screen is its lines and whether it ends in a panic.
\<close>

section \<open>The settings\<close>

definition kcp_lines :: "paqetKCP \<Rightarrow> string list" where
  "kcp_lines k =
     [''  kcp: mode='' @ pk_Mode k @ ''  block='' @ pk_Block k @ ''  mtu='' @ itoa (pk_MTU k) @ ''  rcvwnd='' @
        itoa (pk_Rcvwnd k) @ ''  sndwnd='' @ itoa (pk_Sndwnd k),
      ''       smuxbuf='' @ itoa (pk_Smuxbuf k) @ ''  streambuf='' @ itoa (pk_Streambuf k) @
        (if pk_Dshard k > 0 then ''  fec='' @ itoa (pk_Dshard k) @ ''/'' @ itoa (pk_Pshard k) else [])]"

definition forward_line :: "paqetForward \<Rightarrow> string" where
  "forward_line f = ''  forward: '' @ pf_Listen f @ '' -> '' @ pf_Target f @ '' ('' @ pf_Protocol f @ '')''"

definition socks_line :: "paqetSocks5 \<Rightarrow> string" where
  "socks_line s =
     ''  socks5: '' @ ps_Listen s @ '' ('' @ (if ps_Username s \<noteq> [] then ''user '' @ ps_Username s else ''no auth'') @ '')''"

text \<open>\<open>c.Server\<close> and \<open>c.Listen\<close> are pointers that are read without a check.\<close>

definition printPaqetSettings :: "paqetConf \<Rightarrow> string list \<times> bool" where
  "printPaqetSettings c =
     (let top =
        [''current settings:'',
         ''  role: '' @ pc_Role c @ ''   log level: '' @ pc_LogLevel c,
         ''  network: interface='' @ pn_Interface (pc_Network c) @ ''  ip='' @ pn_Addr (pc_Network c) @
           ''  gateway_mac='' @ pn_RouterMAC (pc_Network c),
         ''  transport: protocol='' @ pc_Protocol c @ ''  connections='' @ itoa (pc_Conn c)] @ kcp_lines (pc_KCP c)
      in if pc_Role c = ''client'' then
           (case pc_Server c of
              None \<Rightarrow> (top, True)
            | Some addr \<Rightarrow>
                (top @ [''  dials: '' @ addr] @ map forward_line (pc_Forward c) @ map socks_line (pc_SOCKS5 c), False))
         else
           (case pc_Listen c of
              None \<Rightarrow> (top, True)
            | Some addr \<Rightarrow> (top @ [''  listen: '' @ addr], False)))"

text \<open>It panics exactly on the configurations that theory \<open>Paqet\<close> lets the editor panic on.\<close>

lemma printPaqetSettings_panics: "snd (printPaqetSettings c) \<longleftrightarrow> \<not> printPaqetSettings_ok c"
  by (simp add: printPaqetSettings_def printPaqetSettings_ok_def Let_def split: option.splits)

text \<open>
  No secret is on the screen: two configurations that differ only in the tunnel's key and in the passwords of their
  SOCKS listeners look the same.
\<close>

definition hide_password :: "paqetSocks5 \<Rightarrow> paqetSocks5" where
  "hide_password s = s\<lparr>ps_Password := []\<rparr>"

definition hide_secrets :: "paqetConf \<Rightarrow> paqetConf" where
  "hide_secrets c = c\<lparr>pc_KCP := (pc_KCP c)\<lparr>pk_Key := []\<rparr>, pc_SOCKS5 := map hide_password (pc_SOCKS5 c)\<rparr>"

lemma socks_line_hides: "map socks_line (map hide_password ss) = map socks_line ss"
  by (induction ss) (simp_all add: socks_line_def hide_password_def)

lemma settings_hide_secrets: "printPaqetSettings (hide_secrets c) = printPaqetSettings c"
  unfolding printPaqetSettings_def hide_secrets_def
  by (simp add: Let_def kcp_lines_def socks_line_hides [simplified] split: option.splits)

section \<open>The connection test\<close>

text \<open>\<open>ping\<close> is the outcome of running paqet: its output, and its error text if it failed.\<close>

definition testPaqetConnection :: "bool \<Rightarrow> (string list \<Rightarrow> string \<times> string option) \<Rightarrow> string \<Rightarrow> string \<Rightarrow> string list" where
  "testPaqetConnection installed ping name path =
     (''Test connection: '' @ name) #
     (if \<not> installed then [''paqet isn't installed at '' @ paqetBinPath @ ''.'']
      else
        (case ping [paqetBinPath, ''ping'', ''-c'', path] of
           (out, res) \<Rightarrow>
             [paqetBinPath @ '' ping -c '' @ path, [], out] @
             (case res of
                None \<Rightarrow> [''reachable.'']
              | Some e \<Rightarrow>
                  [''ping failed: '' @ e,
                   ''also try \"paqet dump -p <port>\" on the Kharej box to see if packets are arriving at all.''])))"

lemma reachable_iff_ping_succeeds:
  "last (testPaqetConnection installed ping name path) = ''reachable.'' \<longleftrightarrow>
     installed \<and> snd (ping [paqetBinPath, ''ping'', ''-c'', path]) = None"
  by (auto simp: testPaqetConnection_def split: prod.splits option.splits)

end
