(* ===== verification/Spec2Isabelle.thy ===== *)
theory Spec2Isabelle
  imports Record_Layer Disguises Backends Ports_Spec Server_Safety Direct Udp_Carrier Pipe Link_Test Wizard_Build Startup
    Backup Update Menu Speed_Test Reports Listeners Screen_Text Client_Steps Udp_Ports Paqet_Screens
begin

text \<open>
  rmtunnel: a verification library of the Go program under \<open>src/\<close>.

  The program. Two boxes run the same binary. The server (the Iran side) accepts users on forwarded ports; the
  client (the Kharej side) reaches the backends. In direction "reverse" the client dials the server, in direction "direct"
  it is the other way round. One connection carries the control channel (heartbeats, requests for more
  connections, the end of a generation); pool connections, or the streams of multiplexed sessions, carry one forwarded
  flow each. A connection may be disguised as websocket over TLS, as a Noise record stream, as KCP or as QUIC, and UDP has a
  mode of its own. Beside the tunnel there are an interactive menu that writes the configuration files and services, a tuner,
  a link test, backup, update, and a second engine, the separate program paqet.

  Vocabulary.
  \<^item> \<open>Go_Prelude\<close>: bytes and Go strings, \<open>goerror\<close>, the parts of \<open>strings\<close> and \<open>strconv\<close> in use, 64-bit wrap-around.
  \<^item> \<open>Conn\<close>: what is used of \<open>net.Conn\<close>: unread bytes, bytes written, closed or not; \<open>io.ReadFull\<close>; the interface
    \<open>frame_codec\<close> of length-prefixed frames.
  \<^item> \<open>Console\<close> (\<open>menu.go\<close>, \<open>abort.go\<close>): a question is a function of the lines still to be typed; its
    result is an answer, a cancellation, a panic, or the exit at the end of the input. A \<open>screen\<close> is a round that is
    repeated until it says otherwise.

  The tunnel.
  \<^item> \<open>Wire\<close> (\<open>protocol.go\<close>): frames and both handshakes. Shown: the two ends agree on the outcome, the
    server admits exactly the holders of the token of the generation in force, its refusals tell nothing, frames round-trip.
  \<^item> \<open>Record_Layer\<close> (\<open>noise.go\<close>, the stream of \<open>wss.go\<close>): cutting a byte stream into records and joining them again,
    over any cipher pair that decrypts what it encrypted.
  \<^item> \<open>Config\<close> (\<open>config.go\<close>, \<open>kcpdisguise.go\<close>, \<open>mux.go\<close>): defaults, the whole of \<open>validate\<close> against an independent statement
    of what is accepted, loading.
  \<^item> \<open>Failover\<close> (\<open>profiles.go\<close>, \<open>util.go\<close>), \<open>Disguises\<close> (\<open>disguise.go\<close>, \<open>dial.go\<close>), \<open>Backends\<close> (\<open>backendpool.go\<close>), \<open>Ports_Spec\<close>
    (\<open>ports.go\<close>): which address is dialed next, how a connection is opened and accepted, which backend is picked, which
    ports are forwarded.
  \<^item> \<open>Server\<close>, \<open>Server_Steps\<close>, \<open>Server_Safety\<close> (\<open>server.go\<close>): every critical section as a function of the shared state; all
    goroutines as one step relation \<open>sstep\<close> over those functions; invariants of every reachable state (one
    generation, no pool connection lost, exact stream counters) and the two races of the control channel.
  \<^item> \<open>Client\<close> (\<open>client.go\<close>), \<open>Direct\<close> (\<open>direct.go\<close>), \<open>Startup\<close>: the client with its pool maintainer, the same pieces in
    direction "direct", what \<open>Run\<close> starts for each role, and one flow from accept to copy.
  \<^item> \<open>Client_Steps\<close> (\<open>client.go\<close>, \<open>direct.go\<close>): the client's workers, stream handlers and maintainer as one step relation
    \<open>cstep\<close>, with exact books in every reachable state and the panic of tcpmux mode; the reader and the writer of an
    accepted control channel.
  \<^item> \<open>Listeners\<close> (\<open>wss.go\<close>, \<open>quicdisguise.go\<close>, \<open>kcpdisguise.go\<close>, socket options): the queues behind the listeners, the accept loops and the end of
    \<open>Run\<close> as steps \<open>lstep\<close> and \<open>rstep\<close>; how a websocket listener starts. Shown: no connection is lost; a side with a websocket
    listener never returns from \<open>Run\<close>, any other can; which paths make the start panic.
  \<^item> \<open>Pipe\<close> (\<open>pipe.go\<close>), \<open>Udp_Relay\<close> (\<open>udp.go\<close>), \<open>Udp_Carrier\<close> (\<open>udpcarrier.go\<close>): copying, UDP over streams, UDP over UDP.
    The last uses the interface \<open>mailbox\<close> (datagrams go in at one end and come out in order) twice. \<open>Udp_Ports\<close>: the
    goroutine of one of its sessions with the idle timer, which is exact whatever the other goroutines do.

  The tools.
  \<^item> \<open>Speed_Test\<close> (\<open>bench.go\<close>): both ends of the speed test, over connections with a clock. Shown: which bytes a figure counts,
    and when the two phases are kept apart. \<open>Tiers\<close> (\<open>bench.go\<close>), \<open>Link_Test\<close> (\<open>linktest.go\<close>): from a measurement to
    buffer sizes, timers and a transport.
  \<^item> \<open>Tunnels\<close> (\<open>tunnels.go\<close>): names, paths, units and listing. \<open>Wizard\<close>, \<open>Wizard_File\<close>, \<open>Wizard_Build\<close>
    (\<open>wizard.go\<close>): the questions, the TOML they are written to and a reader for files of that form, and
    the wizards and the editor as a whole. Shown: what the wizard writes loads, up to one combination the theorem names.
  \<^item> \<open>Box\<close> (\<open>service.go\<close>): a box is its files and the commands that were run; \<open>host\<close> says which of its operations fail.
    \<open>Upkeep\<close> (\<open>tune.go\<close>, \<open>autorefresh.go\<close>), \<open>Backup\<close> (\<open>backup.go\<close>), \<open>Update\<close> (\<open>update.go\<close>), \<open>Paqet_Install\<close>
    (\<open>paqet_install.go\<close>) and \<open>Paqet\<close> (\<open>paqet.go\<close>, \<open>paqet_wizard.go\<close>) change boxes;
    \<open>Paqet_Screens\<close> holds what its screens print, which shows no secret. Shown: a deletion touches one tunnel only; a backup restores
    what it was made from; which files a restore can write, and that a crafted archive gets past the check; migrations lose
    nothing and settle; firewall rules are there once; an installation leaves no half of a binary.
  \<^item> \<open>Asking\<close>, \<open>Menu\<close> (\<open>menu.go\<close>, the menus of \<open>tunnels.go\<close>, \<open>backup.go\<close>, \<open>help.go\<close>, \<open>update.go\<close>): the interactive program as a
    whole, as a function of the box and the lines typed. Shown: which screens can crash it and which cannot; the menu of a
    tunnel stays with that tunnel; what a wizard saved is then listed and loads.
  \<^item> \<open>Reports\<close> (\<open>main.go\<close>, \<open>metrics.go\<close>, \<open>health.go\<close>, \<open>status.go\<close>): the command line, the metrics file, and the rows of the
    screens. Shown: the health check finds exactly the addresses claimed twice for the same purpose; the metrics file is replaced
    whole; a unit starts its own tunnel; sizes have a unit.
  \<^item> \<open>Screen_Text\<close> (\<open>color.go\<close>, the banner of \<open>menu.go\<close>): texts with escape sequences. Shown: the boxes are rectangles in any color.

  Arguments of the model. HMAC-SHA-256, random bytes, the Noise and TLS libraries, KCP, QUIC, smux, the TOML and
  YAML libraries, tar and gzip, iptables, DNS and dialing are arguments of the definitions that use them. Where a
  theorem relies on one, it says so in a hypothesis (\<open>iptables_ok\<close>, \<open>rereads\<close>, \<open>parses_seconds\<close>), and a
  witness gives an instance. Time is an argument in nanoseconds. Rounding of floating point is an argument of the
  functions that compute with it.

  Loops and bounds. Loops of the code that read a finite input recurse over it. A question that is asked again uses up a
  line in every round, and so does a screen, so the number of lines typed bounds the rounds (\<open>ask_until_unfold\<close>,
  \<open>screen_unfold\<close>, \<open>runMenu_unfold\<close>). The search for a free
  name (\<open>legacy_name\<close>) terminates because a box has finitely many files. Loops that run as long as the process are steps
  or rounds. Integers are kept at 64 bits where they can overflow.

  Not modelled, because nothing is decided there: the texts of the screens (\<open>help.go\<close>), the signal handler and
  the logging ticker (\<open>main.go\<close>). Not modelled, because the behaviour is that of a library: TLS, HTTP, websocket framing, KCP and QUIC below the calls that are made.
\<close>

end
